(* ===== verification/Prelude.thy ===== *)
theory Prelude
  imports Main "HOL-Library.Word" "HOL-Library.List_Lexorder"
begin

text \<open>
  What every component shares: bytes and byte strings, big-endian integers, Python's
  exceptions as values, slices and searches in byte strings, and the locale of a
  transition system with an invariant, which the state machines of the development
  interpret.
\<close>

unbundle bit_operations_syntax

section \<open>Bytes and text\<close>

type_synonym byte = "8 word"
type_synonym bytes = "byte list"

text \<open>A decoded Python \<open>str\<close> is its list of code points; ASCII protocol text (addresses,
  hexadecimal) is a HOL \<open>string\<close>.\<close>

type_synonym ustr = "nat list"

text \<open>The bytes literal \<open>b"..."\<close>.\<close>

definition ascii :: "string \<Rightarrow> bytes" where
  "ascii s = map of_char s"

lemma of_char_word8_inj: "(of_char c :: byte) = of_char d \<longleftrightarrow> c = d"
proof
  assume a: "(of_char c :: byte) = of_char d"
  have "unat (of_char x :: byte) = of_char x" for x :: char
  proof -
    have "(of_char x :: byte) = of_nat (of_char x)"
      by (metis of_nat_of_char)
    moreover have "(of_char x :: nat) < 2 ^ 8" by simp
    ultimately show ?thesis by (simp add: unsigned_of_nat take_bit_nat_eq_self)
  qed
  with a have "(of_char c :: nat) = of_char d" by metis
  then show "c = d" by simp
qed simp

lemma ascii_eq_iff [simp]: "ascii s = ascii t \<longleftrightarrow> s = t"
  unfolding ascii_def
  by (rule inj_map_eq_map) (auto simp: inj_on_def of_char_word8_inj)

lemma length_ascii [simp]: "length (ascii s) = length s"
  by (simp add: ascii_def)

lemma unat_byte_less [simp]: "unat (b :: byte) < 256"
  using unsigned_less [of b] by simp

section \<open>Results\<close>

text \<open>A fallible computation returns a sum: \<open>Inl\<close> the exception, \<open>Inr\<close> the value.
  \<open>bind_r\<close> runs the rest of the body when no exception was raised.\<close>

fun bind_r :: "'e + 'a \<Rightarrow> ('a \<Rightarrow> 'e + 'b) \<Rightarrow> 'e + 'b" where
  "bind_r (Inl e) f = Inl e"
| "bind_r (Inr x) f = f x"

lemma bind_r_Inr_iff: "bind_r m f = Inr y \<longleftrightarrow> (\<exists>x. m = Inr x \<and> f x = Inr y)"
  by (cases m) auto

lemma bind_r_cong [fundef_cong]:
  "m = m' \<Longrightarrow> (\<And>x. m' = Inr x \<Longrightarrow> f x = g x) \<Longrightarrow> bind_r m f = bind_r m' g"
  by (cases m') simp_all

text \<open>Raising another class of exception in place of one.\<close>

fun map_exn :: "('e \<Rightarrow> 'f) \<Rightarrow> 'e + 'a \<Rightarrow> 'f + 'a" where
  "map_exn h (Inl e) = Inl (h e)"
| "map_exn h (Inr x) = Inr x"

lemma map_exn_Inr_iff [simp]: "map_exn h r = Inr x \<longleftrightarrow> r = Inr x"
  by (cases r) auto

lemma bind_r_Inl_iff: "bind_r m f = Inl e \<longleftrightarrow> m = Inl e \<or> (\<exists>x. m = Inr x \<and> f x = Inl e)"
  by (cases m) auto

text \<open>The exceptions of the Python language and library that the components raise
  themselves; each component adds its own exception classes.\<close>

datatype pyexn = ValueError string | TypeError string | AssertionError string
  | KeyError | ZeroDivisionError

section \<open>Slices and searches in byte strings\<close>

text \<open>\<open>data[i:j]\<close> for \<open>0 \<le> i\<close>; both bounds are clipped to the length.\<close>

definition slice :: "'a list \<Rightarrow> nat \<Rightarrow> nat \<Rightarrow> 'a list" where
  "slice xs i j = take (j - i) (drop i xs)"

text \<open>\<open>data.find(b, pos)\<close>: the least index at or after \<open>pos\<close>, \<open>None\<close> for -1.\<close>

definition find_byte :: "byte \<Rightarrow> bytes \<Rightarrow> nat \<Rightarrow> nat option" where
  "find_byte b data pos =
     (let rest = drop pos data; n = length (takeWhile (\<lambda>x. x \<noteq> b) rest)
      in if n < length rest then Some (pos + n) else None)"

text \<open>\<open>raw.startswith(p)\<close>.\<close>

definition startswith :: "bytes \<Rightarrow> bytes \<Rightarrow> bool" where
  "startswith raw p \<longleftrightarrow> take (length p) raw = p"

lemma length_slice [simp]: "length (slice xs i j) = min (j - i) (length xs - i)"
  by (simp add: slice_def)

lemma slice_append_mid:
  "length pre = i \<Longrightarrow> j = i + length mid \<Longrightarrow> slice (pre @ mid @ post) i j = mid"
  by (simp add: slice_def)

lemma slice_split:
  "i \<le> j \<Longrightarrow> j \<le> k \<Longrightarrow> slice xs i k = slice xs i j @ slice xs j k"
proof -
  assume "i \<le> j" "j \<le> k"
  then have k: "k - i = (j - i) + (k - j)" by simp
  show ?thesis
    unfolding slice_def k take_add using \<open>i \<le> j\<close> by simp
qed

lemma slice_single: "i < length xs \<Longrightarrow> slice xs i (Suc i) = [xs ! i]"
  by (simp add: slice_def take_Suc hd_drop_conv_nth)

lemma slice_Cons: "i < j \<Longrightarrow> i < length xs \<Longrightarrow> slice xs i j = xs ! i # slice xs (Suc i) j"
  using slice_split [of i "Suc i" j xs] by (simp add: slice_single)

lemma slice_all: "slice xs 0 (length xs) = xs"
  by (simp add: slice_def)

lemma slice_zero: "slice xs 0 n = take n xs"
  by (simp add: slice_def)

lemma find_byte_Some:
  assumes "find_byte b data pos = Some i"
  shows "pos \<le> i" and "i < length data" and "data ! i = b"
    and "b \<notin> set (slice data pos i)"
proof -
  let ?r = "drop pos data"
  let ?n = "length (takeWhile (\<lambda>x. x \<noteq> b) ?r)"
  from assms have n: "?n < length ?r" and i: "i = pos + ?n"
    by (auto simp: find_byte_def Let_def split: if_splits)
  from i show "pos \<le> i" by simp
  from n i show len: "i < length data" by simp
  have "?r ! ?n = b" using n nth_length_takeWhile by fastforce
  then show "data ! i = b" using i n by (simp add: add.commute)
  have "slice data pos i = takeWhile (\<lambda>x. x \<noteq> b) ?r"
    unfolding slice_def using i by (simp add: takeWhile_eq_take [symmetric])
  then show "b \<notin> set (slice data pos i)" by (auto dest: set_takeWhileD)
qed

lemma find_byte_append:
  assumes "b \<notin> set mid" and "length pre = pos"
  shows "find_byte b (pre @ mid @ b # post) pos = Some (pos + length mid)"
proof -
  have "takeWhile (\<lambda>x. x \<noteq> b) (mid @ b # post) = mid"
    using assms(1) by (subst takeWhile_append2) auto
  then show ?thesis using assms(2) by (simp add: find_byte_def)
qed


section \<open>State machines\<close>

text \<open>States reachable from an initial state by steps that carry an event. An invariant of a
  machine is a set of states its initial states are in and its steps do not leave.\<close>

inductive reachable :: "('s \<Rightarrow> bool) \<Rightarrow> ('s \<Rightarrow> 'e \<Rightarrow> 's \<Rightarrow> bool) \<Rightarrow> 's \<Rightarrow> bool"
  for init step where
  start: "init s \<Longrightarrow> reachable init step s"
| step: "reachable init step s \<Longrightarrow> step s e s' \<Longrightarrow> reachable init step s'"

lemma reachable_trans:
  "reachable (\<lambda>s. s = t) step s \<Longrightarrow> reachable init step t \<Longrightarrow> reachable init step s"
  by (induction rule: reachable.induct) (auto intro: reachable.step)

locale machine_invariant =
  fixes init :: "'s \<Rightarrow> bool" and step :: "'s \<Rightarrow> 'e \<Rightarrow> 's \<Rightarrow> bool" and inv :: "'s \<Rightarrow> bool"
  assumes inv_init: "init s \<Longrightarrow> inv s"
    and inv_step: "inv s \<Longrightarrow> step s e s' \<Longrightarrow> inv s'"
begin

lemma reachable_inv: "reachable init step s \<Longrightarrow> inv s"
  by (induction rule: reachable.induct) (auto intro: inv_init inv_step)

end

text \<open>A refinement by a function: every step of the concrete machine is a step of the abstract
  one on the images of its states, or leaves the image alone.\<close>

locale refinement = machine_invariant init step inv
  for init :: "'s \<Rightarrow> bool" and step :: "'s \<Rightarrow> 'e \<Rightarrow> 's \<Rightarrow> bool" and inv :: "'s \<Rightarrow> bool" +
  fixes ainit :: "'a \<Rightarrow> bool" and astep :: "'a \<Rightarrow> 'f \<Rightarrow> 'a \<Rightarrow> bool" and view :: "'s \<Rightarrow> 'a"
  assumes view_init: "init s \<Longrightarrow> ainit (view s)"
    and view_step: "inv s \<Longrightarrow> step s e s' \<Longrightarrow> view s' = view s \<or> (\<exists>f. astep (view s) f (view s'))"
begin

lemma view_reachable: "reachable init step s \<Longrightarrow> reachable ainit astep (view s)"
proof (induction rule: reachable.induct)
  case (start s)
  then show ?case by (auto intro: reachable.start view_init)
next
  case (step s e s')
  with view_step [OF reachable_inv] show ?case by (metis reachable.step)
qed

end

end
