(* ===== verification/Numbers.thy ===== *)
theory Numbers
  imports Prelude
begin

text \<open>
  Numbers as bytes: decimal text as \<open>str\<close> and \<open>int\<close> write and read it (with
  CPython's limit on the length of such text), fixed-width big-endian integers as
  \<open>int.from_bytes\<close>, \<open>int.to_bytes\<close> and \<open>struct\<close> use them, and hexadecimal text.
\<close>

section \<open>Decimal text\<close>

definition is_digit :: "byte \<Rightarrow> bool" where
  "is_digit b \<longleftrightarrow> 48 \<le> b \<and> b \<le> 57"

text \<open>\<open>bytes.isdigit()\<close> is false for the empty string.\<close>

definition isdigit :: "bytes \<Rightarrow> bool" where
  "isdigit bs \<longleftrightarrow> bs \<noteq> [] \<and> list_all is_digit bs"

definition dec_value :: "bytes \<Rightarrow> nat" where
  "dec_value bs = foldl (\<lambda>n b. 10 * n + (unat b - 48)) 0 bs"

fun dec_digits :: "nat \<Rightarrow> bytes" where
  "dec_digits n =
     (if n < 10 then [of_nat (48 + n)]
      else dec_digits (n div 10) @ [of_nat (48 + n mod 10)])"

declare dec_digits.simps [simp del]

text \<open>\<open>str(i).encode("ascii")\<close>.\<close>

definition int_text :: "int \<Rightarrow> bytes" where
  "int_text i = (if i < 0 then 45 # dec_digits (nat (- i)) else dec_digits (nat i))"

text \<open>CPython refuses to convert between \<open>int\<close> and decimal text of more than
  \<open>sys.get_int_max_str_digits()\<close> digits, 4300 by default (signs do not count).\<close>

definition int_max_str_digits :: nat where
  "int_max_str_digits = 4300"

lemma digit_byte:
  assumes "d < 10"
  shows "unat (of_nat (48 + d) :: byte) = 48 + d" and "is_digit (of_nat (48 + d))"
proof -
  show u: "unat (of_nat (48 + d) :: byte) = 48 + d"
    using assms unfolding unsigned_of_nat by (simp add: take_bit_nat_eq_self)
  show "is_digit (of_nat (48 + d))"
    unfolding is_digit_def word_le_nat_alt u using assms by simp
qed

lemma is_digit_unat: "is_digit b \<longleftrightarrow> 48 \<le> unat b \<and> unat b \<le> 57"
  by (simp add: is_digit_def word_le_nat_alt)

lemma is_digit_of_unat: "is_digit b \<Longrightarrow> of_nat (48 + (unat b - 48)) = b"
  by (auto simp: is_digit_unat)

lemma dec_value_snoc [simp]: "dec_value (bs @ [b]) = 10 * dec_value bs + (unat b - 48)"
  by (simp add: dec_value_def)

lemma dec_value_Nil [simp]: "dec_value [] = 0"
  by (simp add: dec_value_def)

lemma dec_digits_nonempty [simp]: "dec_digits n \<noteq> []"
  by (subst dec_digits.simps) simp

lemma dec_digits_digits: "list_all is_digit (dec_digits n)"
proof (induction n rule: dec_digits.induct)
  case (1 n)
  then show ?case
    using digit_byte(2) [of n] digit_byte(2) [of "n mod 10"]
    by (subst dec_digits.simps) (simp add: list_all_iff)
qed

lemma isdigit_dec_digits [simp]: "isdigit (dec_digits n)"
  by (simp add: isdigit_def dec_digits_digits)

lemma dec_value_dec_digits [simp]: "dec_value (dec_digits n) = n"
proof (induction n rule: dec_digits.induct)
  case (1 n)
  show ?case
  proof (cases "n < 10")
    case True
    then have "unat (of_nat (48 + n) :: byte) = 48 + n" by (rule digit_byte)
    with True show ?thesis
      by (subst dec_digits.simps) (simp add: dec_value_def del: of_nat_add)
  next
    case False
    have "unat (of_nat (48 + n mod 10) :: byte) = 48 + n mod 10" by (rule digit_byte) simp
    with False 1 show ?thesis
      by (subst dec_digits.simps) (simp del: of_nat_add)
  qed
qed

lemma dec_digits_inject [simp]: "dec_digits m = dec_digits n \<longleftrightarrow> m = n"
  using dec_value_dec_digits by metis

lemma dec_value_pos:
  assumes "list_all is_digit bs" and "bs \<noteq> []" and "hd bs \<noteq> 48"
  shows "0 < dec_value bs"
  using assms
proof (induction bs rule: rev_induct)
  case (snoc b bs)
  show ?case
  proof (cases "bs = []")
    case True
    with snoc.prems have "unat b \<noteq> 48" "48 \<le> unat b"
      by (auto simp: is_digit_unat unsigned_word_eqI word_unat_eq_iff)
    with True show ?thesis by (simp add: dec_value_def)
  next
    case False
    with snoc show ?thesis by simp
  qed
qed simp

text \<open>Text without a redundant leading zero is what \<open>str\<close> prints for its value.\<close>

lemma dec_digits_dec_value:
  assumes "isdigit bs" and "length bs > 1 \<Longrightarrow> hd bs \<noteq> 48"
  shows "dec_digits (dec_value bs) = bs"
  using assms
proof (induction bs rule: rev_induct)
  case Nil
  then show ?case by (simp add: isdigit_def)
next
  case (snoc b bs)
  have b: "is_digit b" using snoc.prems(1) by (simp add: isdigit_def)
  then have d: "unat b - 48 < 10" by (auto simp: is_digit_unat)
  show ?case
  proof (cases "bs = []")
    case True
    with d is_digit_of_unat [OF b] show ?thesis
      by (subst dec_digits.simps) (simp add: dec_value_def del: of_nat_add)
  next
    case False
    with snoc.prems have digs: "isdigit bs" and h: "hd bs \<noteq> 48"
      by (auto simp: isdigit_def)
    then have "0 < dec_value bs" by (intro dec_value_pos) (auto simp: isdigit_def)
    moreover have "dec_digits (dec_value bs) = bs" using snoc.IH digs h by simp
    ultimately show ?thesis
      using d is_digit_of_unat [OF b]
      by (subst dec_digits.simps) (simp del: of_nat_add)
  qed
qed

lemma dec_digits_hd:
  assumes "length (dec_digits n) > 1"
  shows "hd (dec_digits n) \<noteq> 48"
  using assms
proof (induction n rule: dec_digits.induct)
  case (1 n)
  show ?case
  proof (cases "n < 10")
    case True
    with 1 show ?thesis by (simp add: dec_digits.simps [of n])
  next
    case False
    then have e: "dec_digits n = dec_digits (n div 10) @ [of_nat (48 + n mod 10)]"
      by (simp add: dec_digits.simps [of n])
    show ?thesis
    proof (cases "length (dec_digits (n div 10)) > 1")
      case True
      with 1 False e show ?thesis by simp
    next
      case False': False
      then have "n div 10 < 10"
        by (rule contrapos_np) (subst dec_digits.simps, simp add: Suc_lessI)
      moreover have "0 < n div 10" using False by simp
      ultimately have "hd (dec_digits (n div 10)) = of_nat (48 + n div 10)"
        and "unat (of_nat (48 + n div 10) :: byte) = 48 + n div 10"
        by (simp_all add: dec_digits.simps [of "n div 10"] digit_byte(1) del: of_nat_add)
      with e \<open>0 < n div 10\<close> show ?thesis by (auto simp del: of_nat_add)
    qed
  qed
qed

lemma digit_not_member:
  "\<not> is_digit b \<Longrightarrow> list_all is_digit bs \<Longrightarrow> b \<notin> set bs"
  by (auto simp: list_all_iff)

lemma not_is_digit [simp]: "\<not> is_digit 58" "\<not> is_digit 101" "\<not> is_digit 45" "\<not> is_digit 46"
  "\<not> is_digit 100" "\<not> is_digit 105" "\<not> is_digit 108"
  by (simp_all add: is_digit_def)

lemma int_text_inject [simp]: "int_text i = int_text j \<longleftrightarrow> i = j"
proof -
  have "dec_digits n \<noteq> 45 # xs" for n xs
    using dec_digits_digits [of n] by auto
  then show ?thesis by (auto simp: int_text_def) (metis)+
qed

section \<open>Big-endian integers\<close>

text \<open>\<open>int.from_bytes(bs, "big")\<close>.\<close>

definition from_bytes :: "bytes \<Rightarrow> nat" where
  "from_bytes bs = foldl (\<lambda>n b. 256 * n + unat b) 0 bs"

text \<open>\<open>n.to_bytes(k, "big")\<close>, and \<open>struct.pack\<close> of an unsigned \<open>k\<close>-byte integer, for
  an \<open>n\<close> that fits in \<open>k\<close> bytes.\<close>

fun to_bytes :: "nat \<Rightarrow> nat \<Rightarrow> bytes" where
  "to_bytes 0 n = []"
| "to_bytes (Suc k) n = to_bytes k (n div 256) @ [of_nat (n mod 256)]"

lemma to_bytes_numeral [simp]:
  "to_bytes (numeral k) n = to_bytes (pred_numeral k) (n div 256) @ [of_nat (n mod 256)]"
  by (subst numeral_eq_Suc [of k]) (rule to_bytes.simps)

text \<open>Equations for closed numerals, with which the simplifier evaluates.\<close>

lemmas dec_digits_eval =
  dec_digits.simps [of "numeral k" for k] dec_digits.simps [of 0] dec_digits.simps [of "Suc n" for n]

lemmas byte_eval = dec_digits_eval dec_value_def from_bytes_def isdigit_def is_digit_def ascii_def

lemma from_bytes_Nil [simp]: "from_bytes [] = 0"
  by (simp add: from_bytes_def)

lemma from_bytes_snoc [simp]: "from_bytes (bs @ [b]) = 256 * from_bytes bs + unat b"
  by (simp add: from_bytes_def)

lemma length_to_bytes [simp]: "length (to_bytes k n) = k"
  by (induction k arbitrary: n) simp_all

lemma unat_of_nat_byte: "n < 256 \<Longrightarrow> unat (of_nat n :: byte) = n"
  by (simp add: unsigned_of_nat take_bit_nat_eq_self)

lemma from_bytes_to_bytes: "n < 256 ^ k \<Longrightarrow> from_bytes (to_bytes k n) = n"
proof (induction k arbitrary: n)
  case (Suc k)
  then have "n div 256 < 256 ^ k" by (simp add: less_mult_imp_div_less)
  with Suc.IH show ?case by (simp add: unat_of_nat_byte)
qed simp

lemma from_bytes_less: "from_bytes bs < 256 ^ length bs"
proof (induction bs rule: rev_induct)
  case (snoc b bs)
  have "256 * from_bytes bs + unat b < 256 * Suc (from_bytes bs)" by simp
  also from snoc have "256 * Suc (from_bytes bs) \<le> 256 * 256 ^ length bs"
    by (intro mult_le_mono2) simp
  finally show ?case by simp
qed simp

lemma to_bytes_from_bytes: "to_bytes (length bs) (from_bytes bs) = bs"
proof (induction bs rule: rev_induct)
  case (snoc b bs)
  have "unat b < 256" by simp
  with snoc show ?case by simp
qed simp

lemma from_bytes_inject:
  "length a = length b \<Longrightarrow> from_bytes a = from_bytes b \<longleftrightarrow> a = b"
  using to_bytes_from_bytes by metis


lemma length_dec_digits_le: "n < 10 ^ k \<Longrightarrow> 0 < k \<Longrightarrow> length (dec_digits n) \<le> k"
proof (induction k arbitrary: n)
  case (Suc k)
  show ?case
  proof (cases "n < 10")
    case True
    then show ?thesis by (simp add: dec_digits.simps [of n])
  next
    case False
    then have "0 < k" using Suc.prems(1) by (cases k) auto
    moreover have "n div 10 < 10 ^ k" using Suc.prems(1) by (simp add: less_mult_imp_div_less mult.commute)
    ultimately have "length (dec_digits (n div 10)) \<le> k" using Suc.IH by blast
    then show ?thesis using False by (simp add: dec_digits.simps [of n])
  qed
qed simp

end
