(* ===== verification/Bencode_Correct.thy ===== *)
theory Bencode_Correct
  imports Bencode "HOL-Library.Multiset"
begin

text \<open>
  The wire format as a specification (\<open>wire\<close>: the values that have an encoding,
  \<open>wire_enc\<close>: that encoding, \<open>fits\<close> and \<open>item_count\<close>: the limits) and the proof that the
  decoder of \<open>Bencode\<close> implements it: it returns a value exactly on the encodings of
  wire values within the limits, and it always returns.
\<close>

section \<open>The specification\<close>

fun key_bytes :: "pkey \<Rightarrow> bytes" where
  "key_bytes (KBytes b) = b"
| "key_bytes _ = []"

definition is_bytes_key :: "pkey \<Rightarrow> bool" where
  "is_bytes_key k \<longleftrightarrow> k = KBytes (key_bytes k)"

text \<open>Keys are pairwise different, and in strict mode strictly increasing.\<close>

definition keys_ok :: "bool \<Rightarrow> pdict \<Rightarrow> bool" where
  "keys_ok srt d \<longleftrightarrow>
     list_all (\<lambda>(k, _). is_bytes_key k) d \<and> distinct (map (key_bytes \<circ> fst) d)
     \<and> (srt \<longrightarrow> sorted (map (key_bytes \<circ> fst) d))"

fun wire :: "bool \<Rightarrow> pyval \<Rightarrow> bool" where
  "wire srt (PInt i) = True"
| "wire srt (PBytes b) = True"
| "wire srt (PList vs) = list_all (wire srt) vs"
| "wire srt (PDict d) = (keys_ok srt d \<and> list_all (\<lambda>(k, v). wire srt v) d)"
| "wire srt _ = False"

fun wire_enc :: "pyval \<Rightarrow> bytes" where
  "wire_enc (PInt i) = enc_int i"
| "wire_enc (PBytes b) = enc_bytes b"
| "wire_enc (PList vs) = 108 # concat (map wire_enc vs) @ [101]"
| "wire_enc (PDict d) =
     100 # concat (map (\<lambda>(k, v). enc_bytes (key_bytes k) @ wire_enc v) d) @ [101]"
| "wire_enc _ = []"

definition string_fits :: "decode_limits \<Rightarrow> bytes \<Rightarrow> bool" where
  "string_fits lim b \<longleftrightarrow>
     length b \<le> max_string_length lim \<and> length (dec_digits (length b)) \<le> int_max_str_digits"

fun fits :: "decode_limits \<Rightarrow> nat \<Rightarrow> pyval \<Rightarrow> bool" where
  "fits lim depth (PInt i) =
     (depth \<le> max_depth lim \<and> length (dec_digits (nat \<bar>i\<bar>)) \<le> int_max_str_digits)"
| "fits lim depth (PBytes b) = (depth \<le> max_depth lim \<and> string_fits lim b)"
| "fits lim depth (PList vs) =
     (depth \<le> max_depth lim \<and> list_all (fits lim (depth + 1)) vs)"
| "fits lim depth (PDict d) =
     (depth \<le> max_depth lim
      \<and> list_all (\<lambda>(k, v). string_fits lim (key_bytes k) \<and> fits lim (depth + 1) v) d)"
| "fits lim depth _ = False"

text \<open>Every value and every dictionary key is one item.\<close>

fun item_count :: "pyval \<Rightarrow> nat" where
  "item_count (PList vs) = 1 + sum_list (map item_count vs)"
| "item_count (PDict d) = 1 + sum_list (map (\<lambda>(k, v). 1 + item_count v) d)"
| "item_count _ = 1"

definition pair_enc :: "pkey \<times> pyval \<Rightarrow> bytes" where
  "pair_enc = (\<lambda>(k, v). enc_bytes (key_bytes k) @ wire_enc v)"

definition list_enc :: "pyval list \<Rightarrow> bytes" where
  "list_enc vs = concat (map wire_enc vs)"

definition dict_enc :: "pdict \<Rightarrow> bytes" where
  "dict_enc d = concat (map pair_enc d)"

lemma wire_enc_containers [simp]:
  "wire_enc (PList vs) = 108 # list_enc vs @ [101]"
  "wire_enc (PDict d) = 100 # dict_enc d @ [101]"
  by (simp_all add: list_enc_def dict_enc_def pair_enc_def)

lemma list_enc_simps [simp]:
  "list_enc [] = []" "list_enc (v # vs) = wire_enc v @ list_enc vs"
  "list_enc (us @ vs) = list_enc us @ list_enc vs"
  by (simp_all add: list_enc_def)

lemma dict_enc_simps [simp]:
  "dict_enc [] = []"
  "dict_enc ((k, v) # d) = enc_bytes (key_bytes k) @ wire_enc v @ dict_enc d"
  "dict_enc (d @ d') = dict_enc d @ dict_enc d'"
  by (simp_all add: dict_enc_def pair_enc_def)

declare wire_enc.simps(3,4) [simp del]

section \<open>Text and strings\<close>

lemma nat_abs_digits:
  "int_text i = (if i < 0 then 45 # dec_digits (nat \<bar>i\<bar>) else dec_digits (nat \<bar>i\<bar>))"
  by (simp add: int_text_def)

lemma ascii_simps [simp]:
  "ascii ''-'' = [45]" "ascii ''0'' = [48]" "ascii ''-0'' = [45, 48]"
  by (simp_all add: ascii_def)

lemma dec_digits_zero: "dec_digits 0 = [48]"
  by (simp add: dec_digits.simps)

lemma dec_digits_Cons_cases:
  "\<exists>b bs. dec_digits n = b # bs \<and> is_digit b \<and> b \<noteq> 45 \<and> b \<noteq> 101 \<and> b \<noteq> 105 \<and> b \<noteq> 108 \<and> b \<noteq> 100"
proof -
  obtain b bs where e: "dec_digits n = b # bs" by (cases "dec_digits n") auto
  with dec_digits_digits [of n] have b: "is_digit b" by simp
  then have "b \<noteq> 45 \<and> b \<noteq> 101 \<and> b \<noteq> 105 \<and> b \<noteq> 108 \<and> b \<noteq> 100"
    by (auto dest: not_is_digit [THEN notE, rotated])
  with e b show ?thesis by blast
qed

lemma startswith_Cons [simp]:
  "startswith (x # xs) [y] \<longleftrightarrow> x = y"
  "startswith (x # xs) (y # z # zs) \<longleftrightarrow> x = y \<and> startswith xs (z # zs)"
  "startswith [] (y # ys) \<longleftrightarrow> False"
  by (auto simp: startswith_def)

lemma dec_digits_48: "hd (dec_digits n) = 48 \<longleftrightarrow> n = 0"
proof
  assume h: "hd (dec_digits n) = 48"
  then have "\<not> 1 < length (dec_digits n)" using dec_digits_hd by blast
  then have "length (dec_digits n) = 1" by (cases "dec_digits n") auto
  with h have "dec_digits n = dec_digits 0"
    by (cases "dec_digits n") (auto simp: dec_digits_zero)
  then show "n = 0" by simp
qed (simp add: dec_digits_zero)

lemma int_of_text_dec:
  assumes "length (dec_digits (nat \<bar>i\<bar>)) \<le> int_max_str_digits"
  shows "int_of_text (int_text i) = Inr i"
proof -
  obtain b bs where "dec_digits (nat \<bar>i\<bar>) = b # bs" "b \<noteq> 45"
    using dec_digits_Cons_cases by blast
  moreover have "dec_value (b # bs) = nat \<bar>i\<bar>"
    using calculation(1) dec_value_dec_digits by metis
  ultimately show ?thesis
    using assms by (cases "i < 0") (auto simp: int_of_text_def nat_abs_digits)
qed

lemma parse_int_enc:
  assumes "length (dec_digits (nat \<bar>i\<bar>)) \<le> int_max_str_digits"
  shows "parse_int (pre @ enc_int i @ post) (length pre) = Inr (PInt i, length pre + length (enc_int i))"
proof -
  let ?t = "int_text i"
  have e: "pre @ enc_int i @ post = (pre @ [105]) @ ?t @ 101 # post"
    by (simp add: enc_int_def)
  obtain b bs where d: "dec_digits (nat \<bar>i\<bar>) = b # bs" "is_digit b" "b \<noteq> 45"
    using dec_digits_Cons_cases by blast
  have "101 \<notin> set ?t"
    using digit_not_member [OF not_is_digit(2) dec_digits_digits, of "nat \<bar>i\<bar>"]
    by (auto simp: nat_abs_digits)
  then have f: "find_byte 101 (pre @ enc_int i @ post) (length pre + 1) = Some (length pre + 1 + length ?t)"
    unfolding e by (subst find_byte_append) auto
  have s: "slice (pre @ enc_int i @ post) (length pre + 1) (length pre + 1 + length ?t) = ?t"
    unfolding e by (rule slice_append_mid) auto
  have z: "b = 48 \<longleftrightarrow> nat \<bar>i\<bar> = 0" using dec_digits_48 [of "nat \<bar>i\<bar>"] d(1) by simp
  have "bs = []" if "b = 48" using that z d(1) dec_digits_zero by auto
  then have canon: "\<not> (?t = ascii ''-0'' \<or> (startswith ?t (ascii ''0'') \<and> 1 < length ?t)
      \<or> (startswith ?t (ascii ''-0'') \<and> 2 < length ?t))"
    using d z by (cases "i < 0") (auto simp: nat_abs_digits)
  have dig: "isdigit (if take 1 ?t = ascii ''-'' then drop 1 ?t else ?t)"
    using d isdigit_dec_digits [of "nat \<bar>i\<bar>"] by (auto simp: nat_abs_digits)
  have ne: "?t \<noteq> []" "\<not> (take 1 ?t = ascii ''-'' \<and> drop 1 ?t = [])"
    using d by (auto simp: nat_abs_digits)
  show ?thesis
    unfolding parse_int_def f option.case Let_def s int_of_text_dec [OF assms]
    using canon dig ne by (simp add: enc_int_def)
qed

lemma parse_bytes_enc:
  assumes "string_fits lim b"
  shows "parse_bytes lim (pre @ enc_bytes b @ post) (length pre) = Inr (b, length pre + length (enc_bytes b))"
proof -
  let ?t = "dec_digits (length b)"
  have e: "pre @ enc_bytes b @ post = pre @ ?t @ 58 # (b @ post)"
    by (simp add: enc_bytes_def)
  have "58 \<notin> set ?t" using dec_digits_digits by (rule digit_not_member [rotated]) simp
  then have f: "find_byte 58 (pre @ enc_bytes b @ post) (length pre) = Some (length pre + length ?t)"
    unfolding e by (subst find_byte_append) auto
  have s: "slice (pre @ enc_bytes b @ post) (length pre) (length pre + length ?t) = ?t"
    unfolding e by (rule slice_append_mid) auto
  have s2: "slice (pre @ enc_bytes b @ post) (length pre + length ?t + 1)
      (length pre + length ?t + 1 + length b) = b"
    using slice_append_mid [of "pre @ ?t @ [58]" "length pre + length ?t + 1" _ b post]
    by (simp add: e)
  have z: "\<not> (1 < length ?t \<and> startswith ?t (ascii ''0''))"
    using dec_digits_hd [of "length b"] by (cases ?t) auto
  show ?thesis
    unfolding parse_bytes_def f option.case Let_def s dec_value_dec_digits s2
    using z assms by (simp add: string_fits_def enc_bytes_def)
qed


lemma canonical_int:
  assumes "raw \<noteq> []"
    and "\<not> (raw = ascii ''-0'' \<or> (startswith raw (ascii ''0'') \<and> 1 < length raw)
      \<or> (startswith raw (ascii ''-0'') \<and> 2 < length raw))"
    and "isdigit (if take 1 raw = ascii ''-'' then drop 1 raw else raw)"
    and "int_of_text raw = Inr i"
  shows "int_text i = raw \<and> length (dec_digits (nat \<bar>i\<bar>)) \<le> int_max_str_digits"
proof (cases "take 1 raw = ascii ''-''")
  case True
  then obtain ds where raw: "raw = 45 # ds" by (cases raw) auto
  with assms(3) have ds: "isdigit ds" by simp
  then obtain d ds' where dd: "ds = d # ds'" by (cases ds) (auto simp: isdigit_def)
  from assms(2) raw dd have hd: "hd ds \<noteq> 48" by (cases ds') auto
  with ds have pos: "0 < dec_value ds" by (intro dec_value_pos) (auto simp: isdigit_def)
  have tx: "dec_digits (dec_value ds) = ds"
    using ds hd by (intro dec_digits_dec_value) auto
  from assms(4) raw have "i = - int (dec_value ds)" "length ds \<le> int_max_str_digits"
    by (auto simp: int_of_text_def Let_def split: if_splits)
  with pos tx raw show ?thesis by (simp add: int_text_def)
next
  case False
  with assms(3) have ds: "isdigit raw" by simp
  then have hd: "1 < length raw \<Longrightarrow> hd raw \<noteq> 48"
    using assms(2) by (cases raw) auto
  have tx: "dec_digits (dec_value raw) = raw"
    using ds hd by (rule dec_digits_dec_value)
  from assms(4) False have "i = int (dec_value raw)" "length raw \<le> int_max_str_digits"
    by (auto simp: int_of_text_def Let_def split: if_splits)
  with tx show ?thesis by (simp add: int_text_def)
qed

lemma parse_int_sound:
  assumes "parse_int data pos = Inr (v, p)" and "pos < length data" and "data ! pos = 105"
  obtains i where "v = PInt i" and "length (dec_digits (nat \<bar>i\<bar>)) \<le> int_max_str_digits"
    and "pos < p" and "p \<le> length data" and "slice data pos p = enc_int i"
proof -
  from assms(1) obtain e where f: "find_byte 101 data (pos + 1) = Some e"
    by (auto simp: parse_int_def split: option.splits)
  note fe = find_byte_Some [OF f]
  let ?raw = "slice data (pos + 1) e"
  from assms(1) f obtain i where i: "int_of_text ?raw = Inr i" and v: "v = PInt i" "p = e + 1"
    and canon: "?raw \<noteq> []" "\<not> (?raw = ascii ''-0'' \<or> (startswith ?raw (ascii ''0'') \<and> 1 < length ?raw)
      \<or> (startswith ?raw (ascii ''-0'') \<and> 2 < length ?raw))"
      "isdigit (if take 1 ?raw = ascii ''-'' then drop 1 ?raw else ?raw)"
    by (auto simp: parse_int_def Let_def bind_r_Inr_iff split: if_splits)
  have t: "int_text i = ?raw \<and> length (dec_digits (nat \<bar>i\<bar>)) \<le> int_max_str_digits"
    by (rule canonical_int [OF canon i])
  have "slice data pos p = data ! pos # slice data (pos + 1) p"
    using fe v assms(2) by (subst slice_Cons) auto
  also have "slice data (pos + 1) p = ?raw @ slice data e p"
    using fe v by (intro slice_split) auto
  also have "slice data e p = [101]" using fe v slice_single [of e data] by auto
  finally have "slice data pos p = enc_int i"
    using t assms(3) by (simp add: enc_int_def)
  with t v fe show thesis by (intro that [of i]) auto
qed

lemma parse_bytes_sound:
  assumes "parse_bytes lim data pos = Inr (b, p)"
  shows "string_fits lim b" and "pos < p" and "p \<le> length data"
    and "slice data pos p = enc_bytes b"
proof -
  from assms obtain c where f: "find_byte 58 data pos = Some c"
    by (auto simp: parse_bytes_def split: option.splits)
  note fc = find_byte_Some [OF f]
  let ?t = "slice data pos c" and ?n = "dec_value (slice data pos c)"
  from assms f have t: "isdigit ?t" "\<not> (1 < length ?t \<and> startswith ?t (ascii ''0''))"
      "length ?t \<le> int_max_str_digits"
    and n: "?n \<le> max_string_length lim" "c + 1 + ?n \<le> length data"
    and b: "b = slice data (c + 1) (c + 1 + ?n)" "p = c + 1 + ?n"
    by (auto simp: parse_bytes_def Let_def split: if_splits)
  have lb: "length b = ?n" using b n by simp
  have tx: "dec_digits ?n = ?t"
    using t by (intro dec_digits_dec_value) (cases ?t; auto)+
  show "string_fits lim b" using lb tx t n by (simp add: string_fits_def)
  show "pos < p" "p \<le> length data" using fc b n by auto
  have "slice data pos p = ?t @ slice data c p" using fc b by (intro slice_split) auto
  also have "slice data c p = data ! c # slice data (c + 1) p"
    using fc b by (subst slice_Cons) auto
  finally show "slice data pos p = enc_bytes b"
    using fc b lb tx by (simp add: enc_bytes_def)
qed


section \<open>Encodings are decoded\<close>

lemma wire_enc_Cons:
  "wire srt v \<Longrightarrow> \<exists>b bs. wire_enc v = b # bs \<and> b \<noteq> 101"
proof (cases v)
  case (PBytes b)
  then show ?thesis
    using dec_digits_Cons_cases [of "length b"] by (auto simp: enc_bytes_def)
qed (auto simp: enc_int_def)

lemma list_loop_complete:
  assumes step: "\<And>v pre post items. v \<in> set vs \<Longrightarrow> data = pre @ wire_enc v @ post \<Longrightarrow>
      items + item_count v \<le> m \<Longrightarrow>
      p (length pre) items = Inr (v, length pre + length (wire_enc v), items + item_count v)"
    and wf: "list_all (wire srt) vs"
    and data: "data = pre @ list_enc vs @ 101 # post"
    and n: "length vs < n" and m: "items + sum_list (map item_count vs) \<le> m"
  shows "list_loop n p data out (length pre) items =
    Inr (PList (out @ vs), length pre + length (list_enc vs) + 1,
      items + sum_list (map item_count vs))"
  using assms
proof (induction vs arbitrary: pre out n items)
  case Nil
  then show ?case by (cases n) (auto simp: nth_append)
next
  case (Cons v vs)
  obtain n' where n': "n = Suc n'" using Cons.prems(4) by (cases n) auto
  obtain b bs where b: "wire_enc v = b # bs" "b \<noteq> 101"
    using Cons.prems(2) wire_enc_Cons [of srt v] by auto
  have at: "length pre < length data" "data ! length pre = b"
    using b Cons.prems(3) by (auto simp: nth_append)
  have p: "p (length pre) items = Inr (v, length pre + length (wire_enc v), items + item_count v)"
    using Cons.prems(3,5) by (intro Cons.prems(1) [of _ _ "list_enc vs @ 101 # post"]) auto
  have "list_loop n' p data (out @ [v]) (length (pre @ wire_enc v)) (items + item_count v) =
      Inr (PList ((out @ [v]) @ vs), length (pre @ wire_enc v) + length (list_enc vs) + 1,
        items + item_count v + sum_list (map item_count vs))"
  proof (rule Cons.IH)
    show "p (length pre') items' = Inr (w, length pre' + length (wire_enc w), items' + item_count w)"
      if "w \<in> set vs" "data = pre' @ wire_enc w @ post'" "items' + item_count w \<le> m"
      for w pre' post' items'
      using that Cons.prems(1) by auto
  qed (use Cons.prems n' in auto)
  with n' at b(2) p show ?case by (simp add: add.assoc)
qed

lemma dict_loop_complete:
  assumes step: "\<And>k v pre post items. (k, v) \<in> set d \<Longrightarrow> data = pre @ wire_enc v @ post \<Longrightarrow>
      items + item_count v \<le> max_items lim \<Longrightarrow>
      p (length pre) items = Inr (v, length pre + length (wire_enc v), items + item_count v)"
    and keys: "keys_ok srt (out @ d)"
    and strs: "list_all (\<lambda>(k, _). string_fits lim (key_bytes k)) d"
    and prev: "prev = (if out = [] then None else Some (key_bytes (fst (last out))))"
    and data: "data = pre @ dict_enc d @ 101 # post"
    and n: "length d < n"
    and m: "items + sum_list (map (\<lambda>(k, v). 1 + item_count v) d) \<le> max_items lim"
  shows "dict_loop srt lim n p data out prev (length pre) items =
    Inr (PDict (out @ d), length pre + length (dict_enc d) + 1,
      items + sum_list (map (\<lambda>(k, v). 1 + item_count v) d))"
  using assms
proof (induction d arbitrary: pre out prev n items)
  case Nil
  then show ?case by (cases n) (auto simp: nth_append)
next
  case (Cons kv d)
  obtain k v where kv: "kv = (k, v)" by (cases kv)
  obtain n' where n': "n = Suc n'" using Cons.prems(6) by (cases n) auto
  let ?b = "key_bytes k"
  have k: "k = KBytes ?b" using Cons.prems(2) kv by (auto simp: keys_ok_def is_bytes_key_def)
  obtain c cs where c: "enc_bytes ?b = c # cs" "c \<noteq> 101"
    using wire_enc_Cons [of srt "PBytes ?b"] by auto
  have at: "length pre < length data" "data ! length pre = c"
    using c Cons.prems(5) kv by (auto simp: nth_append)
  have cnt: "count_item lim items = Inr (items + 1)"
    using Cons.prems(7) kv by (simp add: count_item_def)
  have pb: "parse_bytes lim data (length pre) = Inr (?b, length pre + length (enc_bytes ?b))"
    using parse_bytes_enc [of lim ?b pre "wire_enc v @ dict_enc d @ 101 # post"] Cons.prems(3,5) kv
    by simp
  have nodup: "KBytes ?b \<notin> set (map fst out)"
  proof
    assume "KBytes ?b \<in> set (map fst out)"
    then have "?b \<in> set (map (key_bytes \<circ> fst) out)" by force
    then show False using Cons.prems(2) kv by (auto simp: keys_ok_def)
  qed
  have ord: "\<not> (srt \<and> prev \<noteq> None \<and> ?b < the prev)"
  proof
    assume a: "srt \<and> prev \<noteq> None \<and> ?b < the prev"
    then have out: "out \<noteq> []" and lt: "?b < key_bytes (fst (last out))"
      using Cons.prems(4) by (auto split: if_splits)
    have "sorted (map (key_bytes \<circ> fst) out @ [?b])"
      using Cons.prems(2) kv a by (simp add: keys_ok_def sorted_append)
    then have "\<forall>x\<in>set (map (key_bytes \<circ> fst) out). x \<le> ?b"
      by (simp add: sorted_append)
    moreover have "key_bytes (fst (last out)) \<in> set (map (key_bytes \<circ> fst) out)"
      using out by force
    ultimately show False using lt by (meson leD)
  qed
  have pv: "p (length (pre @ enc_bytes ?b)) (items + 1) =
      Inr (v, length (pre @ enc_bytes ?b) + length (wire_enc v), items + 1 + item_count v)"
    using Cons.prems(5,7) kv
    by (intro Cons.prems(1) [of k _ _ "dict_enc d @ 101 # post"]) auto
  have "dict_loop srt lim n' p data (out @ [(k, v)]) (Some ?b)
      (length (pre @ enc_bytes ?b @ wire_enc v)) (items + 1 + item_count v) =
      Inr (PDict ((out @ [(k, v)]) @ d),
        length (pre @ enc_bytes ?b @ wire_enc v) + length (dict_enc d) + 1,
        items + 1 + item_count v + sum_list (map (\<lambda>(k, v). 1 + item_count v) d))"
  proof (rule Cons.IH)
    show "p (length pre') items' = Inr (w, length pre' + length (wire_enc w), items' + item_count w)"
      if "(l, w) \<in> set d" "data = pre' @ wire_enc w @ post'" "items' + item_count w \<le> max_items lim"
      for l w pre' post' items'
      using that by (intro Cons.prems(1) [of l]) auto
  qed (use Cons.prems n' kv in auto)
  with n' at c(2) cnt pb nodup ord pv kv k [symmetric] show ?case
    by (simp add: add.assoc add.left_commute)
qed


lemma length_list_enc: "v \<in> set vs \<Longrightarrow> length (wire_enc v) \<le> length (list_enc vs)"
  by (induction vs) auto

lemma length_dict_enc: "(k, v) \<in> set d \<Longrightarrow> length (wire_enc v) < length (dict_enc d)"
  by (induction d) (auto simp: enc_bytes_def)

lemma length_le_list_enc: "list_all (wire srt) vs \<Longrightarrow> length vs \<le> length (list_enc vs)"
proof (induction vs)
  case (Cons v vs)
  then obtain b bs where "wire_enc v = b # bs" using wire_enc_Cons [of srt v] by auto
  with Cons show ?case by simp
qed simp

lemma length_le_dict_enc: "length d \<le> length (dict_enc d)"
  by (induction d) (auto simp: enc_bytes_def)

lemma parse_complete:
  assumes "wire srt v" and "fits lim depth v" and "length (wire_enc v) \<le> fuel"
    and "items + item_count v \<le> max_items lim"
  shows "parse srt lim (pre @ wire_enc v @ post) fuel (length pre) depth items =
    Inr (v, length pre + length (wire_enc v), items + item_count v)"
  using assms
proof (induction fuel arbitrary: v depth pre post items)
  case 0
  then show ?case using wire_enc_Cons [of srt v] by auto
next
  case (Suc fuel)
  let ?data = "pre @ wire_enc v @ post"
  have cnt: "count_item lim items = Inr (items + 1)"
    using Suc.prems(4) by (cases v) (auto simp: count_item_def)
  have depth: "\<not> max_depth lim < depth" using Suc.prems(2) by (cases v) auto
  obtain b bs where b: "wire_enc v = b # bs" using wire_enc_Cons [OF Suc.prems(1)] by blast
  then have at: "\<not> length ?data \<le> length pre" "?data ! length pre = b"
    by (auto simp: nth_append)
  show ?case
  proof (cases v)
    case (PInt i)
    with b have "b = 105" by (simp add: enc_int_def)
    with PInt Suc.prems(2) cnt depth at parse_int_enc [of i pre post] show ?thesis
      by simp
  next
    case (PBytes s)
    obtain c cs where c: "dec_digits (length s) = c # cs" "is_digit c" "c \<noteq> 105" "c \<noteq> 108" "c \<noteq> 100"
      using dec_digits_Cons_cases by blast
    with b PBytes have "b = c" by (simp add: enc_bytes_def)
    with c PBytes Suc.prems(2) cnt depth at parse_bytes_enc [of lim s pre post] show ?thesis
      by (simp add: is_digit_def)
  next
    case (PList vs)
    have "list_loop fuel (\<lambda>pos. parse srt lim ?data fuel pos (depth + 1)) ?data [] (length (pre @ [108])) (items + 1)
        = Inr (PList ([] @ vs), length (pre @ [108]) + length (list_enc vs) + 1,
            items + 1 + sum_list (map item_count vs))"
    proof (rule list_loop_complete)
      fix w pre' post' items'
      assume w: "w \<in> set vs" "?data = pre' @ wire_enc w @ post'"
        "items' + item_count w \<le> max_items lim"
      show "parse srt lim ?data fuel (length pre') (depth + 1) items' =
          Inr (w, length pre' + length (wire_enc w), items' + item_count w)"
        unfolding w(2)
      proof (rule Suc.IH)
        show "length (wire_enc w) \<le> fuel"
          using length_list_enc [OF w(1)] Suc.prems(3) PList by simp
      qed (use Suc.prems w PList in \<open>auto simp: list_all_iff\<close>)
    qed (use Suc.prems PList length_le_list_enc [of srt vs] in \<open>auto simp: add.commute\<close>)
    with PList cnt depth at b show ?thesis by auto
  next
    case (PDict d)
    have "dict_loop srt lim fuel (\<lambda>pos. parse srt lim ?data fuel pos (depth + 1)) ?data [] None (length (pre @ [100])) (items + 1)
        = Inr (PDict ([] @ d), length (pre @ [100]) + length (dict_enc d) + 1,
            items + 1 + sum_list (map (\<lambda>(k, v). 1 + item_count v) d))"
    proof (rule dict_loop_complete)
      fix k w pre' post' items'
      assume w: "(k, w) \<in> set d" "?data = pre' @ wire_enc w @ post'"
        "items' + item_count w \<le> max_items lim"
      show "parse srt lim ?data fuel (length pre') (depth + 1) items' =
          Inr (w, length pre' + length (wire_enc w), items' + item_count w)"
        unfolding w(2)
      proof (rule Suc.IH)
        show "length (wire_enc w) \<le> fuel"
          using length_dict_enc [OF w(1)] Suc.prems(3) PDict by simp
      qed (use Suc.prems w PDict in \<open>auto simp: list_all_iff\<close>)
    qed (use Suc.prems PDict length_le_dict_enc [of d] in \<open>auto simp: list_all_iff add.commute\<close>)
    with PDict cnt depth at b show ?thesis by auto
  qed (use Suc.prems in auto)
qed


section \<open>Only encodings are decoded\<close>

text \<open>What a successful call of \<open>parse\<close> at \<open>pos\<close> returns.\<close>

definition parsed :: "bool \<Rightarrow> decode_limits \<Rightarrow> bytes \<Rightarrow> nat \<Rightarrow> nat \<Rightarrow> nat \<Rightarrow>
    pyval \<times> nat \<times> nat \<Rightarrow> bool" where
  "parsed srt lim data depth pos items = (\<lambda>(v, pos', items').
     wire srt v \<and> fits lim depth v \<and> pos < pos' \<and> pos' \<le> length data
     \<and> slice data pos pos' = wire_enc v
     \<and> items' = items + item_count v \<and> items' \<le> max_items lim)"

lemma list_loop_sound:
  assumes "list_loop n p data out pos items = Inr (r, pos', items')"
    and "\<And>pos items x. p pos items = Inr x \<Longrightarrow> parsed srt lim data depth pos items x"
    and "items \<le> max_items lim"
  shows "\<exists>vs. r = PList (out @ vs) \<and> list_all (wire srt) vs \<and> list_all (fits lim depth) vs
    \<and> pos < pos' \<and> pos' \<le> length data \<and> slice data pos pos' = list_enc vs @ [101]
    \<and> items' = items + sum_list (map item_count vs) \<and> items' \<le> max_items lim"
  using assms
proof (induction n arbitrary: out pos items)
  case (Suc n)
  then have pos: "pos < length data" by (auto split: if_splits)
  show ?case
  proof (cases "data ! pos = 101")
    case True
    with Suc.prems pos show ?thesis
      by (intro exI [of _ "[]"]) (auto simp: slice_single)
  next
    case False
    with Suc.prems(1) pos obtain v pos1 items1 where v: "p pos items = Inr (v, pos1, items1)"
      and rest: "list_loop n p data (out @ [v]) pos1 items1 = Inr (r, pos', items')"
      by (auto simp: bind_r_Inr_iff)
    have par: "parsed srt lim data depth pos items (v, pos1, items1)"
      using v by (rule Suc.prems(2))
    then have "items1 \<le> max_items lim" by (simp add: parsed_def)
    from Suc.IH [OF rest Suc.prems(2) this] obtain vs where
      vs: "r = PList ((out @ [v]) @ vs)" "list_all (wire srt) vs" "list_all (fits lim depth) vs"
        "pos1 < pos'" "pos' \<le> length data" "slice data pos1 pos' = list_enc vs @ [101]"
        "items' = items1 + sum_list (map item_count vs)" "items' \<le> max_items lim"
      by auto
    have "slice data pos pos' = slice data pos pos1 @ slice data pos1 pos'"
      using par vs by (intro slice_split) (auto simp: parsed_def)
    with par vs show ?thesis
      by (intro exI [of _ "v # vs"]) (auto simp: parsed_def)
  qed
qed simp

lemma dict_loop_sound:
  assumes "dict_loop srt lim n p data out prev pos items = Inr (r, pos', items')"
    and "\<And>pos items x. p pos items = Inr x \<Longrightarrow> parsed srt lim data depth pos items x"
    and "items \<le> max_items lim" and "keys_ok srt out"
    and "prev = (if out = [] then None else Some (key_bytes (fst (last out))))"
  shows "\<exists>d. r = PDict (out @ d) \<and> keys_ok srt (out @ d)
    \<and> list_all (\<lambda>(k, v). wire srt v) d
    \<and> list_all (\<lambda>(k, v). string_fits lim (key_bytes k) \<and> fits lim depth v) d
    \<and> pos < pos' \<and> pos' \<le> length data \<and> slice data pos pos' = dict_enc d @ [101]
    \<and> items' = items + sum_list (map (\<lambda>(k, v). 1 + item_count v) d) \<and> items' \<le> max_items lim"
  using assms
proof (induction n arbitrary: out prev pos items)
  case (Suc n)
  then have pos: "pos < length data" by (auto split: if_splits)
  show ?case
  proof (cases "data ! pos = 101")
    case True
    with Suc.prems pos show ?thesis
      by (intro exI [of _ "[]"]) (auto simp: slice_single)
  next
    case False
    with Suc.prems(1) pos obtain key pos1 v pos2 items2 where
      cnt: "items + 1 \<le> max_items lim"
      and k: "parse_bytes lim data pos = Inr (key, pos1)" "KBytes key \<notin> set (map fst out)"
        "\<not> (srt \<and> prev \<noteq> None \<and> key < the prev)"
      and v: "p pos1 (items + 1) = Inr (v, pos2, items2)"
      and rest: "dict_loop srt lim n p data (out @ [(KBytes key, v)]) (Some key) pos2 items2
        = Inr (r, pos', items')"
      by (auto simp: bind_r_Inr_iff count_item_def split: if_splits)
    note key = parse_bytes_sound [OF k(1)]
    have par: "parsed srt lim data depth pos1 (items + 1) (v, pos2, items2)"
      using v by (rule Suc.prems(2))
    have "key \<notin> set (map (key_bytes \<circ> fst) out)"
    proof
      assume "key \<in> set (map (key_bytes \<circ> fst) out)"
      then obtain l w where l: "(l, w) \<in> set out" "key = key_bytes l" by auto
      then have "l = KBytes key"
        using Suc.prems(4) by (auto simp: keys_ok_def list_all_iff is_bytes_key_def)
      with l(1) k(2) show False by force
    qed
    moreover have "sorted (map (key_bytes \<circ> fst) out @ [key])" if srt
    proof (cases "out = []")
      case False
      then have "key_bytes (fst (last out)) \<le> key"
        using k(3) that Suc.prems(5) by (simp add: not_less)
      moreover have "sorted (map (key_bytes \<circ> fst) out)"
        using Suc.prems(4) that by (simp add: keys_ok_def)
      ultimately show ?thesis
        using False by (cases out rule: rev_cases) (auto simp: sorted_append)
    qed simp
    ultimately have keys: "keys_ok srt (out @ [(KBytes key, v)])"
      using Suc.prems(4) by (auto simp: keys_ok_def is_bytes_key_def)
    have "items2 \<le> max_items lim" using par by (simp add: parsed_def)
    from Suc.IH [OF rest Suc.prems(2) this keys] obtain d where
      d: "r = PDict ((out @ [(KBytes key, v)]) @ d)" "keys_ok srt ((out @ [(KBytes key, v)]) @ d)"
        "list_all (\<lambda>(k, v). wire srt v) d"
        "list_all (\<lambda>(k, v). string_fits lim (key_bytes k) \<and> fits lim depth v) d"
        "pos2 < pos'" "pos' \<le> length data" "slice data pos2 pos' = dict_enc d @ [101]"
        "items' = items2 + sum_list (map (\<lambda>(k, v). 1 + item_count v) d)" "items' \<le> max_items lim"
      by auto
    have "slice data pos pos' = slice data pos pos1 @ slice data pos1 pos'"
      using par d key by (intro slice_split) (auto simp: parsed_def)
    also have "slice data pos1 pos' = slice data pos1 pos2 @ slice data pos2 pos'"
      using par d by (intro slice_split) (auto simp: parsed_def)
    finally show ?thesis
      using par d key by (intro exI [of _ "(KBytes key, v) # d"]) (auto simp: parsed_def)
  qed
qed simp

lemma parse_sound:
  assumes "parse srt lim data fuel pos depth items = Inr x"
  shows "parsed srt lim data depth pos items x"
  using assms
proof (induction fuel arbitrary: pos depth items x)
  case (Suc fuel)
  obtain v pos' items' where x: "x = (v, pos', items')" by (cases x)
  let ?p = "\<lambda>pos. parse srt lim data fuel pos (depth + 1)"
  from Suc.prems have pos: "pos < length data" and depth: "depth \<le> max_depth lim"
    and cnt: "items + 1 \<le> max_items lim"
    by (auto simp: bind_r_Inr_iff count_item_def split: if_splits)
  have cnt': "count_item lim items = Inr (items + 1)" using cnt by (simp add: count_item_def)
  have first: "slice data pos q = data ! pos # slice data (pos + 1) q" if "pos < q" for q
    using that pos by (simp add: slice_Cons)
  have IH: "parsed srt lim data (depth + 1) pos items x" if "?p pos items = Inr x" for pos items x
    using that by (rule Suc.IH)
  consider (int) "data ! pos = 105" | (list) "data ! pos = 108" | (dict) "data ! pos = 100"
    | (bytes) "data ! pos \<noteq> 105" "data ! pos \<noteq> 108" "data ! pos \<noteq> 100" by blast
  then show ?case
  proof cases
    case int
    with Suc.prems pos depth cnt' have "parse_int data pos = Inr (v, pos')" "items' = items + 1"
      by (auto simp: bind_r_Inr_iff x)
    with int pos show ?thesis
      using depth cnt by (elim parse_int_sound) (auto simp: parsed_def x)
  next
    case list
    with Suc.prems pos depth cnt' have "list_loop fuel ?p data [] (pos + 1) (items + 1) = Inr (v, pos', items')"
      by (simp add: x)
    from list_loop_sound [OF this IH cnt] list depth first show ?thesis
      by (auto simp: parsed_def x)
  next
    case dict
    with Suc.prems pos depth cnt' have "dict_loop srt lim fuel ?p data [] None (pos + 1) (items + 1) = Inr (v, pos', items')"
      by (simp add: x)
    from dict_loop_sound [OF this IH cnt] dict depth first show ?thesis
      by (auto simp: parsed_def x keys_ok_def)
  next
    case bytes
    with Suc.prems pos depth cnt' obtain b where "parse_bytes lim data pos = Inr (b, pos')"
      and "v = PBytes b" "items' = items + 1"
      by (auto simp: bind_r_Inr_iff x Let_def split: if_splits)
    with parse_bytes_sound [OF this(1)] depth cnt show ?thesis
      by (simp add: parsed_def x)
  qed
qed simp


section \<open>The decoder always returns\<close>

lemma parse_int_not_fuel: "parse_int data pos \<noteq> Inl OutOfFuel"
  by (auto simp: parse_int_def int_of_text_def Let_def bind_r_Inl_iff split: option.splits)

lemma parse_bytes_not_fuel: "parse_bytes lim data pos \<noteq> Inl OutOfFuel"
  by (auto simp: parse_bytes_def Let_def split: option.splits)

lemma count_item_not_fuel: "count_item lim items \<noteq> Inl OutOfFuel"
  by (simp add: count_item_def)

lemmas not_fuel = parse_int_not_fuel parse_bytes_not_fuel count_item_not_fuel

lemma list_loop_total:
  assumes "\<And>q items. pos \<le> q \<Longrightarrow> p q items \<noteq> Inl OutOfFuel"
    and "\<And>q items x. p q items = Inr x \<Longrightarrow> q < fst (snd x)"
    and "length data - pos < n"
  shows "list_loop n p data out pos items \<noteq> Inl OutOfFuel"
  using assms
proof (induction n arbitrary: out pos items)
  case (Suc n)
  have "list_loop n p data (out @ [v]) pos' items' \<noteq> Inl OutOfFuel"
    if "p pos items = Inr (v, pos', items')" "pos < length data" for v pos' items'
  proof -
    have less: "pos < pos'" using Suc.prems(2) [OF that(1)] by simp
    show ?thesis by (rule Suc.IH) (use Suc.prems that less in auto)
  qed
  then show ?case using Suc.prems(1) [of pos items] by (auto simp: bind_r_Inl_iff)
qed simp

lemma dict_loop_total:
  assumes "\<And>q items. pos \<le> q \<Longrightarrow> p q items \<noteq> Inl OutOfFuel"
    and "\<And>q items x. p q items = Inr x \<Longrightarrow> q < fst (snd x)"
    and "length data - pos < n"
  shows "dict_loop srt lim n p data out prev pos items \<noteq> Inl OutOfFuel"
  using assms
proof (induction n arbitrary: out prev pos items)
  case (Suc n)
  have elem: "p pos1 items1 \<noteq> Inl OutOfFuel"
    if "parse_bytes lim data pos = Inr (key, pos1)" for key pos1 items1
    using parse_bytes_sound(2) [OF that] Suc.prems(1) by simp
  have rest: "dict_loop srt lim n p data out' prev' pos2 items2 \<noteq> Inl OutOfFuel"
    if "parse_bytes lim data pos = Inr (key, pos1)" "p pos1 items1 = Inr (v, pos2, items2)"
      "pos < length data" for key pos1 v pos2 items1 items2 out' prev'
  proof -
    have less: "pos < pos2"
      using parse_bytes_sound(2) [OF that(1)] Suc.prems(2) [OF that(2)] by simp
    show ?thesis by (rule Suc.IH) (use Suc.prems that(3) less in auto)
  qed
  show ?case by (auto simp: bind_r_Inl_iff not_fuel elem rest)
qed simp

lemma parse_total:
  assumes "length data - pos < fuel"
  shows "parse srt lim data fuel pos depth items \<noteq> Inl OutOfFuel"
  using assms
proof (induction fuel arbitrary: pos depth items)
  case (Suc fuel)
  let ?p = "\<lambda>pos. parse srt lim data fuel pos (depth + 1)"
  have prog: "q < fst (snd x)" if "?p q items = Inr x" for q items x
    using parse_sound [OF that] by (auto simp: parsed_def split: prod.splits)
  show ?case
  proof (cases "pos < length data")
    case True
    have rec: "?p q items \<noteq> Inl OutOfFuel" if "pos + 1 \<le> q" for q items
      using Suc.prems that True by (intro Suc.IH) auto
    have "list_loop fuel ?p data [] (pos + 1) items \<noteq> Inl OutOfFuel" for items
      by (rule list_loop_total [OF rec prog]) (use Suc.prems True in auto)
    moreover have "dict_loop srt lim fuel ?p data [] None (pos + 1) items \<noteq> Inl OutOfFuel" for items
      by (rule dict_loop_total [OF rec prog]) (use Suc.prems True in auto)
    ultimately show ?thesis by (auto simp: bind_r_Inl_iff not_fuel Let_def)
  qed (simp add: count_item_def)
qed simp


section \<open>Encoding\<close>

text \<open>Python dictionaries are equal up to the order of their items; \<open>canon\<close> is the equal
  value whose dictionaries are in key order, as \<open>encode\<close> writes them.\<close>

fun canon :: "pyval \<Rightarrow> pyval" where
  "canon (PList vs) = PList (map canon vs)"
| "canon (PDict d) = PDict (sort_key (key_bytes \<circ> fst) (map (\<lambda>(k, v). (k, canon v)) d))"
| "canon v = v"

lemma insort_key_map: "insort_key f (g x) (map g xs) = map g (insort_key (\<lambda>x. f (g x)) x xs)"
  by (induction xs) auto

lemma sort_key_map: "sort_key f (map g xs) = map g (sort_key (\<lambda>x. f (g x)) xs)"
proof (induction xs)
  case (Cons x xs)
  then show ?case by (simp add: insort_key_map)
qed simp

lemma join_results_Inr: "join_results (map Inr bs) = Inr (concat bs)"
  by (induction bs) auto

lemma encode_keys_bytes:
  "list_all (\<lambda>(k, _). is_bytes_key k) d \<Longrightarrow>
    encode_keys (map (\<lambda>(k, v). (k, f v)) d) = Inr (map (\<lambda>(k, v). (key_bytes k, f v)) d)"
proof (induction d)
  case (Cons kv d)
  then show ?case by (cases kv; cases "fst kv") (auto simp: is_bytes_key_def)
qed simp

lemma write_pairs_distinct:
  "distinct (map fst ps) \<Longrightarrow> prev \<notin> Some ` set (map fst ps) \<Longrightarrow>
    write_pairs prev (map (\<lambda>(k, b). (k, Inr b)) ps) =
      Inr (concat (map (\<lambda>(k, b). enc_bytes k @ b) ps))"
proof (induction ps arbitrary: prev)
  case (Cons kb ps)
  obtain k b where kb: "kb = (k, b)" by (cases kb)
  have "write_pairs (Some k) (map (\<lambda>(k, b). (k, Inr b)) ps) =
      Inr (concat (map (\<lambda>(k, b). enc_bytes k @ b) ps))"
    by (rule Cons.IH) (use Cons.prems kb in auto)
  with Cons.prems kb show ?case by auto
qed simp

lemma encode_dict_canon:
  assumes keys: "keys_ok False d"
    and vals: "\<And>k v. (k, v) \<in> set d \<Longrightarrow> encode v = Inr (wire_enc (canon v))"
  shows "encode (PDict d) = Inr (wire_enc (canon (PDict d)))"
proof -
  let ?c = "map (\<lambda>(k, v). (k, canon v)) d"
  let ?s = "sort_key (key_bytes \<circ> fst) ?c"
  let ?g = "\<lambda>(k, v). (key_bytes k, Inr (wire_enc v))"
  have "map (\<lambda>(k, v). (key_bytes k, encode v)) d = map ?g ?c"
    using vals by auto
  then have enc: "encode_keys (map (\<lambda>(k, v). (k, encode v)) d) = Inr (map ?g ?c)"
    using keys encode_keys_bytes [of d encode] by (simp add: keys_ok_def)
  have srt: "sort_key fst (map ?g ?c) = map ?g ?s"
    unfolding sort_key_map by (simp add: comp_def case_prod_beta)
  have pairs: "map ?g ?s = map (\<lambda>(k, b). (k, Inr b)) (map (\<lambda>(k, v). (key_bytes k, wire_enc v)) ?s)"
    by (simp add: case_prod_beta)
  have "distinct (map (key_bytes \<circ> fst) ?s)"
  proof -
    have "mset (map (key_bytes \<circ> fst) ?s) = mset (map (key_bytes \<circ> fst) ?c)"
      by (simp only: mset_map mset_sort)
    also have "map (key_bytes \<circ> fst) ?c = map (key_bytes \<circ> fst) d"
      by (simp add: case_prod_beta)
    finally have "mset (map (key_bytes \<circ> fst) ?s) = mset (map (key_bytes \<circ> fst) d)" .
    then have "distinct (map (key_bytes \<circ> fst) ?s) \<longleftrightarrow> distinct (map (key_bytes \<circ> fst) d)"
      by (rule mset_eq_imp_distinct_iff)
    then show ?thesis using keys by (simp add: keys_ok_def)
  qed
  then have wr: "write_pairs None (map (\<lambda>(k, b). (k, Inr b)) (map (\<lambda>(k, v). (key_bytes k, wire_enc v)) ?s))
      = Inr (dict_enc ?s)"
    by (subst write_pairs_distinct)
      (simp_all add: comp_def case_prod_unfold dict_enc_def pair_enc_def)
  show ?thesis
    by (simp only: encode.simps enc bind_r.simps srt pairs wr canon.simps wire_enc_containers)
qed

lemma sum_list_mset_eq: "mset xs = mset ys \<Longrightarrow> sum_list xs = sum_list (ys :: nat list)"
  by (metis sum_mset_sum_list)


lemma encode_canon:
  "wire False v \<Longrightarrow> fits lim depth v \<Longrightarrow> encode v = Inr (wire_enc (canon v))"
proof (induction v arbitrary: depth rule: encode.induct)
  case (6 vs)
  then have "map encode vs = map Inr (map (wire_enc \<circ> canon) vs)"
    by (auto simp: list_all_iff)
  then show ?case
    by (simp only: encode.simps join_results_Inr) (simp add: list_enc_def)
next
  case (8 d)
  show ?case
  proof (rule encode_dict_canon)
    show "encode v = Inr (wire_enc (canon v))" if "(k, v) \<in> set d" for k v
      using that "8.prems" by (intro "8.IH" [of "(k, v)" k v "Suc depth"]) (auto simp: list_all_iff)
  qed (use "8.prems" in simp)
qed (auto simp: encode_int_def)

lemma canon_props:
  assumes "wire False v" and "fits lim depth v"
  shows "wire True (canon v) \<and> fits lim depth (canon v) \<and> item_count (canon v) = item_count v"
  using assms
proof (induction v arbitrary: depth rule: canon.induct)
  case (1 vs)
  have IH: "wire True (canon v) \<and> fits lim (depth + 1) (canon v) \<and> item_count (canon v) = item_count v"
    if "v \<in> set vs" for v
    using that "1.prems" by (intro "1.IH") (auto simp: list_all_iff)
  then have "map (item_count \<circ> canon) vs = map item_count vs" by simp
  then have "item_count (canon (PList vs)) = item_count (PList vs)" by (metis canon.simps(1) item_count.simps(1) map_map)
  with IH "1.prems" show ?case by (auto simp: list_all_iff)
next
  case (2 d)
  let ?c = "map (\<lambda>(k, v). (k, canon v)) d"
  let ?s = "sort_key (key_bytes \<circ> fst) ?c"
  have IH: "wire True (canon v) \<and> fits lim (depth + 1) (canon v) \<and> item_count (canon v) = item_count v"
    if "(k, v) \<in> set d" for k v
    using that "2.prems" by (intro "2.IH" [of "(k, v)" k v]) (auto simp: list_all_iff)
  have ks: "map (key_bytes \<circ> fst) ?c = map (key_bytes \<circ> fst) d"
    by (simp add: case_prod_beta)
  have ms: "mset (map f ?s) = mset (map f ?c)" for f :: "pkey \<times> pyval \<Rightarrow> 'a"
    by (simp only: mset_map mset_sort)
  have "distinct (map (key_bytes \<circ> fst) ?s)"
    using mset_eq_imp_distinct_iff [OF ms] ks "2.prems"(1) by (metis keys_ok_def wire.simps(4))
  moreover have "sorted (map (key_bytes \<circ> fst) ?s)" by (rule sorted_sort_key)
  ultimately have keys: "keys_ok True ?s"
    using "2.prems"(1) by (auto simp: keys_ok_def list_all_iff)
  have "sum_list (map (\<lambda>(k, v). 1 + item_count v) ?s) = sum_list (map (\<lambda>(k, v). 1 + item_count v) ?c)"
    by (rule sum_list_mset_eq [OF ms])
  also have "map (\<lambda>(k, v). 1 + item_count v) ?c = map (\<lambda>(k, v). 1 + item_count v) d"
    using IH by auto
  finally have cnt: "item_count (PDict ?s) = item_count (PDict d)"
    by (simp only: item_count.simps)
  have "wire True (PDict ?s)" "fits lim depth (PDict ?s)"
    using keys IH "2.prems" by (auto simp: list_all_iff)
  with cnt show ?case by (simp only: canon.simps)
qed auto

section \<open>The codec's contract\<close>

declare parse.simps [simp del]

lemma decode_prefix_total: "decode_prefix lim srt data \<noteq> Inl OutOfFuel"
  by (auto simp: decode_prefix_def bind_r_Inl_iff parse_total)

lemma decode_total: "decode lim srt data \<noteq> Inl OutOfFuel"
  by (auto simp: decode_def bind_r_Inl_iff decode_prefix_total split: if_splits)

lemma decode_prefix_wire_enc:
  assumes "wire srt v" and "fits lim 0 v" and "item_count v \<le> max_items lim"
  shows "decode_prefix lim srt (wire_enc v @ rest) = Inr (v, length (wire_enc v))"
  using parse_complete [OF assms(1,2), of "Suc (length (wire_enc v @ rest))" 0 "[]" rest] assms(3)
  by (simp add: decode_prefix_def)

lemma decode_prefix_sound:
  assumes "decode_prefix lim srt data = Inr (v, n)"
  shows "wire srt v \<and> fits lim 0 v \<and> item_count v \<le> max_items lim
    \<and> n \<le> length data \<and> take n data = wire_enc v"
  using assms
  by (auto simp: decode_prefix_def bind_r_Inr_iff parsed_def slice_zero dest!: parse_sound)

lemma decode_iff:
  "decode lim srt data = Inr v \<longleftrightarrow>
     wire srt v \<and> fits lim 0 v \<and> item_count v \<le> max_items lim \<and> data = wire_enc v"
proof
  assume "decode lim srt data = Inr v"
  then have "decode_prefix lim srt data = Inr (v, length data)"
    by (auto simp: decode_def bind_r_Inr_iff split: if_splits)
  from decode_prefix_sound [OF this]
  show "wire srt v \<and> fits lim 0 v \<and> item_count v \<le> max_items lim \<and> data = wire_enc v"
    by simp
next
  assume "wire srt v \<and> fits lim 0 v \<and> item_count v \<le> max_items lim \<and> data = wire_enc v"
  with decode_prefix_wire_enc [of srt v lim "[]"] show "decode lim srt data = Inr v"
    by (simp add: decode_def)
qed


lemma canon_wire:
  assumes "wire True v"
  shows "canon v = v"
  using assms
proof (induction v rule: canon.induct)
  case (1 vs)
  then show ?case by (auto simp: list_all_iff intro!: map_idI)
next
  case (2 d)
  have "canon v = v" if "(k, v) \<in> set d" for k v
    using that "2.prems" by (intro "2.IH" [of "(k, v)" k v]) (auto simp: list_all_iff)
  then have "map (\<lambda>(k, v). (k, canon v)) d = d" by (auto intro!: map_idI)
  moreover have "sort_key (key_bytes \<circ> fst) d = d"
    using "2.prems" by (intro sort_key_id_if_sorted) (auto simp: keys_ok_def)
  ultimately show ?case by simp
qed auto

lemma wire_True_False: "wire True v \<Longrightarrow> wire False v"
  by (induction v rule: canon.induct) (auto simp: keys_ok_def list_all_iff)

section \<open>Properties\<close>

text \<open>C1. The decoder accepts exactly the wire format: it returns a value if and only if the
  input is that value's encoding, with dictionary keys distinct (and in strict mode in order),
  no depth, item or string limit exceeded, and no byte left over.\<close>

theorem decode_exact:
  "decode lim srt data = Inr v \<longleftrightarrow>
     wire srt v \<and> fits lim 0 v \<and> item_count v \<le> max_items lim \<and> data = wire_enc v"
  by (rule decode_iff)

text \<open>Decoding ends on every input: the fuel of the model, one more than the length of the
  input, is never used up.\<close>

theorem decode_terminates:
  "decode lim srt data \<noteq> Inl OutOfFuel \<and> decode_prefix lim srt data \<noteq> Inl OutOfFuel"
  by (simp add: decode_total decode_prefix_total)

text \<open>C2. Encoding then decoding gives the value back, with its dictionaries in key order: for
  every value of the wire types within the limits, in any dictionary order, strict decoding of
  what \<open>encode\<close> writes succeeds.\<close>

theorem encode_decode:
  assumes "wire False v" and "fits lim 0 v" and "item_count v \<le> max_items lim"
  shows "\<exists>bs. encode v = Inr bs \<and> decode lim True bs = Inr (canon v)"
  using encode_canon [OF assms(1,2)] canon_props [OF assms(1,2)] assms(3)
  by (auto simp: decode_iff)

lemma encode_decode_witness:
  "\<exists>bs. encode (PDict [(KBytes [98], PInt 7), (KBytes [97], PList [])]) = Inr bs
    \<and> decode \<lparr>max_depth = 4, max_items = 10, max_string_length = 10\<rparr> True bs
      = Inr (PDict [(KBytes [97], PList []), (KBytes [98], PInt 7)])"
  using encode_decode [of "PDict [(KBytes [98], PInt 7), (KBytes [97], PList [])]"
      "\<lparr>max_depth = 4, max_items = 10, max_string_length = 10\<rparr>"]
  by (simp add: keys_ok_def is_bytes_key_def string_fits_def int_max_str_digits_def dec_digits_eval)

text \<open>Strict decoding is canonical: the only input that strict decoding turns into a value
  is the one that \<open>encode\<close> writes for it.\<close>

theorem decode_strict_canonical:
  assumes "decode lim True data = Inr v"
  shows "encode v = Inr data"
proof -
  from assms have "wire True v" "fits lim 0 v" "data = wire_enc v" by (auto simp: decode_iff)
  then show ?thesis using encode_canon [OF wire_True_False] canon_wire by metis
qed

lemma decode_strict_canonical_witness:
  "encode (PInt 42) = Inr (wire_enc (PInt 42))"
proof -
  have "decode \<lparr>max_depth = 4, max_items = 10, max_string_length = 10\<rparr> True (wire_enc (PInt 42)) = Inr (PInt 42)"
    unfolding decode_iff by (simp add: int_max_str_digits_def dec_digits_eval)
  then show ?thesis by (rule decode_strict_canonical)
qed

end
