(* ===== verification/Config.thy ===== *)
theory Config
  imports Prelude Complex_Main
begin

text \<open>
  \<open>config.py\<close>: the user-adjustable constants, as a record that the other components
  take as an argument (the code reads the module's attributes at run time, and its tests
  change them), and the values the module assigns. Integers are \<open>int\<close>; the durations and
  ratios that may be integers or floats are \<open>rat\<close>, so that the products and comparisons
  the code computes in floating point are exact here. The two Telegram credentials come
  from the environment; their defaults are empty. File paths and log formats are left out.
\<close>

record config =
  DHT_BIND_HOST :: string
  DHT_BIND_PORT :: int
  DHT_BOOTSTRAP_NODES :: "(string \<times> int) list"
  DHT_CLIENT_VERSION :: string
  DHT_MAX_REQUESTS_PER_SECOND :: rat
  DHT_QUERY_BURST :: int
  DHT_MAX_PENDING_REQUESTS :: int
  DHT_QUERY_TIMEOUT :: rat
  DHT_LOOKUP_PARALLELISM :: int
  DHT_LOOKUP_DEADLINE :: rat
  MAX_DHT_QUERIES_PER_TORRENT :: int
  DHT_READ_ONLY :: bool
  ALLOW_NON_GLOBAL_ENDPOINTS :: bool
  DHT_RECEIVE_MAX_BYTES :: int
  DHT_ROUTING_GOOD_TTL :: rat
  DHT_ROUTING_BAD_AFTER_FAILURES :: int
  DHT_ROUTING_REFRESH_INTERVAL :: rat
  DHT_MAINTENANCE_INTERVAL :: rat
  DHT_BOOTSTRAP_RETRY_INTERVAL :: rat
  HASH_QUEUE_SIZE :: int
  MAX_ACTIVE_TORRENTS :: int
  MAX_PEER_HINTS_PER_CANDIDATE :: int
  RECENT_HASH_CACHE_SIZE :: int
  RECENT_HASH_TTL :: rat
  MAX_METADATA_ATTEMPTS_PER_TORRENT :: int
  MAX_PEER_CONNECTIONS :: int
  MAX_PEERS_PER_TORRENT :: int
  PEER_CONNECT_TIMEOUT :: rat
  PEER_HANDSHAKE_TIMEOUT :: rat
  PEER_SESSION_TIMEOUT :: rat
  METADATA_TIMEOUT :: rat
  METADATA_REQUEST_PIPELINE :: int
  MAX_METADATA_SIZE :: int
  MAX_PEER_MESSAGE_SIZE :: int
  PEER_CLIENT_NAME :: string
  PEER_ID_PREFIX :: string
  MAX_BENCODE_DEPTH :: int
  MAX_BENCODE_ITEMS :: int
  MAX_BENCODE_STRING_LENGTH :: int
  MAX_FILES_PER_TORRENT :: int
  MAX_PATH_COMPONENTS :: int
  MAX_INDEX_TEXT_LENGTH :: int
  MAX_EVIDENCE_TEXT_LENGTH :: int
  DHT_BEP51_ENABLED :: bool
  DHT_BEP51_GLOBAL_INTERVAL :: rat
  DHT_BEP51_RESPONSE_INTERVAL :: int
  DHT_BEP51_UNSUPPORTED_BACKOFF :: rat
  BEP51_QUEUE_HIGH_WATERMARK :: rat
  BEP51_QUEUE_LOW_WATERMARK :: rat
  BEP51_NODE_STATE_MAX :: int
  BEP51_NODE_STATE_TTL :: rat
  BEP51_MAX_SAMPLES_PER_RESPONSE :: int
  DHT_PEER_STORE_MAX_INFOHASHES :: int
  DHT_PEER_STORE_MAX_PEERS_PER_HASH :: int
  DHT_PEER_STORE_TTL :: rat
  DHT_TOKEN_ROTATION_INTERVAL :: rat
  DHT_TOKEN_VALIDITY :: rat
  DB_QUEUE_SIZE :: int
  DB_BUSY_TIMEOUT :: rat
  DB_WAL_ENABLED :: bool
  DB_SYNCHRONOUS :: string
  DATABASE_MAX_BYTES :: int
  RAW_INFO_STORAGE :: string
  DB_REOPEN_RETRY_COUNT :: int
  DB_REOPEN_RETRY_DELAY :: rat
  RETRY_SCAN_INTERVAL :: rat
  RETRY_SCAN_BATCH_SIZE :: int
  FETCH_RETRY_BASE_SECONDS :: int
  FETCH_RETRY_MAX_SECONDS :: int
  FETCH_RETRY_MAX_ATTEMPTS :: int
  DHT_JSONL_QUEUE_SIZE :: int
  DHT_JSONL_FLUSH_INTERVAL :: rat
  DHT_JSONL_MAX_BYTES :: int
  DHT_JSONL_BACKUP_COUNT :: int
  JSONL_REOPEN_RETRY_COUNT :: int
  JSONL_REOPEN_RETRY_DELAY :: rat
  DEBUG_FULL_KRPC_JSONL :: bool
  JSONL_WARNING_INTERVAL :: rat
  KEYWORD_MONITORING_ENABLED :: bool
  KEYWORDS :: "ustr list"
  KEYWORD_CASE_SENSITIVE :: bool
  TELEGRAM_ENABLED :: bool
  TELEGRAM_BOT_TOKEN :: string
  TELEGRAM_CHAT_ID :: string
  TELEGRAM_HTTP_TIMEOUT :: rat
  TELEGRAM_MESSAGE_MAX_CHARS :: int
  TELEGRAM_HTTP_MAX_RESPONSE_BYTES :: int
  TELEGRAM_MAX_MATCH_LINES :: int
  NOTIFICATION_RETRY_BASE_SECONDS :: int
  NOTIFICATION_RETRY_MAX_SECONDS :: int
  NOTIFICATION_RETRY_MAX_ATTEMPTS :: int
  NOTIFICATION_SCAN_INTERVAL :: rat
  NOTIFICATION_SCAN_BATCH_SIZE :: int
  SEARCH_RESULT_LIMIT :: int

definition default_config :: config where
  "default_config = \<lparr>
     DHT_BIND_HOST = ''0.0.0.0'',
     DHT_BIND_PORT = 6881,
     DHT_BOOTSTRAP_NODES = [(''router.bittorrent.com'', 6881), (''router.utorrent.com'', 6881), (''dht.transmissionbt.com'', 6881)],
     DHT_CLIENT_VERSION = ''qB7K'',
     DHT_MAX_REQUESTS_PER_SECOND = 50,
     DHT_QUERY_BURST = 10,
     DHT_MAX_PENDING_REQUESTS = 200,
     DHT_QUERY_TIMEOUT = 5,
     DHT_LOOKUP_PARALLELISM = 3,
     DHT_LOOKUP_DEADLINE = 15,
     MAX_DHT_QUERIES_PER_TORRENT = 100,
     DHT_READ_ONLY = False,
     ALLOW_NON_GLOBAL_ENDPOINTS = False,
     DHT_RECEIVE_MAX_BYTES = 65536,
     DHT_ROUTING_GOOD_TTL = 900,
     DHT_ROUTING_BAD_AFTER_FAILURES = 2,
     DHT_ROUTING_REFRESH_INTERVAL = 900,
     DHT_MAINTENANCE_INTERVAL = 30,
     DHT_BOOTSTRAP_RETRY_INTERVAL = 60,
     HASH_QUEUE_SIZE = 5000,
     MAX_ACTIVE_TORRENTS = 32,
     MAX_PEER_HINTS_PER_CANDIDATE = 4,
     RECENT_HASH_CACHE_SIZE = 100000,
     RECENT_HASH_TTL = 3600,
     MAX_METADATA_ATTEMPTS_PER_TORRENT = 20,
     MAX_PEER_CONNECTIONS = 32,
     MAX_PEERS_PER_TORRENT = 20,
     PEER_CONNECT_TIMEOUT = 5,
     PEER_HANDSHAKE_TIMEOUT = 5,
     PEER_SESSION_TIMEOUT = 30,
     METADATA_TIMEOUT = 15,
     METADATA_REQUEST_PIPELINE = 4,
     MAX_METADATA_SIZE = 4194304,
     MAX_PEER_MESSAGE_SIZE = 4259840,
     PEER_CLIENT_NAME = ''pyDHT/0.1'',
     PEER_ID_PREFIX = ''-PD0100-'',
     MAX_BENCODE_DEPTH = 64,
     MAX_BENCODE_ITEMS = 200000,
     MAX_BENCODE_STRING_LENGTH = 4194304,
     MAX_FILES_PER_TORRENT = 100000,
     MAX_PATH_COMPONENTS = 128,
     MAX_INDEX_TEXT_LENGTH = 16384,
     MAX_EVIDENCE_TEXT_LENGTH = 4096,
     DHT_BEP51_ENABLED = True,
     DHT_BEP51_GLOBAL_INTERVAL = 1,
     DHT_BEP51_RESPONSE_INTERVAL = 300,
     DHT_BEP51_UNSUPPORTED_BACKOFF = 3600,
     BEP51_QUEUE_HIGH_WATERMARK = 80 / 100,
     BEP51_QUEUE_LOW_WATERMARK = 30 / 100,
     BEP51_NODE_STATE_MAX = 10000,
     BEP51_NODE_STATE_TTL = 3600,
     BEP51_MAX_SAMPLES_PER_RESPONSE = 50,
     DHT_PEER_STORE_MAX_INFOHASHES = 10000,
     DHT_PEER_STORE_MAX_PEERS_PER_HASH = 50,
     DHT_PEER_STORE_TTL = 1800,
     DHT_TOKEN_ROTATION_INTERVAL = 300,
     DHT_TOKEN_VALIDITY = 600,
     DB_QUEUE_SIZE = 64,
     DB_BUSY_TIMEOUT = 5,
     DB_WAL_ENABLED = True,
     DB_SYNCHRONOUS = ''NORMAL'',
     DATABASE_MAX_BYTES = 21474836480,
     RAW_INFO_STORAGE = ''zlib'',
     DB_REOPEN_RETRY_COUNT = 5,
     DB_REOPEN_RETRY_DELAY = 2,
     RETRY_SCAN_INTERVAL = 60,
     RETRY_SCAN_BATCH_SIZE = 32,
     FETCH_RETRY_BASE_SECONDS = 60,
     FETCH_RETRY_MAX_SECONDS = 21600,
     FETCH_RETRY_MAX_ATTEMPTS = 20,
     DHT_JSONL_QUEUE_SIZE = 5000,
     DHT_JSONL_FLUSH_INTERVAL = 1,
     DHT_JSONL_MAX_BYTES = 536870912,
     DHT_JSONL_BACKUP_COUNT = 4,
     JSONL_REOPEN_RETRY_COUNT = 5,
     JSONL_REOPEN_RETRY_DELAY = 2,
     DEBUG_FULL_KRPC_JSONL = False,
     JSONL_WARNING_INTERVAL = 60,
     KEYWORD_MONITORING_ENABLED = False,
     KEYWORDS = [],
     KEYWORD_CASE_SENSITIVE = False,
     TELEGRAM_ENABLED = False,
     TELEGRAM_BOT_TOKEN = '''',
     TELEGRAM_CHAT_ID = '''',
     TELEGRAM_HTTP_TIMEOUT = 10,
     TELEGRAM_MESSAGE_MAX_CHARS = 4096,
     TELEGRAM_HTTP_MAX_RESPONSE_BYTES = 1048576,
     TELEGRAM_MAX_MATCH_LINES = 20,
     NOTIFICATION_RETRY_BASE_SECONDS = 60,
     NOTIFICATION_RETRY_MAX_SECONDS = 21600,
     NOTIFICATION_RETRY_MAX_ATTEMPTS = 20,
     NOTIFICATION_SCAN_INTERVAL = 30,
     NOTIFICATION_SCAN_BATCH_SIZE = 16,
     SEARCH_RESULT_LIMIT = 100\<rparr>"

text \<open>\<open>int(seconds * 1e9)\<close>: a duration in nanoseconds, truncated.\<close>

definition nanos :: "rat \<Rightarrow> int" where
  "nanos seconds = (if 0 \<le> seconds then \<lfloor>seconds * 1000000000\<rfloor> else \<lceil>seconds * 1000000000\<rceil>)"

lemma nanos_of_nat [simp]: "nanos (numeral n) = numeral n * 1000000000"
proof -
  have "(numeral n :: rat) * 1000000000 = of_int (numeral n * 1000000000)" by simp
  then show ?thesis unfolding nanos_def by (simp only: floor_of_int) simp
qed

lemma nanos_nonneg: "0 \<le> s \<Longrightarrow> 0 \<le> nanos s"
  by (simp add: nanos_def)

lemma nanos_mono: "0 \<le> s \<Longrightarrow> s \<le> t \<Longrightarrow> nanos s \<le> nanos t"
  by (simp add: nanos_def floor_mono)

end
