(* ===== verification/Net.thy ===== *)
theory Net
  imports Numbers Config
begin

text \<open>
  Addresses and the compact wire formats of \<open>includes/dht.py\<close> (lines 25 to 109). IPv4
  addresses follow the standard library's \<open>ipaddress\<close>: strict dotted-quad text, and the
  address blocks behind \<open>is_global\<close> (those of Python 3.12.4 and later). An ASCII text is
  the list of its bytes. Only IPv4 text is parsed: wherever the code parses an address it
  treats IPv6 text and malformed text alike.
\<close>

type_synonym atext = bytes
type_synonym ipv4 = "32 word"
type_synonym endpoint = "atext \<times> int"

section \<open>IPv4 text\<close>

text \<open>\<open>text.split(".")\<close>.\<close>

fun split_on :: "byte \<Rightarrow> bytes \<Rightarrow> bytes list" where
  "split_on d [] = [[]]"
| "split_on d (x # xs) =
     (if x = d then [] # split_on d xs
      else case split_on d xs of [] \<Rightarrow> [[x]] | w # ws \<Rightarrow> (x # w) # ws)"

text \<open>\<open>IPv4Address._parse_octet\<close>: no empty octet, ASCII digits only, at most three of them,
  no leading zero, at most 255.\<close>

definition parse_octet :: "bytes \<Rightarrow> nat option" where
  "parse_octet s =
     (if s = [] \<or> \<not> isdigit s then None
      else if 3 < length s then None
      else if s \<noteq> [48] \<and> hd s = 48 then None
      else if 255 < dec_value s then None
      else Some (dec_value s))"

definition parse_ipv4 :: "atext \<Rightarrow> ipv4 option" where
  "parse_ipv4 s =
     (case split_on 46 s of
        [a, b, c, d] \<Rightarrow>
          (case (parse_octet a, parse_octet b, parse_octet c, parse_octet d) of
             (Some a', Some b', Some c', Some d') \<Rightarrow>
               Some (of_nat (from_bytes (map of_nat [a', b', c', d'])))
           | _ \<Rightarrow> None)
      | _ \<Rightarrow> None)"

text \<open>\<open>addr.packed\<close> and \<open>IPv4Address(data)\<close> for four bytes of data.\<close>

definition ipv4_packed :: "ipv4 \<Rightarrow> bytes" where
  "ipv4_packed a = to_bytes 4 (unat a)"

definition ipv4_of_bytes :: "bytes \<Rightarrow> ipv4" where
  "ipv4_of_bytes bs = of_nat (from_bytes bs)"

text \<open>\<open>str(addr)\<close>.\<close>

fun join_dots :: "bytes list \<Rightarrow> bytes" where
  "join_dots [] = []"
| "join_dots [w] = w"
| "join_dots (w # ws) = w @ 46 # join_dots ws"

definition show_ipv4 :: "ipv4 \<Rightarrow> atext" where
  "show_ipv4 a = join_dots (map (\<lambda>b. dec_digits (unat b)) (ipv4_packed a))"

section \<open>Address blocks\<close>

text \<open>Membership in the network \<open>net/len\<close>.\<close>

definition in_network :: "ipv4 \<Rightarrow> ipv4 \<Rightarrow> nat \<Rightarrow> bool" where
  "in_network a net len \<longleftrightarrow> a AND NOT (mask (32 - len)) = net"

definition quad :: "nat \<Rightarrow> nat \<Rightarrow> nat \<Rightarrow> nat \<Rightarrow> ipv4" where
  "quad a b c d = of_nat (a * 2 ^ 24 + b * 2 ^ 16 + c * 2 ^ 8 + d)"

text \<open>\<open>_IPv4Constants._private_networks\<close> and \<open>_private_networks_exceptions\<close>.\<close>

definition private_networks :: "(ipv4 \<times> nat) list" where
  "private_networks =
     [(quad 0 0 0 0, 8), (quad 10 0 0 0, 8), (quad 127 0 0 0, 8), (quad 169 254 0 0, 16),
      (quad 172 16 0 0, 12), (quad 192 0 0 0, 24), (quad 192 0 0 170, 31), (quad 192 0 2 0, 24),
      (quad 192 168 0 0, 16), (quad 198 18 0 0, 15), (quad 198 51 100 0, 24),
      (quad 203 0 113 0, 24), (quad 240 0 0 0, 4), (quad 255 255 255 255, 32)]"

definition private_networks_exceptions :: "(ipv4 \<times> nat) list" where
  "private_networks_exceptions = [(quad 192 0 0 9, 32), (quad 192 0 0 10, 32)]"

definition is_private :: "ipv4 \<Rightarrow> bool" where
  "is_private a \<longleftrightarrow>
     list_ex (\<lambda>(n, l). in_network a n l) private_networks
     \<and> list_all (\<lambda>(n, l). \<not> in_network a n l) private_networks_exceptions"

definition is_global :: "ipv4 \<Rightarrow> bool" where
  "is_global a \<longleftrightarrow> \<not> in_network a (quad 100 64 0 0) 10 \<and> \<not> is_private a"

definition is_multicast :: "ipv4 \<Rightarrow> bool" where
  "is_multicast a \<longleftrightarrow> in_network a (quad 224 0 0 0) 4"

definition is_unspecified :: "ipv4 \<Rightarrow> bool" where
  "is_unspecified a \<longleftrightarrow> a = 0"

section \<open>Endpoint policy\<close>

definition valid_port :: "int \<Rightarrow> bool" where
  "valid_port port \<longleftrightarrow> 1 \<le> port \<and> port \<le> 65535"

text \<open>\<open>endpoint_allowed\<close>; the empty set of local addresses also stands for \<open>None\<close>.\<close>

definition endpoint_allowed :: "config \<Rightarrow> atext set \<Rightarrow> atext \<Rightarrow> int \<Rightarrow> bool" where
  "endpoint_allowed cfg local_ips ip port =
     (if \<not> valid_port port then False
      else case parse_ipv4 ip of
             None \<Rightarrow> False
           | Some addr \<Rightarrow>
               if show_ipv4 addr \<in> local_ips then False
               else if ALLOW_NON_GLOBAL_ENDPOINTS cfg
               then \<not> (is_unspecified addr \<or> is_multicast addr)
               else is_global addr)"

section \<open>Node identifiers and compact formats\<close>

definition DHT_NODE_ID_BYTES :: nat where "DHT_NODE_ID_BYTES = 20"
definition DHT_K :: nat where "DHT_K = 8"
definition COMPACT_IPV4_PEER_BYTES :: nat where "COMPACT_IPV4_PEER_BYTES = 6"
definition COMPACT_IPV4_NODE_BYTES :: nat where "COMPACT_IPV4_NODE_BYTES = 26"
definition COMPACT_IPV6_NODE_BYTES :: nat where "COMPACT_IPV6_NODE_BYTES = 38"
definition MAX_DHT_RESPONSE_BYTES :: nat where "MAX_DHT_RESPONSE_BYTES = 1024"
definition DHT_ID_SPACE :: nat where "DHT_ID_SPACE = 2 ^ 160"

definition xor_distance :: "bytes \<Rightarrow> bytes \<Rightarrow> pyexn + nat" where
  "xor_distance a b =
     (if length a \<noteq> 20 \<or> length b \<noteq> 20 then Inl (ValueError ''node IDs must be 20 bytes'')
      else Inr (from_bytes a XOR from_bytes b))"

definition compact_peer :: "endpoint \<Rightarrow> pyexn + bytes" where
  "compact_peer ep =
     (let (ip, port) = ep in
      case parse_ipv4 ip of
        None \<Rightarrow> Inl (ValueError ''compact peer requires IPv4 and valid port'')
      | Some addr \<Rightarrow>
          if \<not> valid_port port
          then Inl (ValueError ''compact peer requires IPv4 and valid port'')
          else Inr (ipv4_packed addr @ to_bytes 2 (nat port)))"

definition parse_compact_peer :: "bytes \<Rightarrow> pyexn + endpoint" where
  "parse_compact_peer data =
     (if length data \<noteq> COMPACT_IPV4_PEER_BYTES
      then Inl (ValueError ''compact IPv4 peer must be 6 bytes'')
      else Inr (show_ipv4 (ipv4_of_bytes (take 4 data)), int (from_bytes (drop 4 data))))"

definition compact_node :: "bytes \<Rightarrow> endpoint \<Rightarrow> pyexn + bytes" where
  "compact_node node_id ep =
     (if length node_id \<noteq> 20 then Inl (ValueError ''node ID must be 20 bytes'')
      else bind_r (compact_peer ep) (\<lambda>p. Inr (node_id @ p)))"

text \<open>\<open>str(IPv6Address(data))\<close> of Python 3.12 for 16 bytes of data: eight hexadecimal groups,
  the longest run of at least two zero groups (the first of them) written as \<open>::\<close>.\<close>

definition hex_digit :: "nat \<Rightarrow> byte" where
  "hex_digit d = (if d < 10 then of_nat (48 + d) else of_nat (87 + d))"

fun hex_digits :: "nat \<Rightarrow> bytes" where
  "hex_digits n = (if n < 16 then [hex_digit n] else hex_digits (n div 16) @ [hex_digit (n mod 16)])"

declare hex_digits.simps [simp del]

text \<open>The scan of \<open>_compress_hextets\<close>: current start and length, best start and length.\<close>

fun zero_run :: "nat \<Rightarrow> nat list \<Rightarrow> nat \<times> nat \<Rightarrow> nat \<times> nat \<Rightarrow> nat \<times> nat" where
  "zero_run i [] cur best = best"
| "zero_run i (h # hs) (start, len) (bstart, blen) =
     (if h = 0 then
        (let start' = (if len = 0 then i else start) in
         zero_run (Suc i) hs (start', Suc len)
           (if blen < Suc len then (start', Suc len) else (bstart, blen)))
      else zero_run (Suc i) hs (0, 0) (bstart, blen))"

fun join_colons :: "bytes list \<Rightarrow> bytes" where
  "join_colons [] = []"
| "join_colons [w] = w"
| "join_colons (w # ws) = w @ 58 # join_colons ws"

definition show_ipv6 :: "bytes \<Rightarrow> atext" where
  "show_ipv6 data =
     (let hextets = map (\<lambda>i. from_bytes (slice data (2 * i) (2 * i + 2))) [0..<8];
          texts = map hex_digits hextets;
          (start, len) = zero_run 0 hextets (0, 0) (0, 0)
      in if 1 < len then
           join_colons ((if start = 0 then [[]] else []) @ take start texts @ [[]]
             @ drop (start + len) texts @ (if start + len = 8 then [[]] else []))
         else join_colons texts)"

text \<open>One iteration of the loop of \<open>parse_compact_nodes\<close>.\<close>

definition parse_node4 :: "bytes \<Rightarrow> bytes \<times> atext \<times> int" where
  "parse_node4 part =
     (take 20 part, show_ipv4 (ipv4_of_bytes (slice part 20 24)), int (from_bytes (slice part 24 26)))"

definition parse_node6 :: "bytes \<Rightarrow> bytes \<times> atext \<times> int" where
  "parse_node6 part =
     (take 20 part, show_ipv6 (slice part 20 36), int (from_bytes (slice part 36 38)))"

text \<open>\<open>data[pos:pos + size] for pos in range(0, len(data), size)\<close>.\<close>

function chunks :: "nat \<Rightarrow> 'a list \<Rightarrow> 'a list list" where
  "chunks sz xs =
     (if sz = 0 \<or> xs = [] then [] else take sz xs # chunks sz (drop sz xs))"
  by pat_completeness auto
termination
  by (relation "measure (\<lambda>(sz, xs). length xs)") auto

declare chunks.simps [simp del]

definition parse_compact_nodes :: "bytes \<Rightarrow> nat \<Rightarrow> pyexn + (bytes \<times> atext \<times> int) list" where
  "parse_compact_nodes data family =
     (let sz = (if family = 4 then COMPACT_IPV4_NODE_BYTES else COMPACT_IPV6_NODE_BYTES) in
      if length data mod sz \<noteq> 0 then Inl (ValueError ''invalid compact node list length'')
      else Inr (map (if family = 4 then parse_node4 else parse_node6) (chunks sz data)))"

end
