(* ===== verification/Routing.thy ===== *)
theory Routing
  imports Net
begin

text \<open>
  The routing table of \<open>includes/dht.py\<close>: \<open>Contact\<close>, \<open>Bucket\<close> and \<open>RoutingTable\<close>. Python
  objects are values here: a bucket is named by its index in the table and a contact by its
  node identifier, and an operation returns the updated table. The records passed to the
  event callback are collected in \<open>events\<close>, in order. Every operation takes the successive
  readings of \<open>time.monotonic_ns()\<close> it makes as a function \<open>clk\<close>: reading \<open>k\<close> belongs to the
  \<open>k\<close>-th place where the call reads the clock (places it skips leave their number unused).
\<close>

section \<open>Contacts\<close>

record contact =
  node_id :: bytes
  ct_ip :: atext
  ct_port :: int
  first_seen_ns :: int
  last_response_ns :: "int option"
  last_query_ns :: "int option"
  failures :: nat
  ever_responded :: bool
  read_only :: bool
  client_version :: "bytes option"

datatype contact_state = GOOD | QUESTIONABLE | BAD

definition is_bad :: "config \<Rightarrow> contact \<Rightarrow> bool" where
  "is_bad cfg c \<longleftrightarrow> DHT_ROUTING_BAD_AFTER_FAILURES cfg \<le> int (failures c)"

definition recent_enough :: "int \<Rightarrow> int \<Rightarrow> int option \<Rightarrow> bool" where
  "recent_enough now_ns cutoff stamp = (case stamp of None \<Rightarrow> False | Some s \<Rightarrow> now_ns - s \<le> cutoff)"

definition state :: "config \<Rightarrow> int \<Rightarrow> contact \<Rightarrow> contact_state" where
  "state cfg now_ns c =
     (if is_bad cfg c then BAD
      else
        (let cutoff = nanos (DHT_ROUTING_GOOD_TTL cfg);
             responsive = recent_enough now_ns cutoff (last_response_ns c);
             queried_us = recent_enough now_ns cutoff (last_query_ns c)
         in if responsive \<or> (ever_responded c \<and> queried_us) then GOOD else QUESTIONABLE))"

section \<open>Buckets and the table\<close>

record bucket =
  low :: nat
  high :: nat
  contacts :: "contact list"
  replacements :: "contact list"
  last_changed_ns :: int

definition new_bucket :: "nat \<Rightarrow> nat \<Rightarrow> int \<Rightarrow> bucket" where
  "new_bucket lo hi now =
     \<lparr>low = lo, high = hi, contacts = [], replacements = [], last_changed_ns = now\<rparr>"

definition contains :: "bucket \<Rightarrow> bytes \<Rightarrow> bool" where
  "contains b nid \<longleftrightarrow> low b \<le> from_bytes nid \<and> from_bytes nid < high b"

text \<open>A record given to the event callback: the event, the bucket's range and time stamp, and
  for a contact the contact with its state at that moment and its previous state.\<close>

record route_event =
  ev_name :: string
  ev_min :: nat
  ev_max :: nat
  ev_changed :: int
  ev_contact :: "(contact \<times> contact_state) option"
  ev_previous :: "contact_state option"

record table =
  local_node_id :: bytes
  buckets :: "bucket list"
  events :: "route_event list"

text \<open>\<open>CoverageBroken\<close> is the \<open>AssertionError\<close> of \<open>_bucket_for\<close>; \<open>Diverges\<close> stands for a
  split loop that never ends. The invariant of \<open>Routing_Correct\<close> excludes both.\<close>

datatype route_exn = CoverageBroken | Diverges

definition new_table :: "bytes \<Rightarrow> int \<Rightarrow> pyexn + table" where
  "new_table local_id now =
     (if length local_id \<noteq> 20 then Inl (ValueError ''local node ID must be 20 bytes'')
      else Inr \<lparr>local_node_id = local_id, buckets = [new_bucket 0 DHT_ID_SPACE now], events = []\<rparr>)"

definition emit :: "config \<Rightarrow> int \<Rightarrow> string \<Rightarrow> contact option \<Rightarrow> bucket \<Rightarrow> contact_state option \<Rightarrow>
    table \<Rightarrow> table" where
  "emit cfg now name c b prev t =
     t\<lparr>events := events t @
        [\<lparr>ev_name = name, ev_min = low b, ev_max = high b - 1, ev_changed = last_changed_ns b,
          ev_contact = map_option (\<lambda>c. (c, state cfg now c)) c,
          ev_previous = (if c = None then None else prev)\<rparr>]\<rparr>"

text \<open>The loop of \<open>_bucket_for\<close>: the index of the first bucket whose range holds the value.\<close>

fun bucket_index :: "bucket list \<Rightarrow> nat \<Rightarrow> nat option" where
  "bucket_index [] v = None"
| "bucket_index (b # bs) v =
     (if low b \<le> v \<and> v < high b then Some 0 else map_option Suc (bucket_index bs v))"

definition bucket_for :: "table \<Rightarrow> bytes \<Rightarrow> route_exn + nat" where
  "bucket_for t nid =
     (case bucket_index (buckets t) (from_bytes nid) of
        None \<Rightarrow> Inl CoverageBroken | Some i \<Rightarrow> Inr i)"

definition set_bucket :: "nat \<Rightarrow> bucket \<Rightarrow> table \<Rightarrow> table" where
  "set_bucket i b t = t\<lparr>buckets := (buckets t)[i := b]\<rparr>"

text \<open>One iteration of the replacement loop of \<open>_split\<close>.\<close>

definition put_replacement :: "contact \<Rightarrow> bucket \<times> bucket \<Rightarrow> bucket \<times> bucket" where
  "put_replacement c = (\<lambda>(left, right).
     let add = (\<lambda>b. if length (replacements b) < DHT_K
                    then b\<lparr>replacements := replacements b @ [c]\<rparr> else b)
     in if contains left (node_id c) then (add left, right) else (left, add right))"

definition split_halves :: "int \<Rightarrow> int \<Rightarrow> bucket \<Rightarrow> bucket \<times> bucket" where
  "split_halves now_l now_r b =
     (let midpoint = (low b + high b) div 2;
          left = new_bucket (low b) midpoint now_l;
          right = new_bucket midpoint (high b) now_r;
          inl = (\<lambda>c. contains left (node_id c))
      in fold put_replacement (replacements b)
           (left\<lparr>contacts := filter inl (contacts b)\<rparr>,
            right\<lparr>contacts := filter (\<lambda>c. \<not> inl c) (contacts b)\<rparr>))"

definition split :: "config \<Rightarrow> (nat \<Rightarrow> int) \<Rightarrow> nat \<Rightarrow> nat \<Rightarrow> table \<Rightarrow> table" where
  "split cfg clk k i t =
     (let (left, right) = split_halves (clk k) (clk (k + 1)) (buckets t ! i) in
      emit cfg 0 ''bucket_split'' None left None
        (t\<lparr>buckets := take i (buckets t) @ [left, right] @ drop (i + 1) (buckets t)\<rparr>))"

definition find :: "table \<Rightarrow> bytes \<Rightarrow> route_exn + contact option" where
  "find t nid =
     bind_r (bucket_for t nid) (\<lambda>i.
       Inr (List.find (\<lambda>c. node_id c = nid) (contacts (buckets t ! i))))"

section \<open>Observing a node\<close>

fun update_first :: "('a \<Rightarrow> bool) \<Rightarrow> 'a \<Rightarrow> 'a list \<Rightarrow> 'a list" where
  "update_first p y [] = []"
| "update_first p y (x # xs) = (if p x then y # xs else x # update_first p y xs)"

text \<open>The first loop of \<open>observe\<close>: what a sighting changes in a known contact.\<close>

definition refresh :: "(nat \<Rightarrow> int) \<Rightarrow> atext \<Rightarrow> int \<Rightarrow> bool \<Rightarrow> bool \<Rightarrow> bool \<Rightarrow> bytes option \<Rightarrow>
    contact \<Rightarrow> contact" where
  "refresh clk ip port direct incoming ro ver c =
     (let c1 = (if direct \<or> (ct_ip c = ip \<and> ct_port c = port)
                then c\<lparr>ct_ip := ip, ct_port := port\<rparr> else c);
          c2 = (if direct
                then c1\<lparr>last_response_ns := Some (clk 1), ever_responded := True, failures := 0\<rparr>
                else c1);
          c3 = (if incoming then c2\<lparr>last_query_ns := Some (clk 2)\<rparr> else c2)
      in c3\<lparr>read_only := ro,
            client_version := (if ver = None \<or> ver = Some [] then client_version c3 else ver)\<rparr>)"

definition observe_known :: "config \<Rightarrow> (nat \<Rightarrow> int) \<Rightarrow> table \<Rightarrow> nat \<Rightarrow> contact \<Rightarrow> contact \<Rightarrow> table" where
  "observe_known cfg clk t i old c =
     (let previous = state cfg (clk 0) old; b = buckets t ! i;
          b' = b\<lparr>contacts := update_first (\<lambda>x. node_id x = node_id old) c (contacts b)\<rparr>;
          t' = set_bucket i b' t
      in if state cfg (clk 3) c \<noteq> previous
         then emit cfg (clk 5)
                (if state cfg (clk 4) c = GOOD then ''node_validated'' else ''node_questionable'')
                (Some c) b' (Some previous) t'
         else t')"

definition new_contact :: "(nat \<Rightarrow> int) \<Rightarrow> bytes \<Rightarrow> atext \<Rightarrow> int \<Rightarrow> bool \<Rightarrow> bool \<Rightarrow> bool \<Rightarrow>
    bytes option \<Rightarrow> contact" where
  "new_contact clk nid ip port direct incoming ro ver =
     \<lparr>node_id = nid, ct_ip = ip, ct_port = port, first_seen_ns = clk 0,
      last_response_ns = (if direct then Some (clk 1) else None),
      last_query_ns = (if incoming then Some (clk 2) else None),
      failures = 0, ever_responded = direct, read_only = ro, client_version = ver\<rparr>"

text \<open>The \<open>while\<close> loop: split the bucket until it has room or does not hold the local
  identifier. It returns the table, the bucket's index and the next clock place.\<close>

partial_function (option) split_loop :: "config \<Rightarrow> (nat \<Rightarrow> int) \<Rightarrow> bytes \<Rightarrow> nat \<Rightarrow> nat \<Rightarrow> table \<Rightarrow>
    (route_exn + table \<times> nat \<times> nat) option" where
  "split_loop cfg clk nid k i t =
     (if DHT_K \<le> length (contacts (buckets t ! i)) \<and> contains (buckets t ! i) (local_node_id t)
      then (case bucket_for (split cfg clk k i t) nid of
              Inl e \<Rightarrow> Some (Inl e)
            | Inr i' \<Rightarrow> split_loop cfg clk nid (k + 2) i' (split cfg clk k i t))
      else Some (Inr (t, i, k)))"

text \<open>\<open>next((c for c in bucket.contacts if c.state() == "BAD"), None)\<close>.\<close>

fun first_bad :: "config \<Rightarrow> (nat \<Rightarrow> int) \<Rightarrow> nat \<Rightarrow> contact list \<Rightarrow> contact option" where
  "first_bad cfg clk k [] = None"
| "first_bad cfg clk k (c # cs) =
     (if state cfg (clk k) c = BAD then Some c else first_bad cfg clk (k + 1) cs)"

text \<open>The rest of \<open>observe\<close>, for a candidate and a bucket that is not split further.\<close>

definition place :: "config \<Rightarrow> (nat \<Rightarrow> int) \<Rightarrow> contact \<Rightarrow> nat \<Rightarrow> nat \<Rightarrow> table \<Rightarrow> table" where
  "place cfg clk c k i t =
     (let b = buckets t ! i in
      if length (contacts b) < DHT_K then
        (let b' = b\<lparr>contacts := contacts b @ [c], last_changed_ns := clk k\<rparr>
         in emit cfg (clk (k + 1)) ''node_added'' (Some c) b' None (set_bucket i b' t))
      else
        (case first_bad cfg clk k (contacts b) of
           Some bad \<Rightarrow>
             (let n = k + length (contacts b);
                  b' = b\<lparr>contacts := remove1 bad (contacts b) @ [c], last_changed_ns := clk n\<rparr>
              in emit cfg (clk (n + 2)) ''node_added'' (Some c) b' None
                   (emit cfg (clk (n + 1)) ''node_removed'' (Some bad) b' None (set_bucket i b' t)))
         | None \<Rightarrow>
             if list_all (\<lambda>x. node_id x \<noteq> node_id c) (replacements b) then
               set_bucket i
                 (b\<lparr>replacements := (if DHT_K \<le> length (replacements b) then tl (replacements b)
                                     else replacements b) @ [c]\<rparr>) t
             else t))"

definition observe :: "config \<Rightarrow> (nat \<Rightarrow> int) \<Rightarrow> table \<Rightarrow> bytes \<Rightarrow> atext \<Rightarrow> int \<Rightarrow> bool \<Rightarrow> bool \<Rightarrow>
    bool \<Rightarrow> bytes option \<Rightarrow> route_exn + table \<times> contact option" where
  "observe cfg clk t nid ip port direct incoming ro ver =
     (if length nid \<noteq> 20 \<or> nid = local_node_id t then Inr (t, None)
      else bind_r (bucket_for t nid) (\<lambda>i.
        case List.find (\<lambda>c. node_id c = nid) (contacts (buckets t ! i)) of
          Some old \<Rightarrow>
            (let c = refresh clk ip port direct incoming ro ver old
             in Inr (observe_known cfg clk t i old c, Some c))
        | None \<Rightarrow>
            (let c = new_contact clk nid ip port direct incoming ro ver;
                 t1 = emit cfg (clk 3) ''node_candidate'' (Some c) (buckets t ! i) None t
             in if ro then Inr (t1, Some c)
                else case split_loop cfg clk nid 4 i t1 of
                       None \<Rightarrow> Inl Diverges
                     | Some r \<Rightarrow> bind_r r (\<lambda>(t2, i2, k). Inr (place cfg clk c k i2 t2, Some c)))))"

section \<open>Failures, closest nodes\<close>

definition mark_failure :: "config \<Rightarrow> (nat \<Rightarrow> int) \<Rightarrow> table \<Rightarrow> bytes \<Rightarrow> route_exn + table" where
  "mark_failure cfg clk t nid =
     bind_r (find t nid) (\<lambda>found.
       case found of
         None \<Rightarrow> Inr t
       | Some old \<Rightarrow>
           bind_r (bucket_for t nid) (\<lambda>i.
             let previous = state cfg (clk 0) old;
                 c = old\<lparr>failures := failures old + 1\<rparr>;
                 current = state cfg (clk 1) c;
                 b = buckets t ! i;
                 b1 = b\<lparr>contacts := update_first (\<lambda>x. node_id x = nid) c (contacts b)\<rparr>;
                 t1 = set_bucket i b1 t;
                 t2 = (if current \<noteq> previous
                       then emit cfg (clk 2) (if current = BAD then ''node_bad'' else ''node_questionable'')
                              (Some c) b1 (Some previous) t1
                       else t1)
             in if current = BAD \<and> replacements b1 \<noteq> [] then
                  (let r = last (replacements b1);
                       b2 = b1\<lparr>replacements := butlast (replacements b1),
                               contacts := remove1 c (contacts b1) @ [r],
                               last_changed_ns := clk 3\<rparr>
                   in Inr (emit cfg (clk 5) ''node_added'' (Some r) b2 None
                            (emit cfg (clk 4) ''node_removed'' (Some c) b2 None (set_bucket i b2 t2))))
                else Inr t2))"

definition all_contacts :: "table \<Rightarrow> contact list" where
  "all_contacts t = concat (map contacts (buckets t))"

text \<open>\<open>[c for c in contacts if c.state() == "GOOD"]\<close>, each state at its own reading.\<close>

fun good_contacts :: "config \<Rightarrow> (nat \<Rightarrow> int) \<Rightarrow> nat \<Rightarrow> contact list \<Rightarrow> contact list" where
  "good_contacts cfg clk k [] = []"
| "good_contacts cfg clk k (c # cs) =
     (if state cfg (clk k) c = GOOD then c # good_contacts cfg clk (k + 1) cs
      else good_contacts cfg clk (k + 1) cs)"

definition distance_key :: "bytes \<Rightarrow> contact \<Rightarrow> nat" where
  "distance_key target c = from_bytes (node_id c) XOR from_bytes target"

text \<open>The key of every contact is computed, so an identifier or target of another length
  raises \<open>xor_distance\<close>'s exception when there is a contact at all.\<close>

definition closest :: "config \<Rightarrow> (nat \<Rightarrow> int) \<Rightarrow> table \<Rightarrow> bytes \<Rightarrow> nat \<Rightarrow> bool \<Rightarrow>
    pyexn + contact list" where
  "closest cfg clk t target limit good_only =
     (let cs = filter (\<lambda>c. \<not> read_only c) (all_contacts t);
          cs' = (if good_only then good_contacts cfg clk 0 cs else cs)
      in if list_ex (\<lambda>c. length (node_id c) \<noteq> 20 \<or> length target \<noteq> 20) cs'
         then Inl (ValueError ''node IDs must be 20 bytes'')
         else Inr (take limit (sort_key (distance_key target) cs')))"

end
