(* ===== verification/Net_Correct.thy ===== *)
theory Net_Correct
  imports Net
begin

text \<open>
  The contracts of \<open>Net\<close>: IPv4 text and address values correspond one to one, the compact
  formats are fixed-width codecs (the locale \<open>fixed_codec\<close>, interpreted for peers and for
  nodes, gives the list format), and the XOR distance is a metric.
\<close>

section \<open>IPv4 text\<close>

lemma split_on_nonempty [simp]: "split_on d xs \<noteq> []"
  by (induction xs) (auto split: list.splits)

lemma join_split: "join_dots (split_on 46 s) = s"
proof (induction s)
  case (Cons x s)
  show ?case
  proof (cases "split_on 46 s")
    case (Cons w ws)
    with Cons.IH show ?thesis by (cases ws) auto
  qed simp
qed simp

lemma split_append_sep: "d \<notin> set w \<Longrightarrow> split_on d (w @ d # s) = w # split_on d s"
  by (induction w) (auto split: list.splits)

lemma split_no_sep: "d \<notin> set w \<Longrightarrow> split_on d w = [w]"
  by (induction w) auto

lemma split_join:
  "ws \<noteq> [] \<Longrightarrow> list_all (\<lambda>w. 46 \<notin> set w) ws \<Longrightarrow> split_on 46 (join_dots ws) = ws"
  by (induction ws rule: join_dots.induct) (auto simp: split_append_sep split_no_sep)

lemma dec_digits_length3: "n \<le> 255 \<Longrightarrow> length (dec_digits n) \<le> 3"
  by (subst dec_digits.simps, subst dec_digits.simps, subst dec_digits.simps) auto

lemma parse_octet_dec_digits: "n \<le> 255 \<Longrightarrow> parse_octet (dec_digits n) = Some n"
proof -
  assume n: "n \<le> 255"
  have "\<not> (dec_digits n \<noteq> [48] \<and> hd (dec_digits n) = 48)"
    using dec_digits_hd [of n] by (cases "dec_digits n") auto
  with n dec_digits_length3 [OF n] show ?thesis by (auto simp: parse_octet_def)
qed

lemma parse_octet_Some:
  assumes "parse_octet s = Some n"
  shows "n \<le> 255" and "s = dec_digits n"
proof -
  from assms have s: "isdigit s" "\<not> (s \<noteq> [48] \<and> hd s = 48)" "n = dec_value s"
    by (auto simp: parse_octet_def split: if_splits)
  show "n \<le> 255" using assms by (auto simp: parse_octet_def split: if_splits)
  show "s = dec_digits n"
    unfolding s(3) using s by (intro dec_digits_dec_value [symmetric]) auto
qed

lemma dot_not_in_digits [simp]: "46 \<notin> set (dec_digits n)"
  using dec_digits_digits by (rule digit_not_member [rotated]) simp

lemma ipv4_packed_length [simp]: "length (ipv4_packed a) = 4"
  by (simp add: ipv4_packed_def)

lemma ipv4_of_bytes_packed [simp]: "ipv4_of_bytes (ipv4_packed a) = a"
proof -
  have "unat a < 256 ^ 4" using unsigned_less [of a] by simp
  then show ?thesis by (simp only: ipv4_of_bytes_def ipv4_packed_def from_bytes_to_bytes) simp
qed

lemma ipv4_packed_of_bytes [simp]:
  assumes "length bs = 4"
  shows "ipv4_packed (ipv4_of_bytes bs) = bs"
proof -
  have "from_bytes bs < 2 ^ 32" using from_bytes_less [of bs] assms by simp
  then have "unat (ipv4_of_bytes bs) = from_bytes bs"
    by (simp add: ipv4_of_bytes_def unsigned_of_nat take_bit_nat_eq_self)
  then show ?thesis using to_bytes_from_bytes [of bs] assms by (simp only: ipv4_packed_def)
qed

lemma list4_cases:
  assumes "length xs = 4"
  obtains a b c d where "xs = [a, b, c, d]"
  using assms by (auto simp: length_Suc_conv eval_nat_numeral)

lemma map_of_nat_unat: "map of_nat (map unat (bs :: bytes)) = bs"
  by (induction bs) auto

theorem parse_show_ipv4: "parse_ipv4 (show_ipv4 a) = Some a"
proof -
  obtain b0 b1 b2 b3 where p: "ipv4_packed a = [b0, b1, b2, b3]"
    using list4_cases ipv4_packed_length by metis
  have oct: "parse_octet (dec_digits (unat (b :: byte))) = Some (unat b)" for b
    using unat_byte_less [of b] by (intro parse_octet_dec_digits) linarith
  have "split_on 46 (show_ipv4 a) = map (\<lambda>b. dec_digits (unat b)) [b0, b1, b2, b3]"
    unfolding show_ipv4_def p by (rule split_join) auto
  then have "parse_ipv4 (show_ipv4 a) = Some (of_nat (from_bytes [b0, b1, b2, b3]))"
    by (simp add: parse_ipv4_def oct)
  also have "of_nat (from_bytes [b0, b1, b2, b3]) = ipv4_of_bytes (ipv4_packed a)"
    by (simp add: ipv4_of_bytes_def p)
  finally show ?thesis by simp
qed

theorem show_parse_ipv4:
  assumes "parse_ipv4 s = Some a"
  shows "show_ipv4 a = s"
proof -
  from assms obtain w x y z w' x' y' z' where
    s: "split_on 46 s = [w, x, y, z]" and
    o: "parse_octet w = Some w'" "parse_octet x = Some x'" "parse_octet y = Some y'" "parse_octet z = Some z'"
    and a: "a = of_nat (from_bytes (map of_nat [w', x', y', z']))"
    by (auto simp: parse_ipv4_def split: list.splits option.splits)
  have "ipv4_packed a = map of_nat [w', x', y', z']"
    unfolding a using ipv4_packed_of_bytes [of "map of_nat [w', x', y', z']"]
    by (simp add: ipv4_of_bytes_def)
  then have "show_ipv4 a = join_dots (map dec_digits [w', x', y', z'])"
    using o by (auto simp: show_ipv4_def unat_of_nat_byte dest!: parse_octet_Some(1))
  also have "map dec_digits [w', x', y', z'] = split_on 46 s"
    using o s by (auto dest: parse_octet_Some(2))
  finally show ?thesis by (simp add: join_split)
qed

section \<open>Fixed-width codecs\<close>

text \<open>An encoder that fails on what it cannot write, a decoder of one item, and the width of
  every encoding. The laws suffice to cut a concatenation back into its items.\<close>

locale fixed_codec =
  fixes enc :: "'a \<Rightarrow> pyexn + bytes" and dec :: "bytes \<Rightarrow> pyexn + 'a" and width :: nat
  assumes width_pos: "0 < width"
    and enc_width: "enc x = Inr b \<Longrightarrow> length b = width"
    and dec_enc: "enc x = Inr b \<Longrightarrow> dec b = Inr x"
begin

lemma enc_inject: "enc x = Inr b \<Longrightarrow> enc y = Inr b \<Longrightarrow> x = y"
  by (drule dec_enc, drule dec_enc) simp

lemma length_concat: "list_all2 (\<lambda>x b. enc x = Inr b) xs bs \<Longrightarrow> length (concat bs) = width * length xs"
  by (induction rule: list_all2_induct) (auto simp: enc_width)

lemma chunks_concat: "list_all2 (\<lambda>x b. enc x = Inr b) xs bs \<Longrightarrow> chunks width (concat bs) = bs"
proof (induction rule: list_all2_induct)
  case Nil
  then show ?case by (simp add: chunks.simps)
next
  case (Cons x xs b bs)
  then have "length b = width" by (simp add: enc_width)
  with Cons width_pos show ?case by (subst chunks.simps) auto
qed

lemma decode_concat:
  "list_all2 (\<lambda>x b. enc x = Inr b) xs bs \<Longrightarrow> map dec (chunks width (concat bs)) = map Inr xs"
  by (simp add: chunks_concat) (induction rule: list_all2_induct, auto simp: dec_enc)

end

lemma parse_compact_peer_append:
  "length a = 4 \<Longrightarrow> length p = 2 \<Longrightarrow>
    parse_compact_peer (a @ p) = Inr (show_ipv4 (ipv4_of_bytes a), int (from_bytes p))"
  by (simp add: parse_compact_peer_def COMPACT_IPV4_PEER_BYTES_def)

lemma compact_peer_Inr:
  assumes "compact_peer (ip, port) = Inr b"
  obtains a where "parse_ipv4 ip = Some a" and "valid_port port"
    and "b = ipv4_packed a @ to_bytes 2 (nat port)"
  using assms by (auto simp: compact_peer_def split: option.splits if_splits)

lemma port_bytes:
  "valid_port port \<Longrightarrow> int (from_bytes (to_bytes 2 (nat port))) = port"
  by (subst from_bytes_to_bytes) (auto simp: valid_port_def)

interpretation peer: fixed_codec compact_peer parse_compact_peer COMPACT_IPV4_PEER_BYTES
proof
  fix x b assume e: "compact_peer x = Inr b"
  obtain ip port where x: "x = (ip, port)" by (cases x)
  obtain a where a: "parse_ipv4 ip = Some a" "valid_port port"
    "b = ipv4_packed a @ to_bytes 2 (nat port)"
    using e x compact_peer_Inr by blast
  show "length b = COMPACT_IPV4_PEER_BYTES" using a by (simp add: COMPACT_IPV4_PEER_BYTES_def)
  show "parse_compact_peer b = Inr x"
    using a x parse_compact_peer_append [of "ipv4_packed a" "to_bytes 2 (nat port)"]
    by (simp add: port_bytes show_parse_ipv4 del: to_bytes_numeral)
qed (simp add: COMPACT_IPV4_PEER_BYTES_def)

definition compact_node_entry :: "bytes \<times> atext \<times> int \<Rightarrow> pyexn + bytes" where
  "compact_node_entry = (\<lambda>(node_id, ip, port). compact_node node_id (ip, port))"

interpretation node: fixed_codec compact_node_entry "\<lambda>b. Inr (parse_node4 b)" COMPACT_IPV4_NODE_BYTES
proof
  fix x b assume e: "compact_node_entry x = Inr b"
  obtain i ip port where x: "x = (i, ip, port)" by (cases x)
  obtain p where p: "length i = 20" "compact_peer (ip, port) = Inr p" "b = i @ p"
    using e x by (auto simp: compact_node_entry_def compact_node_def bind_r_Inr_iff split: if_splits)
  obtain a where a: "parse_ipv4 ip = Some a" "valid_port port"
    "p = ipv4_packed a @ to_bytes 2 (nat port)"
    using p(2) by (rule compact_peer_Inr)
  show "length b = COMPACT_IPV4_NODE_BYTES"
    using p a by (simp add: COMPACT_IPV4_NODE_BYTES_def)
  show "Inr (parse_node4 b) = Inr x"
    using p a x by (simp add: parse_node4_def slice_def show_parse_ipv4 port_bytes del: to_bytes_numeral)
qed (simp add: COMPACT_IPV4_NODE_BYTES_def)


lemma list_all2_entry:
  "list_all2 (\<lambda>(i, ip, port) b. compact_node i (ip, port) = Inr b) ns bs
   \<longleftrightarrow> list_all2 (\<lambda>n b. compact_node_entry n = Inr b) ns bs"
  by (simp add: compact_node_entry_def case_prod_unfold)

lemma parse_compact_nodes_concat:
  assumes "list_all2 (\<lambda>n b. compact_node_entry n = Inr b) ns bs"
  shows "parse_compact_nodes (concat bs) 4 = Inr ns"
proof -
  have "map Inr (map parse_node4 (chunks COMPACT_IPV4_NODE_BYTES (concat bs))) = map (Inr :: _ \<Rightarrow> pyexn + _) ns"
    using node.decode_concat [OF assms] by (simp add: comp_def)
  then have "map parse_node4 (chunks COMPACT_IPV4_NODE_BYTES (concat bs)) = ns"
    by (simp only: inj_map_eq_map [OF inj_Inr])
  then show ?thesis
    using node.length_concat [OF assms] by (simp add: parse_compact_nodes_def)
qed

section \<open>The XOR metric\<close>

lemma xor_le_add: "a XOR b \<le> a + (b :: nat)"
proof (induction a arbitrary: b rule: less_induct)
  case (less a)
  show ?case
  proof (cases "a = 0")
    case False
    then have "(a div 2) XOR (b div 2) \<le> a div 2 + b div 2" by (intro less.IH) simp
    moreover have "a XOR b = of_bool (odd a \<noteq> odd b) + 2 * ((a div 2) XOR (b div 2))"
      by (rule xor_rec)
    ultimately show ?thesis by (cases "odd a"; cases "odd b") (auto elim!: oddE evenE)
  qed simp
qed

lemma xor_triangle: "a XOR c \<le> (a XOR b) + (b XOR (c :: nat))"
proof -
  have "b XOR (b XOR c) = c" by (simp flip: xor.assoc)
  then have "(a XOR b) XOR (b XOR c) = a XOR c" by (simp only: xor.assoc)
  then show ?thesis using xor_le_add [of "a XOR b" "b XOR c"] by simp
qed

lemma xor_less_exp: "a < 2 ^ n \<Longrightarrow> b < 2 ^ n \<Longrightarrow> a XOR b < (2 :: nat) ^ n"
  by (metis take_bit_nat_eq_self_iff take_bit_xor)

lemma xor_eq_0_iff: "a XOR b = 0 \<longleftrightarrow> a = (b :: nat)"
proof
  assume "a XOR b = 0"
  then have "(a XOR b) XOR b = b" by simp
  then show "a = b" by (simp add: xor.assoc)
qed simp

lemma xor_cancel_left: "a XOR b = a XOR c \<longleftrightarrow> b = (c :: nat)"
  by (metis xor.left_commute xor_self_eq xor.right_neutral)

lemma xor_distance_inj:
  "length a = 20 \<Longrightarrow> length b = 20 \<Longrightarrow> length t = 20 \<Longrightarrow>
    from_bytes a XOR from_bytes t = from_bytes b XOR from_bytes t \<longleftrightarrow> a = b"
  by (metis xor_cancel_left xor.commute from_bytes_inject)


section \<open>Properties\<close>

text \<open>IPv4 text: \<open>ip_address\<close> accepts exactly the dotted form that \<open>str\<close> writes, so every
  address has one accepted spelling (no leading zeros, no other forms).\<close>

theorem ipv4_text_bijection: "parse_ipv4 s = Some a \<longleftrightarrow> s = show_ipv4 a"
  using parse_show_ipv4 show_parse_ipv4 by blast

text \<open>Compact node lists: concatenating the encodings of any contacts and parsing the result
  gives the contacts back, in order.\<close>

theorem compact_nodes_roundtrip:
  assumes "list_all2 (\<lambda>(i, ip, port) b. compact_node i (ip, port) = Inr b) ns bs"
  shows "parse_compact_nodes (concat bs) 4 = Inr ns"
  using assms unfolding list_all2_entry by (rule parse_compact_nodes_concat)

lemma compact_nodes_roundtrip_witness:
  "parse_compact_nodes (replicate 20 7 @ [0, 0, 0, 0, 26, 225]) 4 =
    Inr [(replicate 20 7, ascii ''0.0.0.0'', 6881)]"
proof -
  have "parse_ipv4 (ascii ''0.0.0.0'') = Some 0"
    by (simp add: parse_ipv4_def parse_octet_def byte_eval)
  then have "compact_node (replicate 20 7) (ascii ''0.0.0.0'', 6881) = Inr (replicate 20 7 @ [0, 0, 0, 0, 26, 225])"
    by (simp add: compact_node_def compact_peer_def valid_port_def ipv4_packed_def)
  then show ?thesis
    using compact_nodes_roundtrip [of "[(replicate 20 7, ascii ''0.0.0.0'', 6881)]"
        "[replicate 20 7 @ [0, 0, 0, 0, 26, 225]]"] by simp
qed

text \<open>XOR distance is a metric on node identifiers that determines the other end: it is
  symmetric, zero exactly on equal identifiers, obeys the triangle inequality, and two
  identifiers at the same distance from a third are equal.\<close>

theorem xor_distance_metric:
  assumes "length a = 20" and "length b = 20" and "length c = 20"
  shows "\<exists>ab bc ac. xor_distance a b = Inr ab \<and> xor_distance b c = Inr bc \<and> xor_distance a c = Inr ac
    \<and> xor_distance b a = Inr ab \<and> (ab = 0 \<longleftrightarrow> a = b) \<and> ac \<le> ab + bc
    \<and> (ac = bc \<longleftrightarrow> a = b) \<and> ab < DHT_ID_SPACE"
proof -
  have "from_bytes a XOR from_bytes b < 2 ^ 160"
    using from_bytes_less [of a] from_bytes_less [of b] assms
    by (intro xor_less_exp) simp_all
  moreover have "from_bytes a XOR from_bytes b = 0 \<longleftrightarrow> a = b"
    using assms by (simp add: xor_eq_0_iff from_bytes_inject)
  ultimately show ?thesis
    using assms xor_triangle [of "from_bytes a" "from_bytes c" "from_bytes b"] xor_distance_inj [of a b c]
    by (simp add: xor_distance_def DHT_ID_SPACE_def xor.commute)
qed

lemma xor_distance_metric_witness:
  "\<exists>d. xor_distance (replicate 20 1) (replicate 20 2) = Inr d \<and> d \<noteq> 0 \<and> d < DHT_ID_SPACE"
proof -
  have "replicate 20 (1 :: byte) \<noteq> replicate 20 2" by simp
  with xor_distance_metric [of "replicate 20 1" "replicate 20 2" "replicate 20 3"] show ?thesis
    by auto
qed

end
