(* ===== verification/Routing_Correct.thy ===== *)
theory Routing_Correct
  imports Routing Net_Correct
begin

text \<open>
  The invariant of the routing table and its preservation. \<open>chain\<close>: the buckets partition the
  identifier space in order. \<open>bucket_wf\<close>: a bucket holds at most \<open>DHT_K\<close> contacts and
  replacements of its own range, no identifier twice (not even once as a contact and once as a
  replacement), and replacements only while it is full of contacts none of which is bad.
  \<open>halving\<close>: the bucket of the local identifier is a power of two wide and every split halved
  it, which bounds the number of buckets.
\<close>

section \<open>The invariant\<close>

fun chain :: "nat \<Rightarrow> nat \<Rightarrow> bucket list \<Rightarrow> bool" where
  "chain lo hi [] = (lo = hi)"
| "chain lo hi (b # bs) = (low b = lo \<and> lo < high b \<and> chain (high b) hi bs)"

definition ids :: "bucket \<Rightarrow> bytes list" where
  "ids b = map node_id (contacts b @ replacements b)"

definition member_ok :: "bytes \<Rightarrow> bucket \<Rightarrow> bytes \<Rightarrow> bool" where
  "member_ok local_id b nid \<longleftrightarrow> length nid = 20 \<and> contains b nid \<and> nid \<noteq> local_id"

definition bucket_wf :: "config \<Rightarrow> bytes \<Rightarrow> bucket \<Rightarrow> bool" where
  "bucket_wf cfg local_id b \<longleftrightarrow>
     distinct (ids b) \<and> list_all (member_ok local_id b) (ids b)
     \<and> length (contacts b) \<le> DHT_K \<and> length (replacements b) \<le> DHT_K
     \<and> list_all (\<lambda>c. failures c = 0) (replacements b)
     \<and> (replacements b \<noteq> [] \<longrightarrow>
          length (contacts b) = DHT_K \<and> list_all (\<lambda>c. \<not> is_bad cfg c) (contacts b)
          \<and> \<not> contains b local_id)"

definition halving :: "table \<Rightarrow> bool" where
  "halving t \<longleftrightarrow>
     (\<exists>e. list_all (\<lambda>b. contains b (local_node_id t) \<longrightarrow> high b = low b + 2 ^ e) (buckets t)
          \<and> length (buckets t) + e = 161 \<and> 3 \<le> e)"

definition table_wf :: "config \<Rightarrow> table \<Rightarrow> bool" where
  "table_wf cfg t \<longleftrightarrow>
     length (local_node_id t) = 20 \<and> chain 0 DHT_ID_SPACE (buckets t)
     \<and> list_all (bucket_wf cfg (local_node_id t)) (buckets t) \<and> halving t"

section \<open>Chains\<close>

lemma chain_le: "chain lo hi bs \<Longrightarrow> lo \<le> hi"
  by (induction bs arbitrary: lo) fastforce+

lemma chain_bounds: "chain lo hi bs \<Longrightarrow> b \<in> set bs \<Longrightarrow> lo \<le> low b \<and> low b < high b \<and> high b \<le> hi"
  by (induction bs arbitrary: lo) (fastforce dest: chain_le)+

lemma chain_append: "chain lo hi (xs @ ys) \<longleftrightarrow> (\<exists>m. chain lo m xs \<and> chain m hi ys)"
  by (induction xs arbitrary: lo) auto

lemma bucket_index_Some:
  assumes "bucket_index bs v = Some i"
  shows "i < length bs" and "low (bs ! i) \<le> v" and "v < high (bs ! i)"
proof -
  have "i < length bs \<and> low (bs ! i) \<le> v \<and> v < high (bs ! i)"
    using assms by (induction bs arbitrary: i) (auto split: if_splits)
  then show "i < length bs" "low (bs ! i) \<le> v" "v < high (bs ! i)" by auto
qed

lemma chain_covers: "chain lo hi bs \<Longrightarrow> lo \<le> v \<Longrightarrow> v < hi \<Longrightarrow> \<exists>i. bucket_index bs v = Some i"
  by (induction bs arbitrary: lo) auto

lemma chain_index_unique:
  assumes "chain lo hi bs" and "j < length bs" and "low (bs ! j) \<le> v" and "v < high (bs ! j)"
  shows "bucket_index bs v = Some j"
  using assms
proof (induction bs arbitrary: lo j)
  case (Cons b bs)
  show ?case
  proof (cases j)
    case 0
    with Cons.prems show ?thesis by simp
  next
    case (Suc k)
    with Cons.prems have "bs ! k \<in> set bs" and rest: "chain (high b) hi bs" by auto
    then have "high b \<le> low (bs ! k)" using chain_bounds by blast
    with Cons Suc rest show ?thesis by auto
  qed
qed simp

lemma chain_disjoint:
  assumes "chain lo hi bs" and "i < length bs" and "j < length bs"
    and "contains (bs ! i) nid" and "contains (bs ! j) nid"
  shows "i = j"
proof -
  have "bucket_index bs (from_bytes nid) = Some i" "bucket_index bs (from_bytes nid) = Some j"
    using assms by (auto simp: contains_def intro!: chain_index_unique)
  then show ?thesis by simp
qed

lemma node_id_in_space: "length nid = 20 \<Longrightarrow> from_bytes nid < DHT_ID_SPACE"
  using from_bytes_less [of nid] by (simp add: DHT_ID_SPACE_def)

lemma chain_update:
  "chain lo hi bs \<Longrightarrow> low b = low (bs ! i) \<Longrightarrow> high b = high (bs ! i) \<Longrightarrow> chain lo hi (bs[i := b])"
  by (induction bs arbitrary: lo i) (auto split: nat.splits)

lemma bucket_for_wf:
  assumes "chain 0 DHT_ID_SPACE (buckets t)" and "length nid = 20"
  obtains i where "bucket_for t nid = Inr i" and "i < length (buckets t)"
    and "contains (buckets t ! i) nid"
proof -
  obtain i where i: "bucket_index (buckets t) (from_bytes nid) = Some i"
    using chain_covers [OF assms(1) _ node_id_in_space [OF assms(2)]] by auto
  with bucket_index_Some [OF i] that [of i] show thesis
    by (simp add: bucket_for_def contains_def)
qed

lemma bucket_for_Inr:
  assumes "bucket_for t nid = Inr i"
  shows "i < length (buckets t)" and "contains (buckets t ! i) nid"
  using assms bucket_index_Some
  by (fastforce simp: bucket_for_def contains_def split: option.splits)+

section \<open>Frame: events do not matter\<close>

lemma emit_simps [simp]:
  "buckets (emit cfg now n c b p t) = buckets t"
  "local_node_id (emit cfg now n c b p t) = local_node_id t"
  by (simp_all add: emit_def)

lemma set_bucket_simps [simp]:
  "buckets (set_bucket i b t) = (buckets t)[i := b]"
  "local_node_id (set_bucket i b t) = local_node_id t"
  by (simp_all add: set_bucket_def)

lemma table_wf_cong:
  "buckets t = buckets t' \<Longrightarrow> local_node_id t = local_node_id t' \<Longrightarrow> table_wf cfg t = table_wf cfg t'"
  by (simp add: table_wf_def halving_def)

lemma table_wf_emit [simp]: "table_wf cfg (emit cfg' now n c b p t) = table_wf cfg t"
  by (rule table_wf_cong) simp_all

lemma bucket_for_emit [simp]: "bucket_for (emit cfg now n c b p t) nid = bucket_for t nid"
  by (simp add: bucket_for_def)

text \<open>Replacing one bucket by a well-formed one of the same range.\<close>

lemma table_wf_set_bucket:
  assumes "table_wf cfg t" and "i < length (buckets t)" and "bucket_wf cfg (local_node_id t) b"
    and "low b = low (buckets t ! i)" and "high b = high (buckets t ! i)"
  shows "table_wf cfg (set_bucket i b t)"
proof -
  have same: "contains b nid = contains (buckets t ! i) nid" for nid
    using assms(4,5) by (simp add: contains_def)
  have upd: "list_all P ((buckets t)[i := b])" if "list_all P (buckets t)" "P b" for P
    using that by (auto simp: list_all_iff dest!: set_update_subset_insert [THEN subsetD])
  obtain e where e: "list_all (\<lambda>b. contains b (local_node_id t) \<longrightarrow> high b = low b + 2 ^ e) (buckets t)"
    "length (buckets t) + e = 161" "3 \<le> e"
    using assms(1) by (auto simp: table_wf_def halving_def)
  have "list_all (\<lambda>b. contains b (local_node_id t) \<longrightarrow> high b = low b + 2 ^ e) ((buckets t)[i := b])"
    using e(1) assms(2,4,5) same by (intro upd) (auto simp: list_all_length)
  then have "halving (set_bucket i b t)" using e by (auto simp: halving_def)
  moreover have "list_all (bucket_wf cfg (local_node_id t)) ((buckets t)[i := b])"
    using assms(1,3) by (intro upd) (auto simp: table_wf_def)
  moreover have "chain 0 DHT_ID_SPACE ((buckets t)[i := b])"
    using assms by (intro chain_update) (auto simp: table_wf_def)
  ultimately show ?thesis using assms(1) by (simp add: table_wf_def)
qed


section \<open>Splitting\<close>

lemma bucket_room:
  assumes "bucket_wf cfg local_id b" and "length local_id = 20" and "contains b local_id"
  shows "length (contacts b) < high b - low b"
proof -
  let ?ids = "local_id # map node_id (contacts b)"
  have ok: "\<forall>n \<in> set ?ids. length n = 20 \<and> contains b n" and d: "distinct ?ids"
    using assms by (auto simp: bucket_wf_def ids_def member_ok_def list_all_iff)
  then have "inj_on from_bytes (set ?ids)"
  proof (intro inj_onI)
    fix x y assume xy: "x \<in> set ?ids" "y \<in> set ?ids" "from_bytes x = from_bytes y"
    from ok xy(1,2) have "length x = 20" "length y = 20" by blast+
    with xy(3) show "x = y" by (simp add: from_bytes_inject)
  qed
  then have "card (from_bytes ` set ?ids) = length ?ids"
    using d by (simp only: card_image distinct_card)
  moreover have "from_bytes ` set ?ids \<subseteq> {low b..<high b}"
    using ok by (auto simp: contains_def)
  then have "card (from_bytes ` set ?ids) \<le> high b - low b"
    by (metis card_atLeastLessThan card_mono finite_atLeastLessThan)
  ultimately show ?thesis by simp
qed

lemma no_replacements_local:
  "bucket_wf cfg local_id b \<Longrightarrow> contains b local_id \<Longrightarrow> replacements b = []"
  by (auto simp: bucket_wf_def)

lemma new_bucket_simps [simp]:
  "low (new_bucket lo hi n) = lo" "high (new_bucket lo hi n) = hi"
  "contacts (new_bucket lo hi n) = []" "replacements (new_bucket lo hi n) = []"
  by (simp_all add: new_bucket_def)

lemma contains_new_bucket [simp]:
  "contains (new_bucket lo hi n) nid \<longleftrightarrow> lo \<le> from_bytes nid \<and> from_bytes nid < hi"
  by (simp add: contains_def)

lemma contains_update [simp]:
  "contains (b\<lparr>contacts := cs\<rparr>) nid = contains b nid"
  "contains (b\<lparr>replacements := cs\<rparr>) nid = contains b nid"
  "contains (b\<lparr>last_changed_ns := n\<rparr>) nid = contains b nid"
  by (simp_all add: contains_def)

lemma split_halves_local:
  assumes "replacements b = []" and "split_halves n1 n2 b = (l, r)"
  shows "low l = low b" and "high l = (low b + high b) div 2"
    and "low r = (low b + high b) div 2" and "high r = high b"
    and "contacts l = filter (contains l \<circ> node_id) (contacts b)"
    and "contacts r = filter (\<lambda>c. \<not> contains l (node_id c)) (contacts b)"
    and "replacements l = []" and "replacements r = []"
  using assms by (auto simp: split_halves_def Let_def comp_def)

lemma split_halves_wf:
  assumes wf: "bucket_wf cfg local_id b" and loc: "contains b local_id"
    and h: "split_halves n1 n2 b = (l, r)"
  shows "bucket_wf cfg local_id l" and "bucket_wf cfg local_id r"
proof -
  note s = split_halves_local [OF no_replacements_local [OF wf loc] h]
  have right: "contains r n" if "contains b n" "\<not> contains l n" for n
    using that s(1-4) by (auto simp: contains_def)
  have len: "length (filter P (contacts b)) \<le> DHT_K" for P
    using wf le_trans [OF length_filter_le] by (auto simp: bucket_wf_def)
  have d: "distinct (map node_id (filter P (contacts b)))" for P
    using wf by (auto simp: bucket_wf_def ids_def distinct_map intro: inj_on_subset)
  have m: "length (node_id c) = 20 \<and> contains b (node_id c) \<and> node_id c \<noteq> local_id"
    if "c \<in> set (contacts b)" for c
    using wf that by (auto simp: bucket_wf_def ids_def member_ok_def list_all_iff)
  show "bucket_wf cfg local_id l"
    using s(5,7) d len m by (auto simp: bucket_wf_def ids_def member_ok_def list_all_iff)
  show "bucket_wf cfg local_id r"
    using s(6,8) d len m right by (auto simp: bucket_wf_def ids_def member_ok_def list_all_iff)
qed

lemma split_simps:
  assumes "split_halves (clk k) (clk (k + 1)) (buckets t ! i) = (l, r)"
  shows "buckets (split cfg clk k i t) = take i (buckets t) @ [l, r] @ drop (i + 1) (buckets t)"
    and "local_node_id (split cfg clk k i t) = local_node_id t"
  using assms by (simp_all add: split_def)

lemma local_node_id_split [simp]: "local_node_id (split cfg clk k i t) = local_node_id t"
  by (simp add: split_def case_prod_unfold Let_def)

lemma split_wf:
  assumes wf: "table_wf cfg t" and i: "i < length (buckets t)"
    and full: "DHT_K \<le> length (contacts (buckets t ! i))"
    and loc: "contains (buckets t ! i) (local_node_id t)"
  shows "table_wf cfg (split cfg clk k i t)"
proof -
  let ?b = "buckets t ! i" and ?local = "local_node_id t"
  obtain l r where h: "split_halves (clk k) (clk (k + 1)) ?b = (l, r)" by fastforce
  have bs: "buckets t = take i (buckets t) @ ?b # drop (i + 1) (buckets t)"
    using i by (simp add: id_take_nth_drop)
  have bwf: "bucket_wf cfg ?local ?b" using wf i by (simp add: table_wf_def list_all_length)
  note s = split_halves_local [OF no_replacements_local [OF bwf loc] h]
  obtain e where e: "list_all (\<lambda>b. contains b ?local \<longrightarrow> high b = low b + 2 ^ e) (buckets t)"
    "length (buckets t) + e = 161" "3 \<le> e"
    using wf by (auto simp: table_wf_def halving_def)
  have width: "high ?b = low ?b + 2 ^ e" using e(1) i loc by (auto simp: list_all_length)
  have "8 < (2 :: nat) ^ e"
    using bucket_room [OF bwf _ loc] wf full width by (simp add: table_wf_def DHT_K_def)
  then have e4: "4 \<le> e" using power_increasing [of e 3 "2 :: nat"] by (cases "e \<le> 3") auto
  then obtain e' where e': "e = Suc e'" by (cases e) auto
  then have mid: "(low ?b + high ?b) div 2 = low ?b + 2 ^ e'" using width by simp
  have others: "\<not> contains b ?local" if "b \<in> set (take i (buckets t)) \<or> b \<in> set (drop (i + 1) (buckets t))" for b
  proof
    assume c: "contains b ?local"
    from that obtain j where j: "j < length (buckets t)" "b = buckets t ! j" "j \<noteq> i"
    proof
      assume "b \<in> set (take i (buckets t))"
      then show thesis using that by (auto simp: in_set_conv_nth)
    next
      assume "b \<in> set (drop (i + 1) (buckets t))"
      then obtain m where "m < length (buckets t) - (i + 1)" "b = buckets t ! (i + 1 + m)"
        using i by (auto simp: in_set_conv_nth)
      then show thesis using that [of "i + 1 + m"] by simp
    qed
    with c loc i wf chain_disjoint [of 0 DHT_ID_SPACE "buckets t" i j ?local] show False
      by (auto simp: table_wf_def)
  qed
  have "halving (split cfg clk k i t)"
    unfolding halving_def split_simps(1) [OF h]
    using s mid width e' e4 e(2) others i
    by (intro exI [of _ e']) (auto simp: list_all_iff)
  moreover have "chain 0 DHT_ID_SPACE (take i (buckets t) @ ?b # drop (i + 1) (buckets t))"
    using wf unfolding bs [symmetric] by (simp add: table_wf_def)
  then have "chain 0 DHT_ID_SPACE (buckets (split cfg clk k i t))"
    using s mid width e' by (auto simp: split_simps(1) [OF h] chain_append)
  moreover have "list_all (bucket_wf cfg ?local) (buckets (split cfg clk k i t))"
    using wf split_halves_wf [OF bwf loc h]
    by (auto simp: split_simps(1) [OF h] table_wf_def list_all_iff dest: in_set_takeD in_set_dropD)
  ultimately show ?thesis using wf by (simp add: table_wf_def)
qed


lemma set_split_halves:
  assumes "replacements b = []" and "split_halves n1 n2 b = (l, r)"
  shows "set (contacts l) \<union> set (contacts r) = set (contacts b)"
  using split_halves_local(5,6) [OF assms] by auto

lemma all_contacts_split:
  assumes "table_wf cfg t" and "i < length (buckets t)" and "contains (buckets t ! i) (local_node_id t)"
  shows "set (all_contacts (split cfg clk k i t)) = set (all_contacts t)"
proof -
  let ?b = "buckets t ! i"
  obtain l r where h: "split_halves (clk k) (clk (k + 1)) ?b = (l, r)" by fastforce
  have "bucket_wf cfg (local_node_id t) ?b" using assms by (simp add: table_wf_def list_all_length)
  note lr = set_split_halves [OF no_replacements_local [OF this assms(3)] h]
  have bs: "concat (map contacts (buckets t)) =
      concat (map contacts (take i (buckets t) @ ?b # drop (i + 1) (buckets t)))"
    using assms(2) by (simp flip: id_take_nth_drop)
  show ?thesis unfolding all_contacts_def split_simps(1) [OF h] bs using lr by auto
qed

lemma length_buckets_split:
  "i < length (buckets t) \<Longrightarrow> length (buckets (split cfg clk k i t)) = Suc (length (buckets t))"
  by (simp add: split_def case_prod_unfold Let_def)

lemma bucket_count: "table_wf cfg t \<Longrightarrow> length (buckets t) \<le> 158"
  by (auto simp: table_wf_def halving_def)

text \<open>The split loop ends: every round adds a bucket, and there are at most 158.\<close>

lemma split_loop_total:
  assumes "table_wf cfg t" and "length nid = 20" and "bucket_for t nid = Inr i"
  shows "\<exists>t' i' k'. split_loop cfg clk nid k i t = Some (Inr (t', i', k')) \<and> table_wf cfg t'
    \<and> local_node_id t' = local_node_id t \<and> bucket_for t' nid = Inr i'
    \<and> \<not> (DHT_K \<le> length (contacts (buckets t' ! i')) \<and> contains (buckets t' ! i') (local_node_id t'))
    \<and> set (all_contacts t') = set (all_contacts t)"
  using assms
proof (induction "158 - length (buckets t)" arbitrary: t i k rule: less_induct)
  case less
  show ?case
  proof (cases "DHT_K \<le> length (contacts (buckets t ! i)) \<and> contains (buckets t ! i) (local_node_id t)")
    case False
    with less.prems show ?thesis by (subst split_loop.simps) auto
  next
    case True
    let ?t = "split cfg clk k i t"
    have i: "i < length (buckets t)" using less.prems(3) by (rule bucket_for_Inr)
    have wf: "table_wf cfg ?t" using split_wf [OF less.prems(1) i] True by blast
    obtain j where j: "bucket_for ?t nid = Inr j"
      using bucket_for_wf wf less.prems(2) by (metis table_wf_def)
    have "158 - length (buckets ?t) < 158 - length (buckets t)"
      using bucket_count [OF wf] length_buckets_split [OF i, of cfg clk k] by linarith
    from less.hyps [OF this wf less.prems(2) j, of "k + 2"] True j
      all_contacts_split [OF less.prems(1) i, of clk k]
    show ?thesis by (subst split_loop.simps) auto
  qed
qed

section \<open>Contacts of a bucket\<close>

lemma state_BAD_iff [simp]: "state cfg now c = BAD \<longleftrightarrow> is_bad cfg c"
  by (simp add: state_def Let_def)

lemma first_bad_find: "first_bad cfg clk k cs = List.find (is_bad cfg) cs"
  by (induction cs arbitrary: k) auto

lemma find_Some_iff:
  "List.find P xs = Some x \<Longrightarrow> x \<in> set xs \<and> P x"
  by (induction xs) (auto split: if_splits)

lemma find_None_all: "List.find P xs = None \<longleftrightarrow> list_all (\<lambda>x. \<not> P x) xs"
  by (induction xs) auto

lemma ids_update_first:
  "node_id y = nid \<Longrightarrow> map node_id (update_first (\<lambda>x. node_id x = nid) y xs) = map node_id xs"
  by (induction xs) auto

lemma set_update_first_subset: "set (update_first p y xs) \<subseteq> insert y (set xs)"
  by (induction xs) auto

lemma update_first_mem: "x \<in> set xs \<Longrightarrow> p x \<Longrightarrow> y \<in> set (update_first p y xs)"
  by (induction xs) auto

lemma length_update_first [simp]: "length (update_first p y xs) = length xs"
  by (induction xs) auto

lemma update_first_keeps: "x \<in> set xs \<Longrightarrow> \<not> p x \<Longrightarrow> x \<in> set (update_first p y xs)"
  by (induction xs) auto

lemma node_id_refresh [simp]: "node_id (refresh clk ip port d inc ro ver c) = node_id c"
  by (simp add: refresh_def Let_def)

lemma failures_refresh: "failures (refresh clk ip port d inc ro ver c) = (if d then 0 else failures c)"
  by (simp add: refresh_def Let_def)

lemma is_bad_refresh:
  "0 < DHT_ROUTING_BAD_AFTER_FAILURES cfg \<Longrightarrow> is_bad cfg (refresh clk ip port d inc ro ver c) \<Longrightarrow> is_bad cfg c"
  by (auto simp: is_bad_def failures_refresh split: if_splits)

lemma bucket_wf_update_contact:
  assumes "bucket_wf cfg local_id b" and "node_id c = nid"
    and "is_bad cfg c \<Longrightarrow> (\<exists>x \<in> set (contacts b). is_bad cfg x) \<or> replacements b = []"
  shows "bucket_wf cfg local_id (b\<lparr>contacts := update_first (\<lambda>x. node_id x = nid) c (contacts b)\<rparr>)"
  using assms set_update_first_subset [of "\<lambda>x. node_id x = nid" c "contacts b"]
  by (auto simp: bucket_wf_def ids_def member_ok_def ids_update_first list_all_iff)

lemma bucket_wf_append:
  assumes "bucket_wf cfg local_id b" and "member_ok local_id b (node_id c)"
    and "node_id c \<notin> node_id ` set (contacts b)" and "length (contacts b) < DHT_K"
  shows "bucket_wf cfg local_id (b\<lparr>contacts := contacts b @ [c], last_changed_ns := n\<rparr>)"
  using assms by (auto simp: bucket_wf_def ids_def member_ok_def list_all_iff)

lemma bucket_wf_swap_bad:
  assumes "bucket_wf cfg local_id b" and "member_ok local_id b (node_id c)"
    and "node_id c \<notin> node_id ` set (contacts b)" and "bad \<in> set (contacts b)" and "is_bad cfg bad"
  shows "bucket_wf cfg local_id (b\<lparr>contacts := remove1 bad (contacts b) @ [c], last_changed_ns := n\<rparr>)"
proof -
  have none: "replacements b = []" using assms(1,4,5) by (auto simp: bucket_wf_def list_all_iff)
  have sub: "set (remove1 bad (contacts b)) \<subseteq> set (contacts b)" by (rule set_remove1_subset)
  have "distinct (map node_id (remove1 bad (contacts b)))"
    using assms(1) sub by (auto simp: bucket_wf_def ids_def distinct_map intro: inj_on_subset)
  moreover have "length (remove1 bad (contacts b)) < DHT_K"
    using assms(1,4) by (auto simp: bucket_wf_def length_remove1 DHT_K_def)
  ultimately show ?thesis
    using assms none sub by (auto simp: bucket_wf_def ids_def member_ok_def list_all_iff)
qed

lemma bucket_wf_replacement:
  assumes "bucket_wf cfg local_id b" and "member_ok local_id b (node_id c)"
    and "node_id c \<notin> node_id ` set (contacts b)" and "DHT_K \<le> length (contacts b)"
    and "\<not> contains b local_id" and "list_all (\<lambda>c. \<not> is_bad cfg c) (contacts b)"
    and "list_all (\<lambda>x. node_id x \<noteq> node_id c) (replacements b)" and "failures c = 0"
  shows "bucket_wf cfg local_id (b\<lparr>replacements :=
    (if DHT_K \<le> length (replacements b) then tl (replacements b) else replacements b) @ [c]\<rparr>)"
proof -
  have sub: "set (tl (replacements b)) \<subseteq> set (replacements b)"
    by (cases "replacements b") auto
  show ?thesis
  proof (cases "DHT_K \<le> length (replacements b)")
    case True
    have "distinct (map node_id (contacts b @ tl (replacements b)))"
      using assms(1) by (cases "replacements b") (auto simp: bucket_wf_def ids_def)
    with assms True sub show ?thesis
      by (auto simp: bucket_wf_def ids_def member_ok_def list_all_iff DHT_K_def)
  next
    case False
    with assms show ?thesis
      by (auto simp: bucket_wf_def ids_def member_ok_def list_all_iff)
  qed
qed


section \<open>The operations keep the invariant\<close>

lemma bucket_at_wf: "table_wf cfg t \<Longrightarrow> i < length (buckets t) \<Longrightarrow> bucket_wf cfg (local_node_id t) (buckets t ! i)"
  by (simp add: table_wf_def list_all_length)

lemma bucket_wf_last_changed [simp]:
  "bucket_wf cfg l (b\<lparr>last_changed_ns := n\<rparr>) = bucket_wf cfg l b"
  by (simp add: bucket_wf_def ids_def member_ok_def list_all_iff)

lemma place_wf:
  assumes wf: "table_wf cfg t" and i: "i < length (buckets t)"
    and c: "member_ok (local_node_id t) (buckets t ! i) (node_id c)"
    and new: "node_id c \<notin> node_id ` set (contacts (buckets t ! i))"
    and out: "DHT_K \<le> length (contacts (buckets t ! i)) \<Longrightarrow> \<not> contains (buckets t ! i) (local_node_id t)"
    and f: "failures c = 0"
  shows "table_wf cfg (place cfg clk c k i t)"
proof -
  let ?b = "buckets t ! i"
  note bwf = bucket_at_wf [OF wf i]
  consider (room) "length (contacts ?b) < DHT_K"
    | (bad) bad where "DHT_K \<le> length (contacts ?b)" "List.find (is_bad cfg) (contacts ?b) = Some bad"
    | (full) "DHT_K \<le> length (contacts ?b)" "List.find (is_bad cfg) (contacts ?b) = None"
    by (cases "List.find (is_bad cfg) (contacts ?b)"; cases "length (contacts ?b) < DHT_K")
      (auto simp: not_less)
  then show ?thesis
  proof cases
    case room
    then show ?thesis
      using table_wf_set_bucket [OF wf i bucket_wf_append [OF bwf c new room]]
      by (simp add: place_def Let_def)
  next
    case bad
    with find_Some_iff [OF bad(2)]
      table_wf_set_bucket [OF wf i bucket_wf_swap_bad [OF bwf c new, of bad]]
    show ?thesis by (simp add: place_def Let_def first_bad_find)
  next
    case full
    with out have "\<not> contains ?b (local_node_id t)" by blast
    moreover have "list_all (\<lambda>c. \<not> is_bad cfg c) (contacts ?b)"
      using full(2) by (simp add: find_None_all)
    ultimately show ?thesis
      using full f table_wf_set_bucket [OF wf i bucket_wf_replacement [OF bwf c new full(1)]] wf
      by (simp add: place_def Let_def first_bad_find split del: if_split)
        (simp split: if_split)
  qed
qed


lemma contacts_set_bucket_sub:
  "set (all_contacts (set_bucket i b t)) \<subseteq> set (all_contacts t) \<union> set (contacts b)"
  by (auto simp: all_contacts_def dest!: set_update_subset_insert [THEN subsetD])

lemma contacts_set_bucket_new:
  "i < length (buckets t) \<Longrightarrow> set (contacts b) \<subseteq> set (all_contacts (set_bucket i b t))"
  by (auto simp: all_contacts_def intro!: bexI [of _ b] set_update_memI)

lemma contacts_set_bucket_old:
  assumes "x \<in> set (all_contacts t)" and "i < length (buckets t)"
    and "x \<in> set (contacts (buckets t ! i)) \<Longrightarrow> x \<in> set (contacts b)"
  shows "x \<in> set (all_contacts (set_bucket i b t))"
proof -
  from assms(1) obtain j where j: "j < length (buckets t)" "x \<in> set (contacts (buckets t ! j))"
    by (auto simp: all_contacts_def in_set_conv_nth [of _ "buckets t"])
  show ?thesis
  proof (cases "j = i")
    case True
    with assms(2,3) j contacts_set_bucket_new show ?thesis by blast
  next
    case False
    then have "buckets t ! j \<in> set ((buckets t)[i := b])"
      using j(1) by (metis length_list_update nth_list_update_neq nth_mem)
    with j(2) show ?thesis by (auto simp: all_contacts_def)
  qed
qed

lemma all_contacts_emit [simp]: "all_contacts (emit cfg now n c b p t) = all_contacts t"
  by (simp add: all_contacts_def)

lemma place_bucket:
  assumes "i < length (buckets t)"
  obtains b where "all_contacts (place cfg clk c k i t) = all_contacts (set_bucket i b t)"
    and "set (contacts b) \<subseteq> insert c (set (contacts (buckets t ! i)))"
    and "\<And>x. x \<in> set (contacts (buckets t ! i)) \<Longrightarrow> \<not> is_bad cfg x \<Longrightarrow> x \<in> set (contacts b)"
proof -
  let ?b = "buckets t ! i"
  have id: "all_contacts t = all_contacts (set_bucket i ?b t)" by (simp add: all_contacts_def)
  show thesis
  proof (cases "length (contacts ?b) < DHT_K")
    case True
    show thesis by (rule that(1) [of "?b\<lparr>contacts := contacts ?b @ [c], last_changed_ns := clk k\<rparr>"])
        (use True in \<open>auto simp: place_def Let_def\<close>)
  next
    case False
    note full = this
    show thesis
    proof (cases "List.find (is_bad cfg) (contacts ?b)")
      case None
      show thesis
      proof (cases "list_all (\<lambda>x. node_id x \<noteq> node_id c) (replacements ?b)")
        case True
        with full None show thesis
          by (intro that(1) [of "?b\<lparr>replacements := (if DHT_K \<le> length (replacements ?b)
              then tl (replacements ?b) else replacements ?b) @ [c]\<rparr>"])
            (simp_all add: place_def Let_def first_bad_find subset_insertI)
      next
        case False
        with full None id show thesis
          by (intro that(1) [of ?b]) (auto simp: place_def Let_def first_bad_find)
      qed
    next
      case (Some bad)
      have "x \<in> set (remove1 bad (contacts ?b))" if "x \<in> set (contacts ?b)" "\<not> is_bad cfg x" for x
        using that find_Some_iff [OF Some] by (subst in_set_remove1) auto
      with full Some show thesis
        by (intro that(1) [of "?b\<lparr>contacts := remove1 bad (contacts ?b) @ [c],
              last_changed_ns := clk (k + length (contacts ?b))\<rparr>"])
          (auto simp: place_def Let_def first_bad_find
            dest: set_remove1_subset [THEN subsetD])
    qed
  qed
qed

lemma place_contacts:
  assumes i: "i < length (buckets t)"
  shows "set (all_contacts (place cfg clk c k i t)) \<subseteq> insert c (set (all_contacts t))"
    and "x \<in> set (all_contacts t) \<Longrightarrow> \<not> is_bad cfg x \<Longrightarrow> x \<in> set (all_contacts (place cfg clk c k i t))"
proof -
  obtain b where b: "all_contacts (place cfg clk c k i t) = all_contacts (set_bucket i b t)"
    "set (contacts b) \<subseteq> insert c (set (contacts (buckets t ! i)))"
    "\<And>x. x \<in> set (contacts (buckets t ! i)) \<Longrightarrow> \<not> is_bad cfg x \<Longrightarrow> x \<in> set (contacts b)"
    using place_bucket [OF i, where cfg = cfg and clk = clk and c = c and k = k] by metis
  have "set (contacts (buckets t ! i)) \<subseteq> set (all_contacts t)"
    using nth_mem [OF i] by (auto simp: all_contacts_def)
  with b(1,2) contacts_set_bucket_sub [of i b t]
  show "set (all_contacts (place cfg clk c k i t)) \<subseteq> insert c (set (all_contacts t))" by auto
  show "x \<in> set (all_contacts (place cfg clk c k i t))" if "x \<in> set (all_contacts t)" "\<not> is_bad cfg x"
    unfolding b(1) using b(3) that(2) by (intro contacts_set_bucket_old [OF that(1) i]) blast
qed

text \<open>What \<open>observe\<close> returns, and every effect it has on the contacts of the table.\<close>

lemma find_wf:
  assumes "table_wf cfg t" and "length nid = 20"
  obtains i where "bucket_for t nid = Inr i" and "i < length (buckets t)"
    and "find t nid = Inr (List.find (\<lambda>c. node_id c = nid) (contacts (buckets t ! i)))"
    and "contains (buckets t ! i) nid"
proof -
  obtain i where "bucket_for t nid = Inr i" "i < length (buckets t)" "contains (buckets t ! i) nid"
    using bucket_for_wf [of t nid] assms by (auto simp: table_wf_def)
  with that show thesis by (simp add: find_def)
qed

lemma new_contact_simps [simp]:
  "node_id (new_contact clk nid ip port d inc ro ver) = nid"
  "failures (new_contact clk nid ip port d inc ro ver) = 0"
  by (simp_all add: new_contact_def)

lemma find_id_None:
  "List.find (\<lambda>c. node_id c = nid) cs = None \<Longrightarrow> nid \<notin> node_id ` set cs"
  by (auto simp: find_None_all list_all_iff)

lemma find_contact_None:
  assumes "table_wf cfg t" and "find t nid = Inr None" and "length nid = 20"
    and "x \<in> set (all_contacts t)"
  shows "node_id x \<noteq> nid"
proof
  assume x: "node_id x = nid"
  obtain i where i: "i < length (buckets t)" "contains (buckets t ! i) nid"
    "find t nid = Inr (List.find (\<lambda>c. node_id c = nid) (contacts (buckets t ! i)))"
    using find_wf [OF assms(1,3)] by metis
  obtain j where j: "j < length (buckets t)" "x \<in> set (contacts (buckets t ! j))"
    using assms(4) by (auto simp: all_contacts_def in_set_conv_nth [of _ "buckets t"])
  then have "contains (buckets t ! j) nid"
    using bucket_at_wf [OF assms(1) j(1)] x
    by (auto simp: bucket_wf_def ids_def member_ok_def list_all_iff)
  with assms(1) i j(1) have "i = j" by (auto simp: table_wf_def dest: chain_disjoint)
  with i(3) assms(2) j(2) x find_id_None [of nid "contacts (buckets t ! i)"] show False by auto
qed

definition sighting_result :: "config \<Rightarrow> (nat \<Rightarrow> int) \<Rightarrow> table \<Rightarrow> bytes \<Rightarrow> atext \<Rightarrow> int \<Rightarrow> bool \<Rightarrow>
    bool \<Rightarrow> bool \<Rightarrow> bytes option \<Rightarrow> contact option" where
  "sighting_result cfg clk t nid ip port direct incoming ro ver =
     (if length nid \<noteq> 20 \<or> nid = local_node_id t then None
      else case find t nid of
        Inr (Some old) \<Rightarrow> Some (refresh clk ip port direct incoming ro ver old)
      | _ \<Rightarrow> Some (new_contact clk nid ip port direct incoming ro ver))"

lemma observe_known_spec:
  assumes wf: "table_wf cfg t" and pos: "0 < DHT_ROUTING_BAD_AFTER_FAILURES cfg"
    and i: "i < length (buckets t)"
    and f: "List.find (\<lambda>c. node_id c = nid) (contacts (buckets t ! i)) = Some old"
    and c: "c = refresh clk ip port direct incoming ro ver old"
  shows "table_wf cfg (observe_known cfg clk t i old c)"
    and "local_node_id (observe_known cfg clk t i old c) = local_node_id t"
    and "set (all_contacts (observe_known cfg clk t i old c)) \<subseteq> insert c (set (all_contacts t))"
    and "x \<in> set (all_contacts t) \<Longrightarrow> node_id x \<noteq> nid \<Longrightarrow>
      x \<in> set (all_contacts (observe_known cfg clk t i old c))"
    and "c \<in> set (all_contacts (observe_known cfg clk t i old c))"
proof -
  let ?b = "buckets t ! i"
  let ?b' = "?b\<lparr>contacts := update_first (\<lambda>x. node_id x = node_id old) c (contacts ?b)\<rparr>"
  have old: "old \<in> set (contacts ?b)" "node_id old = nid" using find_Some_iff [OF f] by auto
  have "bucket_wf cfg (local_node_id t) ?b'"
    using bucket_at_wf [OF wf i] old c
    by (intro bucket_wf_update_contact) (auto dest: is_bad_refresh [OF pos])
  with wf i have "table_wf cfg (set_bucket i ?b' t)" by (intro table_wf_set_bucket) auto
  then show "table_wf cfg (observe_known cfg clk t i old c)"
    by (simp add: observe_known_def Let_def)
  show "local_node_id (observe_known cfg clk t i old c) = local_node_id t"
    by (simp add: observe_known_def Let_def)
  have "set (contacts ?b) \<subseteq> set (all_contacts t)" using nth_mem [OF i] by (auto simp: all_contacts_def)
  then show "set (all_contacts (observe_known cfg clk t i old c)) \<subseteq> insert c (set (all_contacts t))"
    using contacts_set_bucket_sub [of i ?b' t]
      set_update_first_subset [of "\<lambda>x. node_id x = node_id old" c "contacts ?b"]
    by (auto simp: observe_known_def Let_def)
  show "x \<in> set (all_contacts (observe_known cfg clk t i old c))"
    if x: "x \<in> set (all_contacts t)" "node_id x \<noteq> nid"
  proof -
    have "x \<in> set (all_contacts (set_bucket i ?b' t))"
      using x(2) old(2) by (intro contacts_set_bucket_old [OF x(1) i]) (simp add: update_first_keeps)
    then show ?thesis by (simp add: observe_known_def Let_def)
  qed
  have "c \<in> set (all_contacts (set_bucket i ?b' t))"
    using contacts_set_bucket_new [OF i, of ?b'] update_first_mem [OF old(1)] by auto
  then show "c \<in> set (all_contacts (observe_known cfg clk t i old c))"
    by (simp add: observe_known_def Let_def)
qed

lemma observe_spec:
  assumes wf: "table_wf cfg t" and pos: "0 < DHT_ROUTING_BAD_AFTER_FAILURES cfg"
  shows "\<exists>t' r. observe cfg clk t nid ip port direct incoming ro ver = Inr (t', r)
    \<and> r = sighting_result cfg clk t nid ip port direct incoming ro ver
    \<and> table_wf cfg t' \<and> local_node_id t' = local_node_id t
    \<and> (\<forall>x \<in> set (all_contacts t'). x \<in> set (all_contacts t) \<or> r = Some x)
    \<and> (\<forall>x \<in> set (all_contacts t). \<not> is_bad cfg x \<and> node_id x \<noteq> nid \<longrightarrow> x \<in> set (all_contacts t'))"
proof (cases "length nid \<noteq> 20 \<or> nid = local_node_id t")
  case True
  with wf show ?thesis by (auto simp: observe_def sighting_result_def)
next
  case False
  then have nid: "length nid = 20" "nid \<noteq> local_node_id t" by auto
  obtain i where i: "bucket_for t nid = Inr i" "i < length (buckets t)" "contains (buckets t ! i) nid"
    "find t nid = Inr (List.find (\<lambda>c. node_id c = nid) (contacts (buckets t ! i)))"
    using find_wf [OF wf nid(1)] by metis
  show ?thesis
  proof (cases "List.find (\<lambda>c. node_id c = nid) (contacts (buckets t ! i))")
    case (Some old)
    note k = observe_known_spec [OF wf pos i(2) Some refl, where clk = clk and ip = ip and
        port = port and direct = direct and incoming = incoming and ro = ro and ver = ver]
    have "observe cfg clk t nid ip port direct incoming ro ver =
        Inr (observe_known cfg clk t i old (refresh clk ip port direct incoming ro ver old),
             sighting_result cfg clk t nid ip port direct incoming ro ver)"
      using Some i nid by (simp add: observe_def sighting_result_def Let_def)
    with k(1-4) Some i nid show ?thesis by (auto simp: sighting_result_def)
  next
    case None
    let ?c = "new_contact clk nid ip port direct incoming ro ver"
    let ?t1 = "emit cfg (clk 3) ''node_candidate'' (Some ?c) (buckets t ! i) None t"
    have r: "sighting_result cfg clk t nid ip port direct incoming ro ver = Some ?c"
      using None i nid by (simp add: sighting_result_def)
    show ?thesis
    proof (cases ro)
      case True
      with None i nid r wf show ?thesis by (auto simp: observe_def Let_def)
    next
      case ro: False
      obtain t2 i2 k2 where l: "split_loop cfg clk nid 4 i ?t1 = Some (Inr (t2, i2, k2))"
        "table_wf cfg t2" "local_node_id t2 = local_node_id t" "bucket_for t2 nid = Inr i2"
        "\<not> (DHT_K \<le> length (contacts (buckets t2 ! i2)) \<and> contains (buckets t2 ! i2) (local_node_id t2))"
        "set (all_contacts t2) = set (all_contacts t)"
        using split_loop_total [of cfg ?t1 nid i clk 4] wf nid i by auto
      note i2 = bucket_for_Inr [OF l(4)]
      have "node_id x \<noteq> nid" if "x \<in> set (contacts (buckets t2 ! i2))" for x
      proof -
        have "x \<in> set (all_contacts t2)" using that nth_mem [OF i2(1)] by (auto simp: all_contacts_def)
        with l(6) None i(4) show ?thesis using find_contact_None [OF wf _ nid(1)] by simp
      qed
      then have new: "nid \<notin> node_id ` set (contacts (buckets t2 ! i2))" by auto
      have "table_wf cfg (place cfg clk ?c k2 i2 t2)"
        using l(3,5) nid i2 new by (intro place_wf [OF l(2) i2(1)]) (auto simp: member_ok_def)
      moreover have "local_node_id (place cfg clk ?c k2 i2 t2) = local_node_id t"
        using l(3) by (auto simp: place_def Let_def split: option.splits)
      moreover have "observe cfg clk t nid ip port direct incoming ro ver =
          Inr (place cfg clk ?c k2 i2 t2, Some ?c)"
        using None i nid ro l(1) by (simp add: observe_def Let_def)
      ultimately show ?thesis
        using r place_contacts [OF i2(1), where cfg = cfg and clk = clk and c = ?c and k = k2] l(6)
        by auto
    qed
  qed
qed


section \<open>Failures\<close>

lemma remove1_update_first:
  assumes "distinct (map node_id xs)" and "x \<in> set xs" and "node_id x = nid" and "node_id y = nid"
  shows "remove1 y (update_first (\<lambda>x. node_id x = nid) y xs) = filter (\<lambda>x. node_id x \<noteq> nid) xs"
  using assms
proof (induction xs)
  case (Cons a xs)
  show ?case
  proof (cases "node_id a = nid")
    case True
    with Cons.prems have "nid \<notin> node_id ` set xs" by auto
    then have "filter (\<lambda>x. node_id x \<noteq> nid) xs = xs" by (intro filter_True) auto
    with True show ?thesis by simp
  next
    case False
    with Cons show ?thesis by auto
  qed
qed simp

definition fail_bucket :: "config \<Rightarrow> (nat \<Rightarrow> int) \<Rightarrow> bytes \<Rightarrow> contact \<Rightarrow> bucket \<Rightarrow> bucket" where
  "fail_bucket cfg clk nid c b =
     (if is_bad cfg c \<and> replacements b \<noteq> []
      then b\<lparr>replacements := butlast (replacements b),
             contacts := filter (\<lambda>x. node_id x \<noteq> nid) (contacts b) @ [last (replacements b)],
             last_changed_ns := clk 3\<rparr>
      else b\<lparr>contacts := update_first (\<lambda>x. node_id x = nid) c (contacts b)\<rparr>)"

lemma mark_failure_bucket:
  assumes wf: "table_wf cfg t" and i: "bucket_for t nid = Inr i" and f: "find t nid = Inr (Some old)"
  shows "\<exists>t'. mark_failure cfg clk t nid = Inr t' \<and> local_node_id t' = local_node_id t
    \<and> buckets t' = (buckets t)[i :=
        fail_bucket cfg clk nid (old\<lparr>failures := failures old + 1\<rparr>) (buckets t ! i)]"
proof -
  let ?b = "buckets t ! i" and ?c = "old\<lparr>failures := failures old + 1\<rparr>"
  note il = bucket_for_Inr [OF i]
  have old: "old \<in> set (contacts ?b)" "node_id old = nid"
    using f i find_Some_iff [of _ "contacts ?b" old] by (auto simp: find_def)
  have "distinct (map node_id (contacts ?b))"
    using bucket_at_wf [OF wf il(1)] by (simp add: bucket_wf_def ids_def)
  note rm = remove1_update_first [OF this old, of ?c]
  show ?thesis
    using i f rm old(2)
    by (auto simp: mark_failure_def fail_bucket_def Let_def)
qed

lemma fail_bucket_wf:
  assumes wf: "bucket_wf cfg l b" and pos: "0 < DHT_ROUTING_BAD_AFTER_FAILURES cfg"
    and old: "old \<in> set (contacts b)" "node_id old = nid" and c: "node_id c = nid"
  shows "bucket_wf cfg l (fail_bucket cfg clk nid c b)"
proof (cases "is_bad cfg c \<and> replacements b \<noteq> []")
  case True
  let ?r = "last (replacements b)" and ?cs = "filter (\<lambda>x. node_id x \<noteq> nid) (contacts b)"
  have rs: "replacements b = butlast (replacements b) @ [?r]" using True by simp
  have len: "length ?cs = length (contacts b) - 1"
  proof -
    have "distinct (map node_id (contacts b))" using wf by (simp add: bucket_wf_def ids_def)
    from remove1_update_first [OF this old(1,2) c]
    have "length ?cs = length (remove1 c (update_first (\<lambda>x. node_id x = nid) c (contacts b)))" by simp
    also have "\<dots> = length (contacts b) - 1"
      using update_first_mem [OF old(1), of "\<lambda>x. node_id x = nid" c] old(2)
      by (simp add: length_remove1)
    finally show ?thesis .
  qed
  have "ids b = map node_id (contacts b) @ map node_id (butlast (replacements b)) @ [node_id ?r]"
    unfolding ids_def by (subst rs) simp
  then have d: "distinct (map node_id (contacts b) @ map node_id (butlast (replacements b)) @ [node_id ?r])"
    and m: "list_all (member_ok l b) (map node_id (contacts b) @ map node_id (butlast (replacements b)) @ [node_id ?r])"
    using wf by (simp_all add: bucket_wf_def)
  have "failures ?r = 0" using wf True last_in_set by (auto simp: bucket_wf_def list_all_iff)
  with pos have r: "\<not> is_bad cfg ?r" by (simp add: is_bad_def)
  have ids2: "ids (fail_bucket cfg clk nid c b) =
      map node_id ?cs @ [node_id ?r] @ map node_id (butlast (replacements b))"
    using True by (simp add: ids_def fail_bucket_def)
  have "distinct (map node_id ?cs)" using d by (simp add: distinct_map_filter)
  with d have 1: "distinct (ids (fail_bucket cfg clk nid c b))" unfolding ids2 by auto
  have "set (ids (fail_bucket cfg clk nid c b)) \<subseteq>
      set (map node_id (contacts b) @ map node_id (butlast (replacements b)) @ [node_id ?r])"
    unfolding ids2 by auto
  with m have "list_all (member_ok l b) (ids (fail_bucket cfg clk nid c b))"
    unfolding list_all_iff by blast
  then have 2: "list_all (member_ok l (fail_bucket cfg clk nid c b)) (ids (fail_bucket cfg clk nid c b))"
    using True by (simp add: fail_bucket_def member_ok_def list_all_iff)
  have 3: "list_all (\<lambda>c. failures c = 0) (butlast (replacements b))"
    using wf by (auto simp: bucket_wf_def list_all_iff dest: in_set_butlastD)
  have 4: "length (contacts b) = DHT_K" "list_all (\<lambda>c. \<not> is_bad cfg c) (contacts b)"
    "\<not> contains b l" "length (replacements b) \<le> DHT_K" using wf True by (auto simp: bucket_wf_def)
  then have 5: "list_all (\<lambda>c. \<not> is_bad cfg c) ?cs" by (simp add: list_all_iff)
  have B: "contacts (fail_bucket cfg clk nid c b) = ?cs @ [?r]"
    "replacements (fail_bucket cfg clk nid c b) = butlast (replacements b)"
    "contains (fail_bucket cfg clk nid c b) l = contains b l"
    using True by (simp_all add: fail_bucket_def)
  have k: "length (?cs @ [?r]) = DHT_K" using len 4(1) by (simp add: DHT_K_def)
  then have "length (?cs @ [?r]) \<le> DHT_K" by (rule eq_imp_le)
  moreover have "length (butlast (replacements b)) \<le> DHT_K" using 4(4) by simp
  moreover have "list_all (\<lambda>c. \<not> is_bad cfg c) (?cs @ [?r])" using 5 r by simp
  ultimately show ?thesis
    unfolding bucket_wf_def B using 1 2 3 4(3) k by blast
next
  case False
  then have "fail_bucket cfg clk nid c b =
      b\<lparr>contacts := update_first (\<lambda>x. node_id x = nid) c (contacts b)\<rparr>"
    by (simp only: fail_bucket_def if_False)
  moreover have "is_bad cfg c \<Longrightarrow> replacements b = []" using False by blast
  ultimately show ?thesis using bucket_wf_update_contact [OF wf c] by simp
qed

lemma table_wf_events [simp]: "table_wf cfg (t\<lparr>events := ev\<rparr>) = table_wf cfg t"
  by (rule table_wf_cong) simp_all

lemma mark_failure_spec:
  assumes wf: "table_wf cfg t" and pos: "0 < DHT_ROUTING_BAD_AFTER_FAILURES cfg"
    and nid: "length nid = 20"
  shows "\<exists>t'. mark_failure cfg clk t nid = Inr t' \<and> table_wf cfg t' \<and> local_node_id t' = local_node_id t"
proof -
  obtain i where i: "bucket_for t nid = Inr i" "i < length (buckets t)"
    "find t nid = Inr (List.find (\<lambda>c. node_id c = nid) (contacts (buckets t ! i)))"
    using find_wf [OF wf nid] by metis
  show ?thesis
  proof (cases "List.find (\<lambda>c. node_id c = nid) (contacts (buckets t ! i))")
    case None
    with i wf show ?thesis by (simp add: mark_failure_def)
  next
    case (Some old)
    let ?b = "fail_bucket cfg clk nid (old\<lparr>failures := failures old + 1\<rparr>) (buckets t ! i)"
    from find_Some_iff [OF Some] have "bucket_wf cfg (local_node_id t) ?b"
      by (intro fail_bucket_wf [OF bucket_at_wf [OF wf i(2)] pos]) auto
    then have "table_wf cfg (set_bucket i ?b t)"
      using wf i(2) by (intro table_wf_set_bucket) (auto simp: fail_bucket_def)
    moreover obtain t' where "mark_failure cfg clk t nid = Inr t'" "local_node_id t' = local_node_id t"
      "buckets t' = buckets (set_bucket i ?b t)"
      using mark_failure_bucket [OF wf i(1), of old clk] i(3) Some by auto
    ultimately show ?thesis using table_wf_cong [of t' "set_bucket i ?b t" cfg] by simp
  qed
qed

lemma new_table_wf:
  assumes "new_table local_id now = Inr t"
  shows "table_wf cfg t"
proof -
  have t: "length local_id = 20" "t = \<lparr>local_node_id = local_id, buckets = [new_bucket 0 DHT_ID_SPACE now], events = []\<rparr>"
    using assms by (auto simp: new_table_def split: if_splits)
  moreover have "halving t"
    unfolding halving_def t(2) by (intro exI [of _ 160]) (simp add: DHT_ID_SPACE_def)
  ultimately show ?thesis
    by (simp add: table_wf_def bucket_wf_def ids_def DHT_ID_SPACE_def)
qed

section \<open>The closest contacts\<close>

lemma good_contacts_filter_const:
  "good_contacts cfg (\<lambda>_. now) k cs = filter (\<lambda>c. state cfg now c = GOOD) cs"
  by (induction cs arbitrary: k) auto

lemma set_good_contacts: "set (good_contacts cfg clk k cs) \<subseteq> set cs"
proof (induction cs arbitrary: k)
  case (Cons c cs)
  from Cons [of "k + 1"] show ?case by auto
qed simp

lemma take_sort_key_least:
  assumes "x \<in> set (take n (sort_key f xs))" and "y \<in> set (drop n (sort_key f xs))"
  shows "f x \<le> f y"
proof -
  have "sorted (map f (take n (sort_key f xs) @ drop n (sort_key f xs)))" by simp
  then show ?thesis using assms unfolding map_append sorted_append by auto
qed

lemma member_length:
  "table_wf cfg t \<Longrightarrow> c \<in> set (all_contacts t) \<Longrightarrow> length (node_id c) = 20"
  by (auto simp: all_contacts_def table_wf_def bucket_wf_def ids_def member_ok_def list_all_iff)


section \<open>Tables in use\<close>

text \<open>The operations a running node performs on its table; any order, any arguments.\<close>

datatype route_op =
  Sighting bytes atext int bool bool bool "bytes option"
| Failure bytes

inductive route_step :: "config \<Rightarrow> table \<Rightarrow> route_op \<Rightarrow> table \<Rightarrow> bool" for cfg where
  sighting: "observe cfg clk t nid ip port direct incoming ro ver = Inr (t', r) \<Longrightarrow>
    route_step cfg t (Sighting nid ip port direct incoming ro ver) t'"
| failure: "length nid = 20 \<Longrightarrow> mark_failure cfg clk t nid = Inr t' \<Longrightarrow>
    route_step cfg t (Failure nid) t'"

inductive_cases route_stepE: "route_step cfg t e t'"

text \<open>\<open>debug.validate_config\<close> refuses to start with a threshold that is not positive.\<close>

definition route_init :: "config \<Rightarrow> table \<Rightarrow> bool" where
  "route_init cfg t \<longleftrightarrow>
     0 < DHT_ROUTING_BAD_AFTER_FAILURES cfg \<and> (\<exists>l now. new_table l now = Inr t)"

lemma route_step_wf:
  assumes pos: "0 < DHT_ROUTING_BAD_AFTER_FAILURES cfg" and "table_wf cfg t" and "route_step cfg t e t'"
  shows "table_wf cfg t'"
  using assms(3)
proof cases
  case (sighting clk nid ip port direct incoming ro ver r)
  then show ?thesis
    using observe_spec [OF assms(2) pos, of clk nid ip port direct incoming ro ver] by auto
next
  case (failure nid clk)
  then show ?thesis using mark_failure_spec [OF assms(2) pos, of nid clk] by auto
qed

interpretation routes: machine_invariant "route_init cfg" "route_step cfg"
  "\<lambda>t. 0 < DHT_ROUTING_BAD_AFTER_FAILURES cfg \<and> table_wf cfg t" for cfg
  by unfold_locales (auto simp: route_init_def intro: new_table_wf route_step_wf)

lemmas reachable_wf = routes.reachable_inv [THEN conjunct2]
lemmas reachable_pos = routes.reachable_inv [THEN conjunct1]

lemma distinct_all_contacts:
  assumes "table_wf cfg t"
  shows "distinct (map node_id (all_contacts t))"
proof -
  have "distinct (concat (map (\<lambda>b. map node_id (contacts b)) bs))"
    if "chain lo hi bs" "list_all (bucket_wf cfg l) bs" for lo hi bs l
    using that
  proof (induction bs arbitrary: lo)
    case (Cons b bs)
    have "distinct (map node_id (contacts b))"
      using Cons.prems by (simp add: bucket_wf_def ids_def)
    moreover have "node_id x \<noteq> node_id y" if "x \<in> set (contacts b)" "y \<in> set (contacts b')" "b' \<in> set bs"
      for x y b'
    proof -
      have "from_bytes (node_id x) < high b" "low b' \<le> from_bytes (node_id y)"
        using Cons.prems that
        by (auto simp: bucket_wf_def ids_def member_ok_def contains_def list_all_iff)
      moreover have "high b \<le> low b'" using Cons.prems that(3) chain_bounds by auto
      ultimately show ?thesis by auto
    qed
    then have "set (map node_id (contacts b)) \<inter>
        set (concat (map (\<lambda>b. map node_id (contacts b)) bs)) = {}"
      by fastforce
    ultimately show ?case using Cons.IH [of "high b"] Cons.prems by simp
  qed simp
  from this [of 0 DHT_ID_SPACE "buckets t" "local_node_id t"] assms
  show ?thesis by (simp add: all_contacts_def map_concat comp_def table_wf_def)
qed

lemma update_first_map:
  assumes "distinct (map node_id xs)"
  shows "update_first (\<lambda>x. node_id x = nid) y xs = map (\<lambda>x. if node_id x = nid then y else x) xs"
  using assms
proof (induction xs)
  case (Cons a xs)
  then show ?case by (cases "node_id a = nid") (auto intro!: map_idI [symmetric] simp: image_iff)
qed simp

lemma good_contacts_sub:
  "x \<in> set (good_contacts cfg clk k cs) \<Longrightarrow> \<exists>j. state cfg (clk j) x = GOOD"
  by (induction cs arbitrary: k) (auto split: if_splits)

lemma good_contacts_sup:
  "x \<in> set cs \<Longrightarrow> \<forall>j. state cfg (clk j) x = GOOD \<Longrightarrow> x \<in> set (good_contacts cfg clk k cs)"
  by (induction cs arbitrary: k) auto

lemma distance_key_eq:
  assumes "table_wf cfg t" and "x \<in> set (all_contacts t)" and "y \<in> set (all_contacts t)"
    and "distance_key target x = distance_key target y"
  shows "x = y"
proof -
  from assms(4) have "from_bytes (node_id x) = from_bytes (node_id y)"
    by (metis distance_key_def xor.commute xor_cancel_left)
  with member_length [OF assms(1,2)] member_length [OF assms(1,3)] have "node_id x = node_id y"
    by (simp add: from_bytes_inject)
  with distinct_all_contacts [OF assms(1)] assms(2,3) show ?thesis
    by (auto simp: distinct_map dest: inj_onD)
qed

section \<open>Properties\<close>

text \<open>C3. In every table a run of the node reaches, each 20-byte identifier lies in exactly one
  bucket, no identifier occurs twice, the local identifier does not occur, a bucket holds at
  most \<open>DHT_K\<close> contacts and as many replacements, and there are at most 158 buckets.\<close>

theorem routing_table_invariant:
  assumes "reachable (route_init cfg) (route_step cfg) t"
  shows "(\<forall>nid. length nid = 20 \<longrightarrow> (\<exists>!i. i < length (buckets t) \<and> contains (buckets t ! i) nid))
    \<and> distinct (map node_id (all_contacts t))
    \<and> (\<forall>c \<in> set (all_contacts t). length (node_id c) = 20 \<and> node_id c \<noteq> local_node_id t)
    \<and> (\<forall>b \<in> set (buckets t). length (contacts b) \<le> DHT_K \<and> length (replacements b) \<le> DHT_K)
    \<and> length (buckets t) \<le> 158"
proof (intro conjI allI impI)
  note wf = reachable_wf [OF assms]
  show "distinct (map node_id (all_contacts t))" by (rule distinct_all_contacts [OF wf])
  show "length (buckets t) \<le> 158" by (rule bucket_count [OF wf])
  show "\<forall>c \<in> set (all_contacts t). length (node_id c) = 20 \<and> node_id c \<noteq> local_node_id t"
    using wf by (auto simp: all_contacts_def table_wf_def bucket_wf_def ids_def member_ok_def list_all_iff)
  show "\<forall>b \<in> set (buckets t). length (contacts b) \<le> DHT_K \<and> length (replacements b) \<le> DHT_K"
    using wf by (auto simp: table_wf_def bucket_wf_def list_all_iff)
  fix nid :: bytes assume nid: "length nid = 20"
  from wf have c: "chain 0 DHT_ID_SPACE (buckets t)" by (simp add: table_wf_def)
  obtain i where "i < length (buckets t)" "contains (buckets t ! i) nid"
    using bucket_for_wf [OF c nid] by metis
  with chain_disjoint [OF c] show "\<exists>!i. i < length (buckets t) \<and> contains (buckets t ! i) nid"
    by blast
qed


text \<open>A concrete run: one node answers the node whose identifier is all zeros.\<close>

definition demo_id :: bytes where
  "demo_id = replicate 20 1"

definition demo_start :: table where
  "demo_start = \<lparr>local_node_id = replicate 20 0, buckets = [new_bucket 0 DHT_ID_SPACE 0], events = []\<rparr>"

definition demo_contact :: contact where
  "demo_contact = \<lparr>node_id = demo_id, ct_ip = ascii ''8.8.8.8'', ct_port = 6881, first_seen_ns = 5,
     last_response_ns = Some 5, last_query_ns = None, failures = 0, ever_responded = True,
     read_only = False, client_version = None\<rparr>"

lemma demo_init: "route_init default_config demo_start"
  by (auto simp: route_init_def demo_start_def new_table_def default_config_def intro!: exI [of _ "replicate 20 0"])

lemma demo_id_simps: "length demo_id = 20" "demo_id \<noteq> replicate 20 0"
  by (simp_all add: demo_id_def)

lemma demo_bucket: "bucket_index [new_bucket 0 DHT_ID_SPACE 0] (from_bytes demo_id) = Some 0"
  by (simp add: node_id_in_space demo_id_simps)

lemma demo_observe:
  "\<exists>ev. observe default_config (\<lambda>_. 5) demo_start demo_id (ascii ''8.8.8.8'') 6881 True False False None =
     Inr (demo_start\<lparr>buckets := [(new_bucket 0 DHT_ID_SPACE 5)\<lparr>contacts := [demo_contact]\<rparr>],
                      events := ev\<rparr>, Some demo_contact)"
  by (subst observe_def)
    (simp add: demo_start_def node_id_in_space demo_id_simps bucket_for_def Let_def DHT_K_def
      split_loop.simps place_def emit_def set_bucket_def new_contact_def demo_contact_def new_bucket_def)


lemma demo_reachable:
  "\<exists>ev. reachable (route_init default_config) (route_step default_config)
     (demo_start\<lparr>buckets := [(new_bucket 0 DHT_ID_SPACE 5)\<lparr>contacts := [demo_contact]\<rparr>], events := ev\<rparr>)"
  using demo_observe reachable.step [OF reachable.start [of "route_init default_config", OF demo_init]]
    route_step.sighting by metis

lemma routing_table_invariant_witness:
  "\<exists>ev. let t = demo_start\<lparr>buckets := [(new_bucket 0 DHT_ID_SPACE 5)\<lparr>contacts := [demo_contact]\<rparr>],
                           events := ev\<rparr>
     in (\<exists>!i. i < length (buckets t) \<and> contains (buckets t ! i) demo_id)
        \<and> distinct (map node_id (all_contacts t))"
proof -
  obtain ev where "reachable (route_init default_config) (route_step default_config)
     (demo_start\<lparr>buckets := [(new_bucket 0 DHT_ID_SPACE 5)\<lparr>contacts := [demo_contact]\<rparr>], events := ev\<rparr>)"
    using demo_reachable by blast
  from routing_table_invariant [OF this] demo_id_simps(1) show ?thesis
    unfolding Let_def by blast
qed

text \<open>C4. On a reachable table \<open>observe\<close> never raises and its split loop ends: it returns the
  updated (or new) contact, every contact of the new table is an old one or that contact, and
  no contact of another node is dropped unless it is bad.\<close>

theorem observe_total_no_eviction:
  assumes "reachable (route_init cfg) (route_step cfg) t"
  shows "\<exists>t' r. observe cfg clk t nid ip port direct incoming ro ver = Inr (t', r)
    \<and> r = sighting_result cfg clk t nid ip port direct incoming ro ver
    \<and> (\<forall>x \<in> set (all_contacts t'). x \<in> set (all_contacts t) \<or> r = Some x)
    \<and> (\<forall>x \<in> set (all_contacts t). node_id x \<noteq> nid \<and> state cfg now x \<noteq> BAD \<longrightarrow>
         x \<in> set (all_contacts t'))"
proof -
  from observe_spec [OF reachable_wf [OF assms] reachable_pos [OF assms],
      of clk nid ip port direct incoming ro ver]
  obtain t' r where "observe cfg clk t nid ip port direct incoming ro ver = Inr (t', r)"
    "r = sighting_result cfg clk t nid ip port direct incoming ro ver"
    "\<forall>x \<in> set (all_contacts t'). x \<in> set (all_contacts t) \<or> r = Some x"
    "\<forall>x \<in> set (all_contacts t). \<not> is_bad cfg x \<and> node_id x \<noteq> nid \<longrightarrow> x \<in> set (all_contacts t')"
    by blast
  then show ?thesis unfolding state_BAD_iff by blast
qed

lemma observe_total_no_eviction_witness:
  "\<exists>t' r. observe default_config (\<lambda>_. 7) demo_start demo_id [] 0 False True False None = Inr (t', r)
    \<and> r = sighting_result default_config (\<lambda>_. 7) demo_start demo_id [] 0 False True False None"
  using observe_total_no_eviction [OF reachable.start [of "route_init default_config", OF demo_init]]
  by metis

text \<open>C5. Hearsay proves nothing: a sighting that is neither a response nor a query leaves the
  responsiveness, the failures and (unless it repeats it) the endpoint of a known contact
  unchanged, so its state at any moment is the same, and an unknown node starts as
  \<open>QUESTIONABLE\<close>.\<close>

theorem indirect_sighting_not_validated:
  assumes "reachable (route_init cfg) (route_step cfg) t"
    and "sighting_result cfg clk t nid ip port False False ro ver = Some c"
  shows "(\<forall>old. find t nid = Inr (Some old) \<longrightarrow>
            state cfg now c = state cfg now old \<and> ct_ip c = ct_ip old \<and> ct_port c = ct_port old
            \<and> last_response_ns c = last_response_ns old \<and> failures c = failures old)
    \<and> (find t nid = Inr None \<longrightarrow> state cfg now c = QUESTIONABLE)"
  using assms(2) reachable_pos [OF assms(1)]
  by (auto simp: sighting_result_def refresh_def new_contact_def state_def is_bad_def
      recent_enough_def Let_def split: if_splits)

lemma demo_find: "find demo_start demo_id = Inr None"
  using demo_bucket by (simp add: find_def demo_start_def bucket_for_def del: bucket_index.simps)

lemma demo_start_local: "local_node_id demo_start = replicate 20 0"
  by (simp add: demo_start_def)

lemma indirect_sighting_not_validated_witness:
  "state default_config 9 (new_contact (\<lambda>_. 7) demo_id [] 6881 False False False None) = QUESTIONABLE"
  using indirect_sighting_not_validated [OF reachable.start [of "route_init default_config", OF demo_init],
      of "\<lambda>_. 7" demo_id "[]" 6881 False None "new_contact (\<lambda>_. 7) demo_id [] 6881 False False False None" 9]
  by (simp add: demo_find demo_id_simps demo_start_local sighting_result_def)

text \<open>A direct response proves the endpoint it came from: the contact takes that endpoint,
  forgets its failures, and is \<open>GOOD\<close> until \<open>DHT_ROUTING_GOOD_TTL\<close> has passed since.\<close>

theorem direct_response_good:
  assumes "reachable (route_init cfg) (route_step cfg) t"
    and "sighting_result cfg clk t nid ip port True incoming ro ver = Some c"
  shows "ct_ip c = ip \<and> ct_port c = port \<and> failures c = 0 \<and> last_response_ns c = Some (clk 1)
    \<and> (now - clk 1 \<le> nanos (DHT_ROUTING_GOOD_TTL cfg) \<longrightarrow> state cfg now c = GOOD)"
  using assms(2) reachable_pos [OF assms(1)]
  by (auto simp: sighting_result_def refresh_def new_contact_def state_def is_bad_def
      recent_enough_def Let_def split: if_splits sum.splits option.splits)

lemma direct_response_good_witness:
  "state default_config 9 demo_contact = GOOD"
  using direct_response_good [OF reachable.start [of "route_init default_config", OF demo_init],
      of "\<lambda>_. 5" demo_id "ascii ''8.8.8.8''" 6881 False False None demo_contact 9]
  by (simp add: demo_find demo_id_simps demo_start_local sighting_result_def new_contact_def
      demo_contact_def default_config_def nanos_def)


text \<open>Counting a failure touches one bucket only: a contact that reaches the threshold is
  replaced by the newest replacement if the bucket has one; otherwise only its count grows.\<close>

theorem mark_failure_replaces:
  assumes "reachable (route_init cfg) (route_step cfg) t" and "length nid = 20"
    and "find t nid = Inr (Some old)"
  shows "\<exists>i t'. bucket_for t nid = Inr i \<and> mark_failure cfg clk t nid = Inr t'
    \<and> (\<forall>j. j \<noteq> i \<longrightarrow> buckets t' ! j = buckets t ! j)
    \<and> (if DHT_ROUTING_BAD_AFTER_FAILURES cfg \<le> int (failures old) + 1 \<and> replacements (buckets t ! i) \<noteq> []
       then contacts (buckets t' ! i) =
              filter (\<lambda>x. node_id x \<noteq> nid) (contacts (buckets t ! i)) @ [last (replacements (buckets t ! i))]
            \<and> replacements (buckets t' ! i) = butlast (replacements (buckets t ! i))
       else contacts (buckets t' ! i) =
              map (\<lambda>x. if node_id x = nid then old\<lparr>failures := failures old + 1\<rparr> else x)
                (contacts (buckets t ! i))
            \<and> replacements (buckets t' ! i) = replacements (buckets t ! i))"
proof -
  note wf = reachable_wf [OF assms(1)]
  let ?c = "old\<lparr>failures := failures old + 1\<rparr>"
  obtain i where i: "bucket_for t nid = Inr i" "i < length (buckets t)"
    using find_wf [OF wf assms(2)] by metis
  obtain t' where t': "mark_failure cfg clk t nid = Inr t'"
    "buckets t' = (buckets t)[i := fail_bucket cfg clk nid ?c (buckets t ! i)]"
    using mark_failure_bucket [OF wf i(1) assms(3)] by blast
  have d: "distinct (map node_id (contacts (buckets t ! i)))"
    using bucket_at_wf [OF wf i(2)] by (simp add: bucket_wf_def ids_def)
  have bad: "is_bad cfg ?c \<longleftrightarrow> DHT_ROUTING_BAD_AFTER_FAILURES cfg \<le> int (failures old) + 1"
    by (simp add: is_bad_def add.commute)
  have bad: "is_bad cfg (old\<lparr>failures := Suc (failures old)\<rparr>) \<longleftrightarrow>
      DHT_ROUTING_BAD_AFTER_FAILURES cfg \<le> int (failures old) + 1"
    using bad by simp
  have "\<forall>j. j \<noteq> i \<longrightarrow> buckets t' ! j = buckets t ! j" by (simp add: t'(2))
  moreover have "buckets t' ! i = fail_bucket cfg clk nid ?c (buckets t ! i)" by (simp add: t'(2) i(2))
  ultimately show ?thesis
    using i(1) t'(1) by (auto simp: fail_bucket_def bad update_first_map [OF d])
qed

lemma mark_failure_replaces_witness:
  "\<exists>ev i t'. let t = demo_start\<lparr>buckets := [(new_bucket 0 DHT_ID_SPACE 5)\<lparr>contacts := [demo_contact]\<rparr>], events := ev\<rparr>
     in bucket_for t demo_id = Inr i \<and> mark_failure default_config (\<lambda>_. 8) t demo_id = Inr t'
        \<and> contacts (buckets t' ! i) = map (\<lambda>x. if node_id x = demo_id then demo_contact\<lparr>failures := 1\<rparr> else x)
            (contacts (buckets t ! i))"
proof -
  obtain ev where r: "reachable (route_init default_config) (route_step default_config)
     (demo_start\<lparr>buckets := [(new_bucket 0 DHT_ID_SPACE 5)\<lparr>contacts := [demo_contact]\<rparr>], events := ev\<rparr>)"
     (is "reachable _ _ ?t")
    using demo_reachable by blast
  have f: "bucket_for ?t demo_id = Inr 0" "find ?t demo_id = Inr (Some demo_contact)"
    by (simp_all add: bucket_for_def find_def contains_def new_bucket_def demo_contact_def
        node_id_in_space demo_id_simps)
  from mark_failure_replaces [OF r demo_id_simps(1) f(2), of "\<lambda>_. 8"] f(1)
  show ?thesis unfolding Let_def by (intro exI [of _ ev]) (auto simp: demo_contact_def default_config_def)
qed

text \<open>C6. \<open>closest\<close> on a reachable table never raises for a 20-byte target: it returns contacts of
  the table that are not read-only (and, if asked, good), in order of XOR distance, at most
  \<open>limit\<close> of them; an eligible contact it leaves out is further away than every one it
  returns, and is left out only when \<open>limit\<close> are returned.\<close>

theorem closest_nearest:
  assumes "reachable (route_init cfg) (route_step cfg) t" and "length target = 20"
  shows "\<exists>r. closest cfg clk t target limit good_only = Inr r \<and> length r \<le> limit
    \<and> sorted (map (distance_key target) r)
    \<and> (\<forall>x \<in> set r. x \<in> set (all_contacts t) \<and> \<not> read_only x
         \<and> (good_only \<longrightarrow> (\<exists>k. state cfg (clk k) x = GOOD)))
    \<and> (\<forall>y \<in> set (all_contacts t) - set r. \<not> read_only y
         \<and> (good_only \<longrightarrow> (\<forall>k. state cfg (clk k) y = GOOD)) \<longrightarrow>
         length r = limit \<and> (\<forall>x \<in> set r. distance_key target x < distance_key target y))"
proof -
  note wf = reachable_wf [OF assms(1)]
  let ?nr = "filter (\<lambda>c. \<not> read_only c) (all_contacts t)"
  let ?cs = "if good_only then good_contacts cfg clk 0 ?nr else ?nr"
  define s where "s = sort_key (distance_key target) ?cs"
  have set_s: "set s = set ?cs" by (simp add: s_def)
  note least = take_sort_key_least [of _ limit "distance_key target" ?cs, folded s_def]
  have sub: "set ?cs \<subseteq> set (all_contacts t)" using set_good_contacts [of cfg clk 0 ?nr] by auto
  have "closest cfg clk t target limit good_only = Inr (take limit s)"
    using sub member_length [OF wf] assms(2) by (auto simp: closest_def Let_def list_ex_iff s_def)
  moreover have "sorted (map (distance_key target) (take limit s))"
    using sorted_sort_key [of "distance_key target" ?cs, folded s_def]
    by (simp only: take_map [symmetric] sorted_wrt_take)
  moreover have "x \<in> set (all_contacts t) \<and> \<not> read_only x \<and> (good_only \<longrightarrow> (\<exists>k. state cfg (clk k) x = GOOD))"
    if "x \<in> set (take limit s)" for x
  proof -
    from in_set_takeD [OF that] have "x \<in> set ?cs" by (simp only: set_s)
    then show ?thesis
      using set_good_contacts [of cfg clk 0 ?nr] good_contacts_sub [of x cfg clk 0 ?nr]
      by (auto split: if_splits)
  qed
  moreover have "length (take limit s) = limit
      \<and> (\<forall>x \<in> set (take limit s). distance_key target x < distance_key target y)"
    if y: "y \<in> set (all_contacts t)" "y \<notin> set (take limit s)" "\<not> read_only y"
      "good_only \<longrightarrow> (\<forall>k. state cfg (clk k) y = GOOD)" for y
  proof -
    have "y \<in> set ?cs" using y good_contacts_sup [of y ?nr] by simp
    then have "y \<in> set (take limit s @ drop limit s)" by (simp only: append_take_drop_id set_s)
    with y(2) have d: "y \<in> set (drop limit s)" unfolding set_append by blast
    then have "limit < length s" by (cases "limit < length s") auto
    moreover have "distance_key target x < distance_key target y" if x: "x \<in> set (take limit s)" for x
    proof -
      have "x \<in> set (all_contacts t)" using in_set_takeD [OF x] sub unfolding set_s by blast
      moreover have "x \<noteq> y" using x y(2) by blast
      ultimately have "distance_key target x \<noteq> distance_key target y"
        using distance_key_eq [OF wf] y(1) by blast
      with least [OF x d] show ?thesis by simp
    qed
    ultimately show ?thesis by simp
  qed
  moreover have "length (take limit s) \<le> limit" by simp
  ultimately show ?thesis by (intro exI [of _ "take limit s"]) blast
qed

lemma closest_nearest_witness:
  "\<exists>r. closest default_config (\<lambda>_. 7) demo_start demo_id 8 True = Inr r \<and> length r \<le> 8"
  using closest_nearest [OF reachable.start [of "route_init default_config", OF demo_init] demo_id_simps(1)]
  by blast

end
