(* ===== verification/Sha1.thy ===== *)
theory Sha1
  imports Net
begin

text \<open>
  SHA-1 as \<open>hashlib.sha1(data).digest()\<close> computes it (FIPS 180-4): the token manager and the
  metadata check of the peer client use it. Only the length of the digest is used in proofs.
\<close>

text \<open>The message followed by a one bit, zeros, and its length in bits: whole 64-byte blocks.\<close>

definition sha1_pad :: "bytes \<Rightarrow> bytes" where
  "sha1_pad m = m @ 128 # replicate ((119 - length m mod 64) mod 64) 0 @ to_bytes 8 (8 * length m)"

definition block_words :: "bytes \<Rightarrow> 32 word list" where
  "block_words block = map (\<lambda>w. of_nat (from_bytes w)) (chunks 4 block)"

text \<open>The message schedule, newest word first.\<close>

fun schedule :: "nat \<Rightarrow> 32 word list \<Rightarrow> 32 word list" where
  "schedule 0 ws = ws"
| "schedule (Suc n) ws =
     schedule n (word_rotl 1 (ws ! 2 XOR ws ! 7 XOR ws ! 13 XOR ws ! 15) # ws)"

type_synonym sha1_state = "32 word \<times> 32 word \<times> 32 word \<times> 32 word \<times> 32 word"

definition sha1_round :: "nat \<times> 32 word \<Rightarrow> sha1_state \<Rightarrow> sha1_state" where
  "sha1_round = (\<lambda>(t, w) (a, b, c, d, e).
     let (f, k) = (if t < 20 then ((b AND c) OR (NOT b AND d), 0x5A827999)
                   else if t < 40 then (b XOR c XOR d, 0x6ED9EBA1)
                   else if t < 60 then ((b AND c) OR (b AND d) OR (c AND d), 0x8F1BBCDC)
                   else (b XOR c XOR d, 0xCA62C1D6))
     in (word_rotl 5 a + f + e + k + w, a, word_rotl 30 b, c, d))"

definition sha1_block :: "bytes \<Rightarrow> sha1_state \<Rightarrow> sha1_state" where
  "sha1_block block = (\<lambda>(h0, h1, h2, h3, h4).
     let ws = rev (schedule 64 (rev (block_words block)));
         (a, b, c, d, e) = fold sha1_round (zip [0..<80] ws) (h0, h1, h2, h3, h4)
     in (h0 + a, h1 + b, h2 + c, h3 + d, h4 + e))"

definition sha1 :: "bytes \<Rightarrow> bytes" where
  "sha1 m =
     (let (a, b, c, d, e) = fold sha1_block (chunks 64 (sha1_pad m))
            (0x67452301, 0xEFCDAB89, 0x98BADCFE, 0x10325476, 0xC3D2E1F0)
      in concat (map (\<lambda>w. to_bytes 4 (unat w)) [a, b, c, d, e]))"

lemma length_sha1 [simp]: "length (sha1 m) = 20"
  by (simp add: sha1_def split: prod.split)

end
