(* ===== verification/Tokens.thy ===== *)
theory Tokens
  imports Sha1 Config
begin

text \<open>
  The \<open>TokenManager\<close> of \<open>includes/dht.py\<close>: announce tokens derived from two rotating secrets.
  An operation takes the clock readings it makes (\<open>clk 0\<close> in \<open>_rotate_if_due\<close>, \<open>clk 1\<close> in
  \<open>validate\<close>) and the random secrets a rotation would draw (\<open>fresh_prev\<close>, \<open>fresh_cur\<close>), and
  returns the manager with the result. The node binds an IPv4 socket, so the addresses here are
  IPv4 text.
\<close>

section \<open>The manager\<close>

record token_manager =
  current :: bytes
  previous :: bytes
  current_created_ns :: int
  previous_created_ns :: int
  rotated_ns :: int

definition new_token_manager :: "int \<Rightarrow> bytes \<Rightarrow> bytes \<Rightarrow> token_manager" where
  "new_token_manager now cur prev =
     \<lparr>current = cur, previous = prev, current_created_ns = now, previous_created_ns = now,
      rotated_ns = now\<rparr>"

definition rotate_if_due :: "config \<Rightarrow> int \<Rightarrow> bytes \<Rightarrow> bytes \<Rightarrow> token_manager \<Rightarrow>
    pyexn + token_manager" where
  "rotate_if_due cfg now fresh_prev fresh_cur tm =
     (let interval_ns = nanos (DHT_TOKEN_ROTATION_INTERVAL cfg);
          elapsed = now - rotated_ns tm
      in if elapsed < interval_ns then Inr tm
         else if interval_ns = 0 then Inl ZeroDivisionError
         else
           (let rotations = max 1 (elapsed div interval_ns);
                tm1 = (if rotations = 1
                       then tm\<lparr>previous := current tm, previous_created_ns := current_created_ns tm\<rparr>
                       else tm\<lparr>previous := fresh_prev, previous_created_ns := now\<rparr>)
            in Inr (tm1\<lparr>current := fresh_cur, current_created_ns := now, rotated_ns := now\<rparr>)))"

definition derive :: "bytes \<Rightarrow> atext \<Rightarrow> pyexn + bytes" where
  "derive secret ip =
     (case parse_ipv4 ip of
        None \<Rightarrow> Inl (ValueError ''does not appear to be an IPv4 or IPv6 address'')
      | Some addr \<Rightarrow> Inr (take 8 (sha1 (ipv4_packed addr @ secret))))"

definition issue :: "config \<Rightarrow> (nat \<Rightarrow> int) \<Rightarrow> bytes \<Rightarrow> bytes \<Rightarrow> token_manager \<Rightarrow> atext \<Rightarrow>
    token_manager \<times> (pyexn + bytes)" where
  "issue cfg clk fresh_prev fresh_cur tm ip =
     (case rotate_if_due cfg (clk 0) fresh_prev fresh_cur tm of
        Inl e \<Rightarrow> (tm, Inl e)
      | Inr tm' \<Rightarrow> (tm', derive (current tm') ip))"

definition validate :: "config \<Rightarrow> (nat \<Rightarrow> int) \<Rightarrow> bytes \<Rightarrow> bytes \<Rightarrow> token_manager \<Rightarrow> atext \<Rightarrow> bytes \<Rightarrow>
    token_manager \<times> (pyexn + bool)" where
  "validate cfg clk fresh_prev fresh_cur tm ip token =
     (case rotate_if_due cfg (clk 0) fresh_prev fresh_cur tm of
        Inl e \<Rightarrow> (tm, Inl e)
      | Inr tm' \<Rightarrow>
          (tm',
           let now = clk 1;
               validity_ns = nanos (DHT_TOKEN_VALIDITY cfg);
               matches = (\<lambda>created secret.
                  if now - created \<le> validity_ns
                  then bind_r (derive secret ip) (\<lambda>d. Inr (token = d)) else Inr False)
           in bind_r (matches (current_created_ns tm') (current tm')) (\<lambda>ok.
                if ok then Inr True
                else matches (previous_created_ns tm') (previous tm'))))"

section \<open>Calls in sequence\<close>

text \<open>The calls the node makes, each with its clock readings and the secrets drawn if it
  rotates.\<close>

datatype token_call =
  IssueCall "nat \<Rightarrow> int" bytes bytes atext
| ValidateCall "nat \<Rightarrow> int" bytes bytes atext bytes

fun call_time :: "token_call \<Rightarrow> int" where
  "call_time (IssueCall clk fp fc ip) = clk 0"
| "call_time (ValidateCall clk fp fc ip tok) = clk 0"

fun serve_call :: "config \<Rightarrow> token_call \<Rightarrow> token_manager \<Rightarrow> token_manager" where
  "serve_call cfg (IssueCall clk fp fc ip) tm = fst (issue cfg clk fp fc tm ip)"
| "serve_call cfg (ValidateCall clk fp fc ip tok) tm = fst (validate cfg clk fp fc tm ip tok)"

lemma rotate_Inr:
  "0 < nanos (DHT_TOKEN_ROTATION_INTERVAL cfg) \<Longrightarrow> \<exists>tm'. rotate_if_due cfg now fp fc tm = Inr tm'"
  by (simp add: rotate_if_due_def Let_def)

lemma serve_call_rotates:
  assumes "0 < nanos (DHT_TOKEN_ROTATION_INTERVAL cfg)"
  shows "\<exists>fp fc. rotate_if_due cfg (call_time c) fp fc tm = Inr (serve_call cfg c tm)"
proof (cases c)
  case (IssueCall clk fp fc ip)
  with rotate_Inr [OF assms, of "clk 0" fp fc tm] show ?thesis
    by (auto simp: issue_def) blast
next
  case (ValidateCall clk fp fc ip tok)
  with rotate_Inr [OF assms, of "clk 0" fp fc tm] show ?thesis
    by (auto simp: validate_def) blast
qed

section \<open>Invariants of the rotation\<close>

definition tm_ok :: "config \<Rightarrow> token_manager \<Rightarrow> bool" where
  "tm_ok cfg tm \<longleftrightarrow> 0 < nanos (DHT_TOKEN_ROTATION_INTERVAL cfg)
     \<and> rotated_ns tm = current_created_ns tm
     \<and> rotated_ns tm - previous_created_ns tm < 2 * nanos (DHT_TOKEN_ROTATION_INTERVAL cfg)"

lemma div_two_cases:
  assumes "0 < (i :: int)" and "i \<le> e"
  shows "max 1 (e div i) = 1 \<longleftrightarrow> e < 2 * i"
proof -
  have "e div i = (e - i) div i + 1"
    using assms(1) div_add_self2 [of i "e - i"] by simp
  moreover have "e < 2 * i \<Longrightarrow> (e - i) div i = 0" using assms(2) by (simp add: div_pos_pos_trivial)
  moreover have "2 * i \<le> e \<Longrightarrow> 1 \<le> (e - i) div i"
    using assms(1) zdiv_mono1 [of i "e - i" i] by simp
  ultimately show ?thesis by (cases "e < 2 * i") auto
qed

lemma rotate_cases:
  assumes "0 < nanos (DHT_TOKEN_ROTATION_INTERVAL cfg)" and "rotate_if_due cfg now fp fc tm = Inr tm'"
  obtains (same) "now - rotated_ns tm < nanos (DHT_TOKEN_ROTATION_INTERVAL cfg)" and "tm' = tm"
  | (once) "nanos (DHT_TOKEN_ROTATION_INTERVAL cfg) \<le> now - rotated_ns tm"
      and "now - rotated_ns tm < 2 * nanos (DHT_TOKEN_ROTATION_INTERVAL cfg)"
      and "tm' = \<lparr>current = fc, previous = current tm, current_created_ns = now,
                  previous_created_ns = current_created_ns tm, rotated_ns = now\<rparr>"
  | (more) "2 * nanos (DHT_TOKEN_ROTATION_INTERVAL cfg) \<le> now - rotated_ns tm"
      and "tm' = \<lparr>current = fc, previous = fp, current_created_ns = now,
                  previous_created_ns = now, rotated_ns = now\<rparr>"
proof -
  define i where "i = nanos (DHT_TOKEN_ROTATION_INTERVAL cfg)"
  define e where "e = now - rotated_ns tm"
  have r: "Inr tm' = (if e < i then Inr tm else if i = 0 then Inl ZeroDivisionError
      else let tm1 = (if max 1 (e div i) = 1
                      then tm\<lparr>previous := current tm, previous_created_ns := current_created_ns tm\<rparr>
                      else tm\<lparr>previous := fp, previous_created_ns := now\<rparr>)
           in Inr (tm1\<lparr>current := fc, current_created_ns := now, rotated_ns := now\<rparr>))"
    using assms(2) unfolding rotate_if_due_def i_def [symmetric] e_def [symmetric] Let_def by simp
  have i0: "i \<noteq> 0" using assms(1) unfolding i_def [symmetric] by simp
  show thesis
  proof (cases "e < i")
    case True
    show thesis by (rule same) (use True r in \<open>simp_all add: i_def e_def\<close>)
  next
    case False
    then have d: "max 1 (e div i) = 1 \<longleftrightarrow> e < 2 * i"
      using assms(1) unfolding i_def [symmetric] by (intro div_two_cases) simp_all
    show thesis
    proof (cases "e < 2 * i")
      case True
      then have "tm' = \<lparr>current = fc, previous = current tm, current_created_ns = now,
          previous_created_ns = current_created_ns tm, rotated_ns = now\<rparr>"
        using r False i0 unfolding d by simp
      then show thesis by (rule once [rotated 2]) (use True False in \<open>simp_all add: i_def e_def\<close>)
    next
      case more': False
      then have "tm' = \<lparr>current = fc, previous = fp, current_created_ns = now,
          previous_created_ns = now, rotated_ns = now\<rparr>"
        using r False i0 unfolding d by simp
      then show thesis by (rule more [rotated]) (use more' in \<open>simp add: i_def e_def\<close>)
    qed
  qed
qed

lemma rotate_ok:
  assumes "tm_ok cfg tm" and "rotate_if_due cfg now fp fc tm = Inr tm'"
  shows "tm_ok cfg tm' \<and> now - rotated_ns tm' < nanos (DHT_TOKEN_ROTATION_INTERVAL cfg)"
proof -
  have pos: "0 < nanos (DHT_TOKEN_ROTATION_INTERVAL cfg)" using assms(1) by (simp add: tm_ok_def)
  from rotate_cases [OF pos assms(2)] show ?thesis using assms(1) pos
    by cases (simp_all add: tm_ok_def)
qed

interpretation tokens: machine_invariant
  "\<lambda>tm. 0 < nanos (DHT_TOKEN_ROTATION_INTERVAL cfg) \<and> (\<exists>now cur prev. tm = new_token_manager now cur prev)"
  "\<lambda>tm c tm'. tm' = serve_call cfg c tm" "tm_ok cfg" for cfg
proof unfold_locales
  fix tm tm' c
  show "0 < nanos (DHT_TOKEN_ROTATION_INTERVAL cfg) \<and> (\<exists>now cur prev. tm = new_token_manager now cur prev) \<Longrightarrow>
      tm_ok cfg tm"
    by (auto simp: tm_ok_def new_token_manager_def)
  assume ok: "tm_ok cfg tm" "tm' = serve_call cfg c tm"
  then have "0 < nanos (DHT_TOKEN_ROTATION_INTERVAL cfg)" by (simp add: tm_ok_def)
  from serve_call_rotates [OF this, of c tm] ok show "tm_ok cfg tm'" by (auto dest: rotate_ok)
qed


section \<open>Where a secret is while its tokens live\<close>

definition holds_secret :: "config \<Rightarrow> bytes \<Rightarrow> int \<Rightarrow> token_manager \<Rightarrow> bool" where
  "holds_secret cfg s c tm \<longleftrightarrow>
     (current tm = s \<and> current_created_ns tm = c \<and> rotated_ns tm = c)
     \<or> (previous tm = s \<and> previous_created_ns tm = c
        \<and> c + nanos (DHT_TOKEN_ROTATION_INTERVAL cfg) \<le> rotated_ns tm)"

lemma rotate_holds_secret:
  assumes pos: "0 < nanos (DHT_TOKEN_ROTATION_INTERVAL cfg)" and "holds_secret cfg s c tm"
    and r: "rotate_if_due cfg now fp fc tm = Inr tm'"
    and "now < c + 2 * nanos (DHT_TOKEN_ROTATION_INTERVAL cfg)"
  shows "holds_secret cfg s c tm'"
  using rotate_cases [OF pos r] assms(2,4) pos
  by cases (auto simp: holds_secret_def)

lemma calls_hold_secret:
  assumes pos: "0 < nanos (DHT_TOKEN_ROTATION_INTERVAL cfg)" and "holds_secret cfg s c tm"
    and "list_all (\<lambda>k. call_time k < c + 2 * nanos (DHT_TOKEN_ROTATION_INTERVAL cfg)) calls"
  shows "holds_secret cfg s c (fold (serve_call cfg) calls tm)"
  using assms(2,3)
proof (induction calls arbitrary: tm)
  case (Cons k calls)
  from serve_call_rotates [OF pos, of k tm]
  obtain fp fc where r: "rotate_if_due cfg (call_time k) fp fc tm = Inr (serve_call cfg k tm)" by blast
  have "holds_secret cfg s c (serve_call cfg k tm)"
    using rotate_holds_secret [OF pos Cons.prems(1) r] Cons.prems(2) by simp
  with Cons show ?case by simp
qed simp

lemma validate_live_secret:
  assumes pos: "0 < nanos (DHT_TOKEN_ROTATION_INTERVAL cfg)" and "holds_secret cfg s c tm"
    and "clk 0 < c + 2 * nanos (DHT_TOKEN_ROTATION_INTERVAL cfg)"
    and "clk 1 - c \<le> nanos (DHT_TOKEN_VALIDITY cfg)" and "derive s ip = Inr token"
  shows "snd (validate cfg clk fp fc tm ip token) = Inr True"
proof -
  obtain tm' where r: "rotate_if_due cfg (clk 0) fp fc tm = Inr tm'" using rotate_Inr [OF pos] by blast
  have "holds_secret cfg s c tm'" by (rule rotate_holds_secret [OF pos assms(2) r assms(3)])
  moreover have "\<exists>d. derive s' ip = Inr d" for s'
    using assms(5) by (auto simp: derive_def split: option.splits)
  then obtain d where "derive (current tm') ip = Inr d" by blast
  ultimately show ?thesis
    using r assms(4,5) by (auto simp: validate_def holds_secret_def Let_def)
qed

abbreviation manager_reachable :: "config \<Rightarrow> token_manager \<Rightarrow> bool" where
  "manager_reachable cfg \<equiv> reachable
     (\<lambda>tm. 0 < nanos (DHT_TOKEN_ROTATION_INTERVAL cfg) \<and> (\<exists>now cur prev. tm = new_token_manager now cur prev))
     (\<lambda>tm c tm'. tm' = serve_call cfg c tm)"

lemmas manager_ok = tokens.reachable_inv

lemma issued_accepted:
  assumes ok: "tm_ok cfg tm"
    and issued: "issue cfg clk0 fp0 fc0 tm ip = (tm0, Inr token)"
    and calls: "list_all (\<lambda>k. call_time k \<le> clk 0) calls"
    and later: "clk 0 \<le> clk 1"
    and fits: "nanos (DHT_TOKEN_VALIDITY cfg) \<le> 2 * nanos (DHT_TOKEN_ROTATION_INTERVAL cfg)"
    and soon: "clk 1 - clk0 0 \<le> nanos (DHT_TOKEN_VALIDITY cfg) - nanos (DHT_TOKEN_ROTATION_INTERVAL cfg)"
  shows "snd (validate cfg clk fp fc (fold (serve_call cfg) calls tm0) ip token) = Inr True"
proof -
  let ?i = "nanos (DHT_TOKEN_ROTATION_INTERVAL cfg)"
  from ok have pos: "0 < ?i" by (simp add: tm_ok_def)
  have r: "rotate_if_due cfg (clk0 0) fp0 fc0 tm = Inr tm0" and d: "derive (current tm0) ip = Inr token"
    using issued by (auto simp: issue_def split: sum.splits)
  define c where "c = current_created_ns tm0"
  have c: "clk0 0 - c < ?i" and h: "holds_secret cfg (current tm0) c tm0"
    using rotate_ok [OF ok r] by (auto simp: tm_ok_def holds_secret_def c_def)
  have "clk 0 < c + 2 * ?i" "clk 1 - c \<le> nanos (DHT_TOKEN_VALIDITY cfg)"
    using c later fits soon by linarith+
  moreover have "list_all (\<lambda>k. call_time k < c + 2 * ?i) calls"
    using calls \<open>clk 0 < c + 2 * ?i\<close> by (auto simp: list_all_iff)
  ultimately show ?thesis
    using validate_live_secret [OF pos calls_hold_secret [OF pos h]] d by blast
qed

section \<open>Properties\<close>

text \<open>C7. A token the node issued to an address is accepted from that address, whatever calls
  come in between, for at least the validity less one rotation interval (and no more than one
  interval: \<open>debug.validate_config\<close> keeps the validity within two of them).\<close>

theorem issued_token_accepted:
  assumes reach: "manager_reachable cfg tm"
    and issued: "issue cfg clk0 fp0 fc0 tm ip = (tm0, Inr token)"
    and calls: "list_all (\<lambda>k. call_time k \<le> clk 0) calls"
    and later: "clk 0 \<le> clk 1"
    and fits: "nanos (DHT_TOKEN_VALIDITY cfg) \<le> 2 * nanos (DHT_TOKEN_ROTATION_INTERVAL cfg)"
    and soon: "clk 1 - clk0 0 \<le> nanos (DHT_TOKEN_VALIDITY cfg) - nanos (DHT_TOKEN_ROTATION_INTERVAL cfg)"
  shows "snd (validate cfg clk fp fc (fold (serve_call cfg) calls tm0) ip token) = Inr True"
  by (rule issued_accepted [OF manager_ok [OF reach] issued calls later fits soon])

lemma default_intervals:
  "nanos (DHT_TOKEN_ROTATION_INTERVAL default_config) = 300000000000"
  "nanos (DHT_TOKEN_VALIDITY default_config) = 600000000000"
  by (simp_all add: default_config_def)

lemma demo_ip: "parse_ipv4 (ascii ''9.8.7.6'') = Some 151521030"
  by (simp add: parse_ipv4_def parse_octet_def byte_eval)

lemma demo_manager: "manager_reachable default_config (new_token_manager 0 [5] [6])"
  by (rule reachable.start) (auto simp only: default_intervals)

definition demo_token :: bytes where
  "demo_token = take 8 (sha1 (ipv4_packed 151521030 @ [5]))"

lemma demo_derive: "derive [5] (ascii ''9.8.7.6'') = Inr demo_token"
  by (simp only: derive_def demo_ip demo_token_def option.case)

lemma demo_rotate: "now < 300000000000 \<Longrightarrow>
    rotate_if_due default_config now fp fc (new_token_manager 0 [5] [6]) = Inr (new_token_manager 0 [5] [6])"
  by (simp add: rotate_if_due_def new_token_manager_def default_intervals)

lemma issued_token_accepted_witness:
  "snd (validate default_config (\<lambda>_. 300000000000) [] []
      (serve_call default_config (IssueCall (\<lambda>_. 299000000000) [1] [2] (ascii ''1.2.3.4''))
         (new_token_manager 0 [5] [6])) (ascii ''9.8.7.6'') demo_token) = Inr True"
proof -
  have "issue default_config (\<lambda>_. 0) [] [] (new_token_manager 0 [5] [6]) (ascii ''9.8.7.6'') =
      (new_token_manager 0 [5] [6], Inr demo_token)"
    by (simp add: issue_def demo_rotate) (simp add: new_token_manager_def demo_derive)
  from issued_token_accepted [OF demo_manager this, of "\<lambda>_. 300000000000"
      "[IssueCall (\<lambda>_. 299000000000) [1] [2] (ascii ''1.2.3.4'')]" "[]" "[]"]
  show ?thesis by (simp add: default_intervals)
qed

text \<open>C8. An accepted token is the digest, for the sender's address, of a secret the manager still
  holds; that secret is no older than the validity, and was created less than three rotation
  intervals before the call, however rarely the manager is called.\<close>

theorem accepted_token_recent:
  assumes reach: "manager_reachable cfg tm"
    and "validate cfg clk fp fc tm ip token = (tm', Inr True)"
  shows "\<exists>secret created. derive secret ip = Inr token
    \<and> ((secret, created) = (current tm', current_created_ns tm')
       \<or> (secret, created) = (previous tm', previous_created_ns tm'))
    \<and> clk 1 - created \<le> nanos (DHT_TOKEN_VALIDITY cfg)
    \<and> clk 0 - created < 3 * nanos (DHT_TOKEN_ROTATION_INTERVAL cfg)"
proof -
  have ok: "tm_ok cfg tm" by (rule manager_ok [OF reach])
  then have "0 < nanos (DHT_TOKEN_ROTATION_INTERVAL cfg)" by (simp add: tm_ok_def)
  from rotate_Inr [OF this, of "clk 0" fp fc tm] assms(2)
  have r: "rotate_if_due cfg (clk 0) fp fc tm = Inr tm'" by (auto simp: validate_def)
  from rotate_ok [OF ok r] have age: "clk 0 - current_created_ns tm' < 3 * nanos (DHT_TOKEN_ROTATION_INTERVAL cfg)"
    "clk 0 - previous_created_ns tm' < 3 * nanos (DHT_TOKEN_ROTATION_INTERVAL cfg)"
    by (auto simp: tm_ok_def)
  have "(clk 1 - current_created_ns tm' \<le> nanos (DHT_TOKEN_VALIDITY cfg) \<and> derive (current tm') ip = Inr token)
      \<or> (clk 1 - previous_created_ns tm' \<le> nanos (DHT_TOKEN_VALIDITY cfg) \<and> derive (previous tm') ip = Inr token)"
    using assms(2) r by (auto simp: validate_def Let_def bind_r_Inr_iff split: if_splits)
  with age show ?thesis by blast
qed

lemma accepted_token_recent_witness:
  "\<exists>tm'. validate default_config (\<lambda>_. 7) [] [] (new_token_manager 0 [5] [6]) (ascii ''9.8.7.6'') demo_token
      = (tm', Inr True) \<and> (derive (current tm') (ascii ''9.8.7.6'') = Inr demo_token
        \<or> derive (previous tm') (ascii ''9.8.7.6'') = Inr demo_token)"
proof -
  have v: "validate default_config (\<lambda>_. 7) [] [] (new_token_manager 0 [5] [6]) (ascii ''9.8.7.6'') demo_token =
      (new_token_manager 0 [5] [6], Inr True)"
    by (simp add: validate_def demo_rotate) (simp add: new_token_manager_def demo_derive default_intervals)
  from accepted_token_recent [OF demo_manager v] v show ?thesis by blast
qed

end
