(* ===== verification/Ordered_Dict.thy ===== *)
theory Ordered_Dict
  imports Prelude "HOL-Library.AList"
begin

text \<open>
  Python's \<open>dict\<close> and \<open>collections.OrderedDict\<close>: a list of items in insertion order, no key
  twice. \<open>d[k] = v\<close> is \<open>AList.update\<close> (in place for a known key, at the end for a new one),
  \<open>d.pop(k, None)\<close> is \<open>AList.delete\<close>, \<open>d.get(k)\<close> is \<open>map_of\<close>. The locale states what the
  program relies on; the peer store and the caches use it.
\<close>

definition move_to_end :: "'k \<Rightarrow> ('k \<times> 'v) list \<Rightarrow> ('k \<times> 'v) list" where
  "move_to_end k d = (case map_of d k of None \<Rightarrow> d | Some v \<Rightarrow> AList.delete k d @ [(k, v)])"

locale ordered_dict =
  fixes lookup :: "'d \<Rightarrow> 'k \<Rightarrow> 'v option"
    and put :: "'k \<Rightarrow> 'v \<Rightarrow> 'd \<Rightarrow> 'd"
    and pop :: "'k \<Rightarrow> 'd \<Rightarrow> 'd"
    and to_end :: "'k \<Rightarrow> 'd \<Rightarrow> 'd"
    and order :: "'d \<Rightarrow> 'k list"
  assumes order_lookup: "set (order d) = {k. lookup d k \<noteq> None}"
    and lookup_put: "lookup (put k v d) k' = (if k' = k then Some v else lookup d k')"
    and lookup_pop: "lookup (pop k d) k' = (if k' = k then None else lookup d k')"
    and order_put: "order (put k v d) = (if k \<in> set (order d) then order d else order d @ [k])"
    and order_pop: "order (pop k d) = filter (\<lambda>x. x \<noteq> k) (order d)"
    and lookup_to_end: "lookup (to_end k d) = lookup d"
    and order_to_end: "k \<in> set (order d) \<Longrightarrow> order (to_end k d) = filter (\<lambda>x. x \<noteq> k) (order d) @ [k]"
begin

text \<open>Writing a key and moving it to the end: the touch of an LRU cache.\<close>

lemma touch_lookup: "lookup (to_end k (put k v d)) k' = (if k' = k then Some v else lookup d k')"
  by (simp add: lookup_to_end lookup_put)

lemma touch_order: "order (to_end k (put k v d)) = filter (\<lambda>x. x \<noteq> k) (order d) @ [k]"
proof -
  have "k \<in> set (order (put k v d))" by (simp add: order_lookup lookup_put)
  then show ?thesis by (simp add: order_to_end order_put)
qed

lemma touch_distinct: "distinct (order d) \<Longrightarrow> distinct (order (to_end k (put k v d)))"
  by (simp add: touch_order)

lemma pop_distinct: "distinct (order d) \<Longrightarrow> distinct (order (pop k d))"
  by (simp add: order_pop)

lemma put_distinct: "distinct (order d) \<Longrightarrow> distinct (order (put k v d))"
  by (simp add: order_put)

lemma touch_length: "length (order (to_end k (put k v d))) \<le> Suc (length (order d))"
  by (simp add: touch_order)

end

lemma delete_keys: "map fst (AList.delete k d) = filter (\<lambda>x. x \<noteq> k) (map fst d)"
  by (induction d) auto

lemma update_keys': "map fst (AList.update k v d) =
    (if k \<in> set (map fst d) then map fst d else map fst d @ [k])"
  by (induction d) auto

lemma map_of_move_to_end: "map_of (move_to_end k d) = map_of d"
  by (auto simp: move_to_end_def map_add_def delete_conv' fun_eq_iff split: option.splits)

interpretation od: ordered_dict map_of AList.update AList.delete move_to_end "map fst"
proof unfold_locales
  fix d :: "('a \<times> 'b) list" and k k' v
  show "set (map fst d) = {k. map_of d k \<noteq> None}" by (simp add: map_of_eq_None_iff)
  show "map_of (AList.update k v d) k' = (if k' = k then Some v else map_of d k')"
    by (simp add: update_conv')
  show "map_of (AList.delete k d) k' = (if k' = k then None else map_of d k')"
    by (simp add: delete_conv')
  show "map fst (AList.update k v d) = (if k \<in> set (map fst d) then map fst d else map fst d @ [k])"
    by (rule update_keys')
  show "map fst (AList.delete k d) = filter (\<lambda>x. x \<noteq> k) (map fst d)" by (rule delete_keys)
  show "map_of (move_to_end k d) = map_of d" by (rule map_of_move_to_end)
  show "map fst (move_to_end k d) = filter (\<lambda>x. x \<noteq> k) (map fst d) @ [k]" if "k \<in> set (map fst d)"
  proof -
    from that obtain v where "map_of d k = Some v"
      by (metis map_of_eq_None_iff not_None_eq set_map)
    then show ?thesis by (simp add: move_to_end_def delete_keys)
  qed
qed

end
