(* ===== verification/Peer_Store.thy ===== *)
theory Peer_Store
  imports Ordered_Dict Net Config
begin

text \<open>
  The \<open>PeerStore\<close> of \<open>includes/dht.py\<close>: announced peers per infohash, least recently announced
  first, bounded in both directions and forgotten after \<open>DHT_PEER_STORE_TTL\<close>. An operation
  takes its clock readings: \<open>clk 0\<close> in \<open>_prune\<close>, \<open>clk 1\<close> when a peer is stamped.
\<close>

section \<open>The store\<close>

type_synonym peers = "(endpoint \<times> int) list"
type_synonym peer_store = "(bytes \<times> peers) list"

definition prune :: "config \<Rightarrow> int \<Rightarrow> peer_store \<Rightarrow> peer_store" where
  "prune cfg now_ns st =
     (let cutoff = now_ns - nanos (DHT_PEER_STORE_TTL cfg) in
      filter (\<lambda>(key, peers). peers \<noteq> [])
        (map (\<lambda>(key, peers). (key, filter (\<lambda>(ep, seen). \<not> seen < cutoff) peers)) st))"

text \<open>\<open>popitem(last=False)\<close>.\<close>

definition popitem_first :: "('k \<times> 'v) list \<Rightarrow> pyexn + ('k \<times> 'v) list" where
  "popitem_first d = (case d of [] \<Rightarrow> Inl KeyError | _ # d' \<Rightarrow> Inr d')"

text \<open>\<open>while len(peers) > limit: peers.popitem(last=False)\<close>.\<close>

fun trim_to :: "int \<Rightarrow> ('k \<times> 'v) list \<Rightarrow> pyexn + ('k \<times> 'v) list" where
  "trim_to limit [] = (if 0 > limit then Inl KeyError else Inr [])"
| "trim_to limit (x # d) =
     (if int (length (x # d)) > limit then trim_to limit d else Inr (x # d))"

definition add :: "config \<Rightarrow> (nat \<Rightarrow> int) \<Rightarrow> peer_store \<Rightarrow> bytes \<Rightarrow> endpoint \<Rightarrow> pyexn + peer_store" where
  "add cfg clk st0 key endpoint =
     (let st = prune cfg (clk 0) st0 in
      bind_r (case map_of st key of
                None \<Rightarrow>
                  bind_r (if int (length st) \<ge> DHT_PEER_STORE_MAX_INFOHASHES cfg
                          then popitem_first st else Inr st)
                    (\<lambda>st'. Inr (AList.update key [] st', []))
              | Some peers \<Rightarrow> Inr (move_to_end key st, peers))
        (\<lambda>(st', peers).
           bind_r (trim_to (DHT_PEER_STORE_MAX_PEERS_PER_HASH cfg)
                     (move_to_end endpoint (AList.update endpoint (clk 1) peers)))
             (\<lambda>peers'. Inr (AList.update key peers' st'))))"

definition get :: "config \<Rightarrow> int \<Rightarrow> peer_store \<Rightarrow> bytes \<Rightarrow> peer_store \<times> endpoint list" where
  "get cfg now st0 key =
     (let st = prune cfg now st0 in
      (st, case map_of st key of None \<Rightarrow> [] | Some peers \<Rightarrow> map fst peers))"

definition stored_keys :: "config \<Rightarrow> int \<Rightarrow> peer_store \<Rightarrow> peer_store \<times> bytes list" where
  "stored_keys cfg now st0 = (let st = prune cfg now st0 in (st, map fst st))"

section \<open>What a store says\<close>

text \<open>The time stamp of an endpoint under a key.\<close>

definition seen_at :: "peer_store \<Rightarrow> bytes \<Rightarrow> endpoint \<Rightarrow> int option" where
  "seen_at st key ep = (case map_of st key of None \<Rightarrow> None | Some peers \<Rightarrow> map_of peers ep)"

definition store_ok :: "config \<Rightarrow> peer_store \<Rightarrow> bool" where
  "store_ok cfg st \<longleftrightarrow>
     distinct (map fst st) \<and> int (length st) \<le> DHT_PEER_STORE_MAX_INFOHASHES cfg
     \<and> (\<forall>(key, peers) \<in> set st. peers \<noteq> [] \<and> distinct (map fst peers)
          \<and> int (length peers) \<le> DHT_PEER_STORE_MAX_PEERS_PER_HASH cfg)"

lemma map_of_filter_val:
  "distinct (map fst xs) \<Longrightarrow>
    map_of (filter (\<lambda>(k, v). P v) xs) k = (case map_of xs k of None \<Rightarrow> None | Some v \<Rightarrow> if P v then Some v else None)"
proof (induction xs)
  case (Cons x xs)
  obtain k' v where x: "x = (k', v)" by fastforce
  have "k' \<notin> set (map fst xs)" using Cons.prems x by simp
  then have "map_of xs k' = None" by (simp add: map_of_eq_None_iff)
  with Cons x show ?case by auto
qed simp

lemma map_of_map_val: "map_of (map (\<lambda>(k, v). (k, f v)) xs) k = map_option f (map_of xs k)"
  by (induction xs) auto

lemma distinct_filter_map:
  "distinct (map fst xs) \<Longrightarrow> distinct (map fst (filter P (map (\<lambda>(k, v). (k, f v)) xs)))"
  by (intro distinct_map_filter) (simp add: comp_def case_prod_unfold)

lemma prune_ok: "store_ok cfg st \<Longrightarrow> store_ok cfg (prune cfg now st)"
proof -
  assume ok: "store_ok cfg st"
  have "length (prune cfg now st) \<le> length st"
    unfolding prune_def Let_def by (rule le_trans [OF length_filter_le]) simp
  moreover have "distinct (map fst (prune cfg now st))"
    using ok unfolding prune_def Let_def store_ok_def by (intro distinct_filter_map) blast
  moreover have "peers \<noteq> [] \<and> distinct (map fst peers) \<and> int (length peers) \<le> DHT_PEER_STORE_MAX_PEERS_PER_HASH cfg"
    if member: "(key, peers) \<in> set (prune cfg now st)" for key peers
  proof -
    from member obtain old where old: "(key, old) \<in> set st" "peers \<noteq> []"
      "peers = filter (\<lambda>(ep, seen). \<not> seen < now - nanos (DHT_PEER_STORE_TTL cfg)) old"
      by (auto simp: prune_def Let_def)
    with ok have "distinct (map fst old)" "int (length old) \<le> DHT_PEER_STORE_MAX_PEERS_PER_HASH cfg"
      by (auto simp: store_ok_def)
    moreover have "length peers \<le> length old" unfolding old(3) by (rule length_filter_le)
    then have "int (length peers) \<le> int (length old)" by (rule of_nat_mono)
    moreover have "distinct (map fst peers)" using calculation(1) by (simp add: old(3) distinct_map_filter)
    ultimately show ?thesis using old(2) by linarith
  qed
  ultimately show ?thesis using ok by (auto simp: store_ok_def)
qed

lemma seen_at_prune:
  assumes "store_ok cfg st"
  shows "seen_at (prune cfg now st) key ep =
    (case seen_at st key ep of None \<Rightarrow> None
     | Some s \<Rightarrow> if now - s \<le> nanos (DHT_PEER_STORE_TTL cfg) then Some s else None)"
proof -
  let ?P = "\<lambda>seen. \<not> seen < now - nanos (DHT_PEER_STORE_TTL cfg)"
  let ?f = "filter (\<lambda>(ep, seen). ?P seen)"
  have d: "distinct (map fst (map (\<lambda>(k, ps). (k, ?f ps)) st))"
    using assms by (simp add: store_ok_def comp_def case_prod_unfold)
  have "map_of (prune cfg now st) key =
      (case map_of st key of None \<Rightarrow> None | Some ps \<Rightarrow> if ?f ps \<noteq> [] then Some (?f ps) else None)"
    unfolding prune_def Let_def map_of_filter_val [OF d] map_of_map_val by (cases "map_of st key") simp_all
  then have "seen_at (prune cfg now st) key ep =
      (case map_of st key of None \<Rightarrow> None | Some ps \<Rightarrow> map_of (?f ps) ep)"
    by (cases "map_of st key") (auto simp: seen_at_def)
  moreover have "map_of (?f ps) ep = (case map_of ps ep of None \<Rightarrow> None | Some s \<Rightarrow> if ?P s then Some s else None)"
    if "map_of st key = Some ps" for ps
  proof -
    have "distinct (map fst ps)" using assms map_of_SomeD [OF that] by (auto simp: store_ok_def)
    then show ?thesis by (rule map_of_filter_val)
  qed
  moreover have "?P s \<longleftrightarrow> now - s \<le> nanos (DHT_PEER_STORE_TTL cfg)" for s by linarith
  ultimately show ?thesis
    by (cases "map_of st key") (auto simp: seen_at_def split: option.splits)
qed


section \<open>Adding a peer\<close>

definition peers_ok :: "config \<Rightarrow> peers \<Rightarrow> bool" where
  "peers_ok cfg peers \<longleftrightarrow> peers \<noteq> [] \<and> distinct (map fst peers)
     \<and> int (length peers) \<le> DHT_PEER_STORE_MAX_PEERS_PER_HASH cfg"

lemma store_ok_map_of:
  "store_ok cfg st \<longleftrightarrow> distinct (map fst st) \<and> int (length st) \<le> DHT_PEER_STORE_MAX_INFOHASHES cfg
     \<and> (\<forall>k ps. map_of st k = Some ps \<longrightarrow> peers_ok cfg ps)"
  by (fastforce simp: store_ok_def peers_ok_def)

lemma trim_to_drop: "0 \<le> limit \<Longrightarrow> trim_to limit d = Inr (drop (length d - nat limit) d)"
proof (induction d)
  case (Cons x d)
  show ?case
  proof (cases "int (length (x # d)) > limit")
    case True
    then have "length (x # d) - nat limit = Suc (length d - nat limit)" using Cons.prems by simp
    with True Cons show ?thesis by simp
  next
    case False
    then have "length (x # d) - nat limit = 0" by simp
    with False show ?thesis by simp
  qed
qed simp

lemma length_update: "length (AList.update k v d) = (if k \<in> set (map fst d) then length d else Suc (length d))"
  using arg_cong [OF od.order_put, of length k v d] by simp

text \<open>Stamping an endpoint in a list of peers and trimming it: the newest stays.\<close>

lemma stamp_peers:
  assumes "distinct (map fst ps)" and "0 < limit"
    and "d = move_to_end ep (AList.update ep now ps)" and "ps' = drop (length d - nat limit) d"
  shows "ps' \<noteq> []" and "distinct (map fst ps')" and "int (length ps') \<le> limit"
    and "map_of ps' ep = Some now" and "map fst ps' \<noteq> []" and "last (map fst ps') = ep"
    and "map_of ps' e = Some s \<Longrightarrow> (e = ep \<and> s = now) \<or> map_of ps e = Some s"
    and "int (length ps) < limit \<Longrightarrow> map_of ps' e = (if e = ep then Some now else map_of ps e)"
proof -
  have keys: "map fst d = filter (\<lambda>x. x \<noteq> ep) (map fst ps) @ [ep]"
    unfolding assms(3) by (rule od.touch_order)
  have dd: "distinct (map fst d)" unfolding keys using assms(1) by simp
  have look: "map_of d e = (if e = ep then Some now else map_of ps e)" for e
    unfolding assms(3) by (rule od.touch_lookup)
  have len: "0 < length d" using keys by (cases d) auto
  then have drop: "length d - nat limit < length d" using assms(2) by simp
  then show ne: "ps' \<noteq> []" by (simp add: assms(4))
  then show "map fst ps' \<noteq> []" by simp
  show d': "distinct (map fst ps')" using dd by (simp add: assms(4) drop_map [symmetric])
  show "int (length ps') \<le> limit" using assms(2) by (simp add: assms(4))
  have "last (map fst ps') = last (map fst d)" using drop by (simp add: assms(4) drop_map [symmetric] last_drop)
  then show l: "last (map fst ps') = ep" by (simp add: keys)
  have sub: "set ps' \<subseteq> set d" by (simp add: assms(4) set_drop_subset)
  have mo: "map_of ps' e = Some s \<Longrightarrow> map_of d e = Some s" for e s
    using map_of_SomeD sub dd by (metis map_of_eq_Some_iff subsetD)
  have "ep \<in> set (map fst ps')" using l ne last_in_set [of "map fst ps'"] by simp
  then obtain s' where "map_of ps' ep = Some s'" by (metis map_of_eq_None_iff not_None_eq set_map)
  with mo look show "map_of ps' ep = Some now" by fastforce
  show "map_of ps' e = Some s \<Longrightarrow> (e = ep \<and> s = now) \<or> map_of ps e = Some s"
    using mo look by (metis option.inject)
  show "map_of ps' e = (if e = ep then Some now else map_of ps e)" if "int (length ps) < limit"
  proof -
    have "length d \<le> Suc (length ps)"
      using arg_cong [OF keys, of length] length_filter_le [of "\<lambda>x. x \<noteq> ep" "map fst ps"] by simp
    then have "length d - nat limit = 0" using that by simp
    then show ?thesis by (simp add: assms(4) look)
  qed
qed


text \<open>The slot \<open>add\<close> prepares for the key: moved to the end, or new after an eviction.\<close>

definition slot :: "config \<Rightarrow> peer_store \<Rightarrow> bytes \<Rightarrow> peer_store \<times> peers" where
  "slot cfg st key =
     (case map_of st key of
        None \<Rightarrow> (AList.update key [] (if int (length st) \<ge> DHT_PEER_STORE_MAX_INFOHASHES cfg
                                      then tl st else st), [])
      | Some peers \<Rightarrow> (move_to_end key st, peers))"

lemma add_slot:
  assumes "0 < DHT_PEER_STORE_MAX_INFOHASHES cfg" and "0 < DHT_PEER_STORE_MAX_PEERS_PER_HASH cfg"
    and "slot cfg (prune cfg (clk 0) st) key = (st', ps)"
    and "d = move_to_end ep (AList.update ep (clk 1) ps)"
  shows "add cfg clk st key ep =
    Inr (AList.update key (drop (length d - nat (DHT_PEER_STORE_MAX_PEERS_PER_HASH cfg)) d) st')"
proof -
  have "popitem_first d' = Inr (tl d')" if "int (length d') \<ge> DHT_PEER_STORE_MAX_INFOHASHES cfg"
    for d' :: peer_store
    using that assms(1) by (cases d') (auto simp: popitem_first_def)
  then show ?thesis
    using assms by (auto simp: add_def slot_def Let_def trim_to_drop split: option.splits if_splits)
qed

lemma slot_spec:
  assumes ok: "store_ok cfg st" and pos: "0 < DHT_PEER_STORE_MAX_INFOHASHES cfg"
    and s: "slot cfg st key = (st', ps)"
  shows "distinct (map fst st')" and "int (length st') \<le> DHT_PEER_STORE_MAX_INFOHASHES cfg"
    and "key \<in> set (map fst st')" and "last (map fst st') = key"
    and "ps = (case map_of st key of None \<Rightarrow> [] | Some ps \<Rightarrow> ps)"
    and "k \<noteq> key \<Longrightarrow> map_of st' k = Some v \<Longrightarrow> map_of st k = Some v"
    and "k \<noteq> key \<Longrightarrow> map_of st key \<noteq> None \<or> int (length st) < DHT_PEER_STORE_MAX_INFOHASHES cfg \<Longrightarrow>
      map_of st' k = map_of st k"
proof -
  have d: "distinct (map fst st)" and l: "int (length st) \<le> DHT_PEER_STORE_MAX_INFOHASHES cfg"
    using ok by (simp_all add: store_ok_def)
  let ?base = "if int (length st) \<ge> DHT_PEER_STORE_MAX_INFOHASHES cfg then tl st else st"
  show "ps = (case map_of st key of None \<Rightarrow> [] | Some ps \<Rightarrow> ps)"
    using s by (auto simp: slot_def split: option.splits)
  have "distinct (map fst st') \<and> int (length st') \<le> DHT_PEER_STORE_MAX_INFOHASHES cfg
      \<and> key \<in> set (map fst st') \<and> last (map fst st') = key
      \<and> (\<forall>k v. k \<noteq> key \<longrightarrow> map_of st' k = Some v \<longrightarrow> map_of st k = Some v)
      \<and> (\<forall>k. k \<noteq> key \<longrightarrow> map_of st key \<noteq> None \<or> int (length st) < DHT_PEER_STORE_MAX_INFOHASHES cfg \<longrightarrow>
           map_of st' k = map_of st k)"
  proof (cases "map_of st key")
    case None
    then have st': "st' = AList.update key [] ?base" using s by (simp add: slot_def)
    have new: "key \<notin> set (map fst st)" using None by (simp add: map_of_eq_None_iff)
    have db: "distinct (map fst ?base)" using d by (simp add: map_tl distinct_tl)
    have sub: "set ?base \<subseteq> set st" by (cases st) auto
    then have nb: "key \<notin> set (map fst ?base)" using new by auto
    have keys: "map fst st' = map fst ?base @ [key]" unfolding st' od.order_put using nb by simp
    have "int (length ?base) < DHT_PEER_STORE_MAX_INFOHASHES cfg" using l pos by auto
    then have len: "int (length st') \<le> DHT_PEER_STORE_MAX_INFOHASHES cfg" using arg_cong [OF keys, of length] by simp
    have from_base: "map_of st k = Some v" if "map_of ?base k = Some v" for k v
      using subsetD [OF sub map_of_SomeD [OF that]] by (rule map_of_is_SomeI [OF d])
    have other: "map_of st' k = map_of ?base k" if "k \<noteq> key" for k
      using that unfolding st' od.lookup_put by simp
    have 1: "distinct (map fst st')" unfolding keys using db nb by simp
    have 2: "key \<in> set (map fst st')" "last (map fst st') = key" unfolding keys by simp_all
    have 3: "map_of st k = Some v" if "k \<noteq> key" "map_of st' k = Some v" for k v
      using from_base [of k v] other [OF that(1)] that(2) by simp
    have 4: "map_of st' k = map_of st k"
      if "k \<noteq> key" "map_of st key \<noteq> None \<or> int (length st) < DHT_PEER_STORE_MAX_INFOHASHES cfg" for k
      using other [OF that(1)] that(2) None by simp
    show ?thesis using 1 2 3 4 len by blast
  next
    case (Some q)
    then have st': "st' = move_to_end key st" using s by (simp add: slot_def)
    have mem: "key \<in> set (map fst st)" using Some by (metis map_of_eq_None_iff not_None_eq set_map)
    have keys: "map fst st' = filter (\<lambda>x. x \<noteq> key) (map fst st) @ [key]"
      unfolding st' by (rule od.order_to_end [OF mem])
    have "length st' \<le> length st"
    proof -
      have "length (filter (\<lambda>x. x \<noteq> key) (map fst st)) < length (map fst st)"
        using mem by (intro length_filter_less [of key]) auto
      then show ?thesis using arg_cong [OF keys, of length] by simp
    qed
    with l d keys show ?thesis by (auto simp: st' map_of_move_to_end)
  qed
  then show "distinct (map fst st')" "int (length st') \<le> DHT_PEER_STORE_MAX_INFOHASHES cfg"
    "key \<in> set (map fst st')" "last (map fst st') = key"
    "k \<noteq> key \<Longrightarrow> map_of st' k = Some v \<Longrightarrow> map_of st k = Some v"
    "k \<noteq> key \<Longrightarrow> map_of st key \<noteq> None \<or> int (length st) < DHT_PEER_STORE_MAX_INFOHASHES cfg \<Longrightarrow>
      map_of st' k = map_of st k"
    by blast+
qed


definition store_limits :: "config \<Rightarrow> bool" where
  "store_limits cfg \<longleftrightarrow>
     0 < DHT_PEER_STORE_MAX_INFOHASHES cfg \<and> 0 < DHT_PEER_STORE_MAX_PEERS_PER_HASH cfg"

lemma update_in_place:
  "k \<in> set (map fst d) \<Longrightarrow> map fst (AList.update k v d) = map fst d"
  by (simp add: od.order_put)

lemma add_spec:
  assumes ok: "store_ok cfg st" and lim: "store_limits cfg"
  shows "\<exists>st'. add cfg clk st key ep = Inr st' \<and> store_ok cfg st'
    \<and> seen_at st' key ep = Some (clk 1)
    \<and> last (map fst st') = key
    \<and> (\<forall>k e s. seen_at st' k e = Some s \<longrightarrow>
          (k = key \<and> e = ep \<and> s = clk 1) \<or> seen_at (prune cfg (clk 0) st) k e = Some s)
    \<and> (\<forall>k e. k \<noteq> key \<longrightarrow> map_of (prune cfg (clk 0) st) key \<noteq> None
            \<or> int (length (prune cfg (clk 0) st)) < DHT_PEER_STORE_MAX_INFOHASHES cfg \<longrightarrow>
          seen_at st' k e = seen_at (prune cfg (clk 0) st) k e)"
proof -
  let ?st = "prune cfg (clk 0) st" and ?max = "DHT_PEER_STORE_MAX_PEERS_PER_HASH cfg"
  have pos: "0 < DHT_PEER_STORE_MAX_INFOHASHES cfg" "0 < ?max" using lim by (simp_all add: store_limits_def)
  have okp: "store_ok cfg ?st" by (rule prune_ok [OF ok])
  obtain st1 ps where s: "slot cfg ?st key = (st1, ps)" by fastforce
  note S = slot_spec [OF okp pos(1) s]
  define d where "d = move_to_end ep (AList.update ep (clk 1) ps)"
  define ps' where "ps' = drop (length d - nat ?max) d"
  let ?st' = "AList.update key ps' st1"
  have "distinct (map fst ps)"
    using S(5) okp by (auto simp: store_ok_map_of peers_ok_def split: option.splits)
  note P = stamp_peers [OF this pos(2) d_def ps'_def]
  have add: "add cfg clk st key ep = Inr ?st'"
    unfolding ps'_def by (rule add_slot [OF pos s d_def])
  have keys: "map fst ?st' = map fst st1" by (rule update_in_place [OF S(3)])
  have look: "map_of ?st' k = (if k = key then Some ps' else map_of st1 k)" for k
    by (rule od.lookup_put)
  have "int (length ?st') \<le> DHT_PEER_STORE_MAX_INFOHASHES cfg"
    using S(2) arg_cong [OF keys, of length] by simp
  moreover have "peers_ok cfg v" if "map_of ?st' k = Some v" for k v
  proof (cases "k = key")
    case True
    with that P(1-3) show ?thesis by (simp add: look peers_ok_def)
  next
    case False
    with that S(6) have "map_of ?st k = Some v" by (simp add: look)
    with okp show ?thesis unfolding store_ok_map_of by blast
  qed
  ultimately have ok': "store_ok cfg ?st'" unfolding store_ok_map_of keys using S(1) by blast
  have seen: "seen_at ?st' key ep = Some (clk 1)" by (simp add: seen_at_def look P(4))
  have old: "(k = key \<and> e = ep \<and> s = clk 1) \<or> seen_at ?st k e = Some s"
    if "seen_at ?st' k e = Some s" for k e s
  proof (cases "k = key")
    case True
    with that P(7) [of e s] S(5) show ?thesis by (auto simp: seen_at_def look split: option.splits)
  next
    case False
    with that S(6) [of k] show ?thesis by (auto simp: seen_at_def look split: option.splits)
  qed
  have keep: "seen_at ?st' k e = seen_at ?st k e"
    if "k \<noteq> key" "map_of ?st key \<noteq> None \<or> int (length ?st) < DHT_PEER_STORE_MAX_INFOHASHES cfg" for k e
    using that S(7) by (simp add: seen_at_def look)
  have "last (map fst ?st') = key" using S(4) keys by simp
  with add ok' seen old keep show ?thesis by (intro exI [of _ ?st']) auto
qed


section \<open>A store in use\<close>

datatype store_op = Announce "nat \<Rightarrow> int" bytes endpoint | Lookup int bytes | Keys int

inductive store_step :: "config \<Rightarrow> peer_store \<Rightarrow> store_op \<Rightarrow> peer_store \<Rightarrow> bool" for cfg where
  announce: "add cfg clk st key ep = Inr st' \<Longrightarrow> store_step cfg st (Announce clk key ep) st'"
| lookup: "store_step cfg st (Lookup now key) (fst (get cfg now st key))"
| keys: "store_step cfg st (Keys now) (fst (stored_keys cfg now st))"

definition store_init :: "config \<Rightarrow> peer_store \<Rightarrow> bool" where
  "store_init cfg st \<longleftrightarrow> store_limits cfg \<and> st = []"

lemma store_step_ok:
  assumes "store_limits cfg" and "store_ok cfg st" and "store_step cfg st e st'"
  shows "store_ok cfg st'"
  using assms(3)
proof cases
  case (announce clk key ep)
  then show ?thesis using add_spec [OF assms(2,1), of clk key ep] by auto
qed (simp_all add: get_def stored_keys_def Let_def prune_ok [OF assms(2)])

interpretation stores: machine_invariant "store_init cfg" "store_step cfg"
  "\<lambda>st. store_limits cfg \<and> store_ok cfg st" for cfg
proof unfold_locales
  fix st e st'
  show "store_init cfg st \<Longrightarrow> store_limits cfg \<and> store_ok cfg st"
    by (auto simp: store_init_def store_ok_def store_limits_def)
  show "store_limits cfg \<and> store_ok cfg st \<Longrightarrow> store_step cfg st e st' \<Longrightarrow>
      store_limits cfg \<and> store_ok cfg st'"
    using store_step_ok by blast
qed

lemma default_store_limits: "store_limits default_config"
  by (simp add: store_limits_def default_config_def)

text \<open>A store with one announced peer.\<close>

definition demo_store :: peer_store where
  "demo_store = [([1], [((ascii ''1.2.3.4'', 6881), 5)])]"

lemma demo_add: "add default_config (\<lambda>_. 5) [] [1] (ascii ''1.2.3.4'', 6881) = Inr demo_store"
  by (simp add: add_def prune_def move_to_end_def default_config_def demo_store_def)

lemma demo_store_reachable: "reachable (store_init default_config) (store_step default_config) demo_store"
proof -
  have "reachable (store_init default_config) (store_step default_config) []"
    by (rule reachable.start) (simp add: store_init_def default_store_limits)
  moreover have "store_step default_config [] (Announce (\<lambda>_. 5) [1] (ascii ''1.2.3.4'', 6881)) demo_store"
    by (rule store_step.announce [OF demo_add])
  ultimately show ?thesis by (rule reachable.step)
qed

section \<open>Properties\<close>

text \<open>C9. The store stays bounded whatever is announced: never more than
  \<open>DHT_PEER_STORE_MAX_INFOHASHES\<close> keys nor \<open>DHT_PEER_STORE_MAX_PEERS_PER_HASH\<close> peers under a
  key, no key or endpoint twice, no key without a peer.\<close>

theorem peer_store_bounded:
  assumes "reachable (store_init cfg) (store_step cfg) st"
  shows "distinct (map fst st) \<and> int (length st) \<le> DHT_PEER_STORE_MAX_INFOHASHES cfg
    \<and> (\<forall>(key, peers) \<in> set st. peers \<noteq> [] \<and> distinct (map fst peers)
         \<and> int (length peers) \<le> DHT_PEER_STORE_MAX_PEERS_PER_HASH cfg)"
  using stores.reachable_inv [OF assms] unfolding store_ok_def by blast

lemma peer_store_bounded_witness: "distinct (map fst demo_store) \<and> int (length demo_store) \<le> 10000"
  using peer_store_bounded [OF demo_store_reachable] by (simp add: default_config_def)

text \<open>Announcing never fails. Afterwards the endpoint is stored with its time stamp and its
  key is the most recent one; nothing else appears that was not stored and unexpired, and as
  long as there is room no other key loses a peer that has not expired.\<close>

theorem announce_stored:
  assumes "reachable (store_init cfg) (store_step cfg) st"
  shows "\<exists>st'. add cfg clk st key ep = Inr st'
    \<and> seen_at st' key ep = Some (clk 1) \<and> last (map fst st') = key
    \<and> (\<forall>k e s. seen_at st' k e = Some s \<longrightarrow> (k = key \<and> e = ep \<and> s = clk 1)
         \<or> (seen_at st k e = Some s \<and> clk 0 - s \<le> nanos (DHT_PEER_STORE_TTL cfg)))
    \<and> (int (length st) < DHT_PEER_STORE_MAX_INFOHASHES cfg \<longrightarrow>
         (\<forall>k e s. k \<noteq> key \<and> seen_at st k e = Some s \<and> clk 0 - s \<le> nanos (DHT_PEER_STORE_TTL cfg) \<longrightarrow>
            seen_at st' k e = Some s))"
proof -
  have ok: "store_ok cfg st" and lim: "store_limits cfg" using stores.reachable_inv [OF assms] by auto
  from add_spec [OF ok lim, of clk key ep] obtain st' where A: "add cfg clk st key ep = Inr st'"
    "seen_at st' key ep = Some (clk 1)" "last (map fst st') = key"
    "\<forall>k e s. seen_at st' k e = Some s \<longrightarrow>
        (k = key \<and> e = ep \<and> s = clk 1) \<or> seen_at (prune cfg (clk 0) st) k e = Some s"
    "\<forall>k e. k \<noteq> key \<longrightarrow> map_of (prune cfg (clk 0) st) key \<noteq> None
            \<or> int (length (prune cfg (clk 0) st)) < DHT_PEER_STORE_MAX_INFOHASHES cfg \<longrightarrow>
          seen_at st' k e = seen_at (prune cfg (clk 0) st) k e"
    by blast
  have P: "seen_at (prune cfg (clk 0) st) k e = Some s \<longleftrightarrow>
      seen_at st k e = Some s \<and> clk 0 - s \<le> nanos (DHT_PEER_STORE_TTL cfg)" for k e s
    by (auto simp: seen_at_prune [OF ok] split: option.splits if_splits)
  have "length (prune cfg (clk 0) st) \<le> length st"
    unfolding prune_def Let_def by (rule le_trans [OF length_filter_le]) simp
  then have "int (length st) < DHT_PEER_STORE_MAX_INFOHASHES cfg \<Longrightarrow>
      int (length (prune cfg (clk 0) st)) < DHT_PEER_STORE_MAX_INFOHASHES cfg" by linarith
  then have room: "seen_at st' k e = seen_at (prune cfg (clk 0) st) k e"
    if "int (length st) < DHT_PEER_STORE_MAX_INFOHASHES cfg" "k \<noteq> key" for k e
    using A(5) that by blast
  have "seen_at st' k e = Some s"
    if "int (length st) < DHT_PEER_STORE_MAX_INFOHASHES cfg" "k \<noteq> key" "seen_at st k e = Some s"
      "clk 0 - s \<le> nanos (DHT_PEER_STORE_TTL cfg)" for k e s
    using room [OF that(1,2)] P that(3,4) by simp
  with A(1-4) show ?thesis unfolding P by (intro exI [of _ st']) blast
qed

lemma announce_stored_witness:
  "\<exists>st'. add default_config (\<lambda>_. 6) demo_store [2] (ascii ''1.2.3.4'', 6882) = Inr st'
    \<and> seen_at st' [2] (ascii ''1.2.3.4'', 6882) = Some 6
    \<and> seen_at st' [1] (ascii ''1.2.3.4'', 6881) = Some 5"
proof -
  have "int (length demo_store) < DHT_PEER_STORE_MAX_INFOHASHES default_config"
    "seen_at demo_store [1] (ascii ''1.2.3.4'', 6881) = Some 5"
    "6 - 5 \<le> nanos (DHT_PEER_STORE_TTL default_config)"
    by (simp_all add: demo_store_def seen_at_def default_config_def)
  with announce_stored [OF demo_store_reachable, of "\<lambda>_. 6" "[2]" "(ascii ''1.2.3.4'', 6882)"]
  show ?thesis by fastforce
qed

text \<open>\<open>get\<close> returns exactly the endpoints announced for the key no longer than
  \<open>DHT_PEER_STORE_TTL\<close> ago, each once.\<close>

theorem get_unexpired:
  assumes "reachable (store_init cfg) (store_step cfg) st"
  shows "set (snd (get cfg now st key)) =
      {ep. \<exists>s. seen_at st key ep = Some s \<and> now - s \<le> nanos (DHT_PEER_STORE_TTL cfg)}
    \<and> distinct (snd (get cfg now st key))"
proof -
  have ok: "store_ok cfg st" using stores.reachable_inv [OF assms] by blast
  have P: "seen_at (prune cfg now st) key e \<noteq> None \<longleftrightarrow>
      (\<exists>s. seen_at st key e = Some s \<and> now - s \<le> nanos (DHT_PEER_STORE_TTL cfg))" for e
    by (auto simp: seen_at_prune [OF ok] split: option.splits if_splits)
  have "e \<in> set (snd (get cfg now st key)) \<longleftrightarrow> seen_at (prune cfg now st) key e \<noteq> None" for e
    by (auto simp: get_def Let_def seen_at_def map_of_eq_None_iff split: option.splits)
      (metis map_of_eq_None_iff option.distinct(1) fst_conv image_eqI not_Some_eq)+
  moreover have "distinct (snd (get cfg now st key))"
    using prune_ok [OF ok, of now]
    by (auto simp: get_def Let_def store_ok_map_of peers_ok_def split: option.splits)
  ultimately show ?thesis using P by blast
qed


lemma get_unexpired_witness:
  "(ascii ''1.2.3.4'', 6881) \<in> set (snd (get default_config 9 demo_store [1]))"
proof -
  have "seen_at demo_store [1] (ascii ''1.2.3.4'', 6881) = Some 5"
    "9 - 5 \<le> nanos (DHT_PEER_STORE_TTL default_config)"
    by (simp_all add: demo_store_def seen_at_def default_config_def)
  then show ?thesis using get_unexpired [OF demo_store_reachable, of 9 "[1]"] by blast
qed

end
