(* ===== verification/Candidates.thy ===== *)
theory Candidates
  imports Ordered_Dict Net Config "HOL-Library.Multiset"
begin

text \<open>
  The \<open>CandidateManager\<close> of \<open>includes/dht.py\<close> with the queue it feeds and the workers that
  drain it (\<open>torrent_worker\<close> in \<open>main.py\<close>). Dictionaries are association lists; an operation
  takes the readings of \<open>time.monotonic_ns()\<close> (\<open>now\<close>) and \<open>time.time_ns()\<close> (\<open>wall\<close>) it makes.
\<close>

section \<open>State\<close>

type_synonym peer_hint = "atext \<times> int \<times> bool"

record candidate_state =
  dht_key :: bytes
  sources :: "string set"
  peer_hints :: "peer_hint list"
  queued :: bool
  first_seen_wall_ns :: int
  last_seen_wall_ns :: int

text \<open>The queue is an \<open>asyncio.Queue\<close> of size \<open>maxsize\<close>, zero or less meaning unbounded.\<close>

record candidate_manager =
  queue :: "bytes list"
  maxsize :: int
  states :: "(bytes \<times> candidate_state) list"
  recent :: "(bytes \<times> int) list"

definition new_manager :: "int \<Rightarrow> candidate_manager" where
  "new_manager slots = \<lparr>queue = [], maxsize = slots, states = [], recent = []\<rparr>"

definition queue_full :: "candidate_manager \<Rightarrow> bool" where
  "queue_full m \<longleftrightarrow> 0 < maxsize m \<and> maxsize m \<le> int (length (queue m))"

section \<open>Operations\<close>

text \<open>The loop of \<open>_prune_recent\<close>; the key popped is the first one.\<close>

fun prune_loop :: "int \<Rightarrow> int \<Rightarrow> (bytes \<times> int) list \<Rightarrow> (bytes \<times> int) list" where
  "prune_loop cutoff limit [] = []"
| "prune_loop cutoff limit ((key, ts) # rest) =
     (if cutoff \<le> ts \<and> int (length ((key, ts) # rest)) \<le> limit then (key, ts) # rest
      else prune_loop cutoff limit rest)"

definition prune_recent :: "config \<Rightarrow> int \<Rightarrow> candidate_manager \<Rightarrow> candidate_manager" where
  "prune_recent cfg now m =
     m\<lparr>recent := prune_loop (now - nanos (RECENT_HASH_TTL cfg)) (RECENT_HASH_CACHE_SIZE cfg) (recent m)\<rparr>"

text \<open>A sighting merged into the state of a known candidate.\<close>

definition merge_sighting :: "config \<Rightarrow> int \<Rightarrow> string \<Rightarrow> peer_hint option \<Rightarrow> candidate_state \<Rightarrow>
    candidate_state" where
  "merge_sighting cfg wall source hint c =
     (let c1 = c\<lparr>sources := insert source (sources c), last_seen_wall_ns := wall\<rparr> in
      case hint of
        None \<Rightarrow> c1
      | Some h \<Rightarrow>
          if h \<notin> set (peer_hints c1) \<and> int (length (peer_hints c1)) < MAX_PEER_HINTS_PER_CANDIDATE cfg
          then c1\<lparr>peer_hints := peer_hints c1 @ [h]\<rparr> else c1)"

definition new_candidate :: "int \<Rightarrow> bytes \<Rightarrow> string \<Rightarrow> peer_hint option \<Rightarrow> candidate_state" where
  "new_candidate wall key source hint =
     \<lparr>dht_key = key, sources = {source}, peer_hints = (case hint of None \<Rightarrow> [] | Some h \<Rightarrow> [h]),
      queued = True, first_seen_wall_ns = wall, last_seen_wall_ns = wall\<rparr>"

definition submit :: "config \<Rightarrow> int \<Rightarrow> int \<Rightarrow> candidate_manager \<Rightarrow> bytes \<Rightarrow> string \<Rightarrow> peer_hint option \<Rightarrow>
    bool \<Rightarrow> candidate_manager \<times> bool" where
  "submit cfg now wall m0 key source hint retry =
     (if length key \<noteq> 20 then (m0, False)
      else
        (let m = prune_recent cfg now m0 in
         case map_of (states m) key of
           Some c \<Rightarrow>
             (m\<lparr>states := AList.update key (merge_sighting cfg wall source hint c) (states m)\<rparr>, True)
         | None \<Rightarrow>
             if \<not> retry \<and> map_of (recent m) key \<noteq> None then (m, False)
             else
               (let m1 = m\<lparr>states := AList.update key (new_candidate wall key source hint) (states m)\<rparr> in
                if queue_full m1 then (m1\<lparr>states := AList.delete key (states m1)\<rparr>, False)
                else (m1\<lparr>queue := queue m1 @ [key]\<rparr>, True))))"

definition finish :: "config \<Rightarrow> int \<Rightarrow> int \<Rightarrow> candidate_manager \<Rightarrow> bytes \<Rightarrow> bool \<Rightarrow> candidate_manager" where
  "finish cfg stamp now m key mark_recent =
     (let m1 = m\<lparr>states := AList.delete key (states m)\<rparr> in
      if mark_recent
      then prune_recent cfg now (m1\<lparr>recent := move_to_end key (AList.update key stamp (recent m1))\<rparr>)
      else m1)"

definition state_for :: "candidate_manager \<Rightarrow> bytes \<Rightarrow> candidate_state option" where
  "state_for m key = map_of (states m) key"

section \<open>Workers\<close>

text \<open>The pool: the manager, the keys workers hold, and the keys whose processing raised. A
  worker takes the next key, and either processes it to the end, which calls \<open>finish\<close>, or an
  exception escapes \<open>_process_candidate\<close>; the worker logs it and goes on to the next key.\<close>

record pool =
  manager :: candidate_manager
  working :: "bytes list"
  crashed :: "bytes list"

datatype pool_event =
    Submitted bytes string "peer_hint option" bool bool
  | Taken bytes
  | Finished bytes
  | Crashed bytes

inductive pool_step :: "config \<Rightarrow> pool \<Rightarrow> pool_event \<Rightarrow> pool \<Rightarrow> bool" for cfg where
  submitted: "submit cfg now wall (manager p) key source hint retry = (m', ok) \<Longrightarrow>
    pool_step cfg p (Submitted key source hint retry ok) (p\<lparr>manager := m'\<rparr>)"
| taken: "queue (manager p) = key # rest \<Longrightarrow>
    pool_step cfg p (Taken key)
      (p\<lparr>manager := (manager p)\<lparr>queue := rest\<rparr>, working := key # working p\<rparr>)"
| finished: "key \<in> set (working p) \<Longrightarrow>
    pool_step cfg p (Finished key)
      (p\<lparr>manager := finish cfg stamp now (manager p) key True, working := remove1 key (working p)\<rparr>)"
| crashed: "key \<in> set (working p) \<Longrightarrow>
    pool_step cfg p (Crashed key)
      (p\<lparr>working := remove1 key (working p), crashed := key # crashed p\<rparr>)"

inductive_cases pool_stepE: "pool_step cfg p e p'"

definition pool_init :: "config \<Rightarrow> pool \<Rightarrow> bool" where
  "pool_init cfg p \<longleftrightarrow> 0 < HASH_QUEUE_SIZE cfg \<and> 0 \<le> RECENT_HASH_CACHE_SIZE cfg
     \<and> 1 \<le> MAX_PEER_HINTS_PER_CANDIDATE cfg
     \<and> p = \<lparr>manager = new_manager (HASH_QUEUE_SIZE cfg), working = [], crashed = []\<rparr>"

section \<open>The invariant\<close>

definition held :: "pool \<Rightarrow> bytes list" where
  "held p = queue (manager p) @ working p @ crashed p"

definition hints_ok :: "config \<Rightarrow> candidate_state \<Rightarrow> bool" where
  "hints_ok cfg c \<longleftrightarrow> distinct (peer_hints c)
     \<and> int (length (peer_hints c)) \<le> MAX_PEER_HINTS_PER_CANDIDATE cfg"

definition pool_ok :: "config \<Rightarrow> pool \<Rightarrow> bool" where
  "pool_ok cfg p \<longleftrightarrow>
     0 < HASH_QUEUE_SIZE cfg \<and> 0 \<le> RECENT_HASH_CACHE_SIZE cfg \<and> 1 \<le> MAX_PEER_HINTS_PER_CANDIDATE cfg
     \<and> maxsize (manager p) = HASH_QUEUE_SIZE cfg
     \<and> distinct (held p) \<and> distinct (map fst (states (manager p)))
     \<and> set (map fst (states (manager p))) = set (held p)
     \<and> (\<forall>(k, c) \<in> set (states (manager p)). length k = 20 \<and> dht_key c = k \<and> hints_ok cfg c)
     \<and> int (length (queue (manager p))) \<le> HASH_QUEUE_SIZE cfg
     \<and> int (length (recent (manager p))) \<le> RECENT_HASH_CACHE_SIZE cfg"

lemma length_prune_loop: "0 \<le> limit \<Longrightarrow> int (length (prune_loop cutoff limit r)) \<le> limit"
  by (induction cutoff limit r rule: prune_loop.induct) auto

lemma prune_recent_simps [simp]:
  "queue (prune_recent cfg now m) = queue m" "states (prune_recent cfg now m) = states m"
  "maxsize (prune_recent cfg now m) = maxsize m"
  by (simp_all add: prune_recent_def)

lemma hints_ok_merge: "hints_ok cfg c \<Longrightarrow> hints_ok cfg (merge_sighting cfg wall source hint c)"
  by (auto simp: hints_ok_def merge_sighting_def Let_def split: option.splits)

lemma dht_key_merge [simp]: "dht_key (merge_sighting cfg wall source hint c) = dht_key c"
  by (simp add: merge_sighting_def Let_def split: option.splits)

lemma set_update_alist:
  "(k', v') \<in> set (AList.update k v d) \<Longrightarrow> (k' = k \<and> v' = v) \<or> (k', v') \<in> set d"
  by (induction d) (auto split: if_splits)

lemma set_delete_alist: "(k', v') \<in> set (AList.delete k d) \<longleftrightarrow> k' \<noteq> k \<and> (k', v') \<in> set d"
  by (induction d) auto


lemma length_prune_recent:
  "0 \<le> RECENT_HASH_CACHE_SIZE cfg \<Longrightarrow>
    int (length (recent (prune_recent cfg now m))) \<le> RECENT_HASH_CACHE_SIZE cfg"
  by (simp add: prune_recent_def length_prune_loop)

text \<open>The four outcomes of \<open>submit\<close> for a key of the right length.\<close>

lemma submit_cases:
  assumes "length key = 20"
  obtains (known) c where "map_of (states m) key = Some c"
      and "submit cfg now wall m key source hint retry =
        ((prune_recent cfg now m)\<lparr>states := AList.update key (merge_sighting cfg wall source hint c) (states m)\<rparr>, True)"
  | (seen) "map_of (states m) key = None" and "\<not> retry"
      and "map_of (recent (prune_recent cfg now m)) key \<noteq> None"
      and "submit cfg now wall m key source hint retry = (prune_recent cfg now m, False)"
  | (full) "map_of (states m) key = None" and "queue_full m"
      and "submit cfg now wall m key source hint retry = (prune_recent cfg now m, False)"
  | (queued) "map_of (states m) key = None" and "\<not> queue_full m"
      and "retry \<or> map_of (recent (prune_recent cfg now m)) key = None"
      and "submit cfg now wall m key source hint retry =
        ((prune_recent cfg now m)\<lparr>states := AList.update key (new_candidate wall key source hint) (states m),
           queue := queue m @ [key]\<rparr>, True)"
proof -
  have roll: "AList.delete key (AList.update key c (states m)) = states m" if "map_of (states m) key = None" for c
  proof -
    have "key \<notin> fst ` set (states m)" using that by (simp add: map_of_eq_None_iff)
    then show ?thesis by (simp add: delete_update_same delete_id)
  qed
  have qf: "queue_full (m'\<lparr>states := st\<rparr>) = queue_full m'" for m' :: candidate_manager and st
    by (simp add: queue_full_def)
  have qf': "queue_full (prune_recent cfg now m) = queue_full m" by (simp add: queue_full_def)
  have id: "(prune_recent cfg now m)\<lparr>states := states m\<rparr> = prune_recent cfg now m"
    by (simp add: prune_recent_def)
  show thesis
  proof (cases "map_of (states m) key")
    case (Some c)
    then show thesis using assms by (intro known [of c]) (simp_all add: submit_def)
  next
    case None
    consider "\<not> retry \<and> map_of (recent (prune_recent cfg now m)) key \<noteq> None"
      | "\<not> (\<not> retry \<and> map_of (recent (prune_recent cfg now m)) key \<noteq> None)" "queue_full m"
      | "\<not> (\<not> retry \<and> map_of (recent (prune_recent cfg now m)) key \<noteq> None)" "\<not> queue_full m"
      by blast
    then show thesis
    proof cases
      case 1
      show thesis by (rule seen) (use None 1 assms in \<open>simp_all add: submit_def\<close>)
    next
      case 2
      show thesis
        by (rule full) (use None 2 assms roll [OF None] qf qf' id in \<open>auto simp: submit_def Let_def\<close>)
    next
      case 3
      show thesis
        by (rule queued) (use None 3 assms qf qf' in \<open>auto simp: submit_def Let_def\<close>)
    qed
  qed
qed


section \<open>Every step keeps the invariant\<close>

definition states_ok :: "config \<Rightarrow> (bytes \<times> candidate_state) list \<Rightarrow> bool" where
  "states_ok cfg st \<longleftrightarrow> distinct (map fst st)
     \<and> (\<forall>(k, c) \<in> set st. length k = 20 \<and> dht_key c = k \<and> hints_ok cfg c)"

lemma states_ok_update:
  assumes "states_ok cfg st" and "length k = 20" and "dht_key c = k" and "hints_ok cfg c"
  shows "states_ok cfg (AList.update k c st)"
  using assms od.put_distinct [of st k c]
  by (auto simp: states_ok_def dest!: set_update_alist)

lemma states_ok_delete: "states_ok cfg st \<Longrightarrow> states_ok cfg (AList.delete k st)"
  using od.pop_distinct [of st k] by (auto simp: states_ok_def set_delete_alist)

lemma pool_ok_alt:
  "pool_ok cfg p \<longleftrightarrow>
     0 < HASH_QUEUE_SIZE cfg \<and> 0 \<le> RECENT_HASH_CACHE_SIZE cfg \<and> 1 \<le> MAX_PEER_HINTS_PER_CANDIDATE cfg
     \<and> maxsize (manager p) = HASH_QUEUE_SIZE cfg \<and> states_ok cfg (states (manager p))
     \<and> distinct (held p) \<and> set (map fst (states (manager p))) = set (held p)
     \<and> int (length (queue (manager p))) \<le> HASH_QUEUE_SIZE cfg
     \<and> int (length (recent (manager p))) \<le> RECENT_HASH_CACHE_SIZE cfg"
  by (auto simp: pool_ok_def states_ok_def)

lemma keys_update_known: "map_of st k \<noteq> None \<Longrightarrow> set (map fst (AList.update k c st)) = set (map fst st)"
  using od.order_put [of k c st] od.order_lookup [of st] by auto

lemma keys_update_new: "set (map fst (AList.update k c st)) = insert k (set (map fst st))"
  using od.order_put [of k c st] by auto

lemma keys_delete: "set (map fst (AList.delete k st)) = set (map fst st) - {k}"
  using od.order_pop [of k st] by auto

lemma submit_short: "length key \<noteq> 20 \<Longrightarrow> submit cfg now wall m key source hint retry = (m, False)"
  by (simp add: submit_def)

lemma pool_ok_prune:
  "pool_ok cfg p \<Longrightarrow> pool_ok cfg (p\<lparr>manager := prune_recent cfg now (manager p)\<rparr>)"
  by (simp add: pool_ok_alt held_def length_prune_recent)

lemma pool_ok_submit:
  assumes ok: "pool_ok cfg p" and s: "submit cfg now wall (manager p) key source hint retry = (m', b)"
  shows "pool_ok cfg (p\<lparr>manager := m'\<rparr>)"
proof (cases "length key = 20")
  case False
  with s have "m' = manager p" by (simp add: submit_short)
  then have "p\<lparr>manager := m'\<rparr> = p" by simp
  with ok show ?thesis by simp
next
  case True
  have st: "states_ok cfg (states (manager p))" and h: "1 \<le> MAX_PEER_HINTS_PER_CANDIDATE cfg"
    and keys: "set (map fst (states (manager p))) = set (held p)"
    using ok by (simp_all add: pool_ok_alt)
  have rec: "int (length (recent (prune_recent cfg now (manager p)))) \<le> RECENT_HASH_CACHE_SIZE cfg"
    using ok by (intro length_prune_recent) (simp add: pool_ok_alt)
  have held: "held (p\<lparr>manager := m\<rparr>) = queue m @ working p @ crashed p" for m by (simp add: held_def)
  from submit_cases [OF True, of "manager p" cfg now wall source hint retry]
  show ?thesis
  proof cases
    case (1 c)
    note known = this
    have "dht_key c = key \<and> hints_ok cfg c"
      using st map_of_SomeD [OF known(1)] by (auto simp: states_ok_def)
    then have "states_ok cfg (AList.update key (merge_sighting cfg wall source hint c) (states (manager p)))"
      using st True by (intro states_ok_update) (simp_all add: hints_ok_merge)
    moreover have "set (map fst (AList.update key (merge_sighting cfg wall source hint c) (states (manager p)))) = set (held p)"
      using keys known(1) by (subst keys_update_known) simp_all
    ultimately show ?thesis using known(2) s ok rec by (simp add: pool_ok_alt held_def)
  next
    case 2
    with s pool_ok_prune [OF ok, of now] show ?thesis by simp
  next
    case 3
    with s pool_ok_prune [OF ok, of now] show ?thesis by simp
  next
    case 4
    note queued = this
    have "key \<notin> set (held p)" using queued(1) keys by (simp add: map_of_eq_None_iff)
    then have d: "distinct ((queue (manager p) @ [key]) @ working p @ crashed p)"
      using ok by (auto simp: pool_ok_alt held_def)
    have "states_ok cfg (AList.update key (new_candidate wall key source hint) (states (manager p)))"
      using st True h
      by (intro states_ok_update) (auto simp: new_candidate_def hints_ok_def split: option.splits)
    moreover have "set (map fst (AList.update key (new_candidate wall key source hint) (states (manager p)))) =
        set ((queue (manager p) @ [key]) @ working p @ crashed p)"
      unfolding keys_update_new keys by (auto simp: held_def)
    moreover have "int (length (queue (manager p) @ [key])) \<le> HASH_QUEUE_SIZE cfg"
      using queued(2) ok by (auto simp: queue_full_def pool_ok_alt)
    ultimately show ?thesis using queued(4) s ok rec d by (simp add: pool_ok_alt held_def)
  qed
qed

lemma pool_ok_step:
  assumes ok: "pool_ok cfg p" and "pool_step cfg p e p'"
  shows "pool_ok cfg p'"
  using assms(2)
proof cases
  case (submitted now wall key source hint retry m' b)
  with pool_ok_submit [OF ok] show ?thesis by blast
next
  case (taken key rest)
  have "mset (held p') = mset (held p)" using taken by (simp add: held_def)
  then have "distinct (held p') = distinct (held p)" "set (held p') = set (held p)"
    by (metis mset_eq_imp_distinct_iff, metis mset_eq_setD)
  with taken ok show ?thesis by (simp add: pool_ok_alt)
next
  case (finished key stamp now)
  have d: "distinct (working p)" using ok by (simp add: pool_ok_alt held_def)
  have "states_ok cfg (AList.delete key (states (manager p)))"
    using ok by (intro states_ok_delete) (simp add: pool_ok_alt)
  moreover have "set (map fst (AList.delete key (states (manager p)))) = set (held p) - {key}"
    using ok by (simp only: keys_delete pool_ok_alt)
  moreover have "set (held p) - {key} = set (queue (manager p)) \<union> set (remove1 key (working p)) \<union> set (crashed p)"
    using ok finished(3) d by (auto simp: pool_ok_alt held_def)
  moreover have "0 \<le> RECENT_HASH_CACHE_SIZE cfg" using ok by (simp add: pool_ok_alt)
  note length_prune_recent [OF this, of now]
  ultimately show ?thesis
    using finished(2) ok d by (simp add: pool_ok_alt held_def finish_def Let_def) blast
next
  case (crashed key)
  have "mset (held p') = mset (held p)" using crashed by (simp add: held_def)
  then have "distinct (held p') = distinct (held p)" "set (held p') = set (held p)"
    by (metis mset_eq_imp_distinct_iff, metis mset_eq_setD)
  moreover have "manager p' = manager p" using crashed by simp
  ultimately show ?thesis using ok by (simp only: pool_ok_alt simp_thms)
qed

interpretation pools: machine_invariant "pool_init cfg" "pool_step cfg" "pool_ok cfg" for cfg
proof unfold_locales
  fix p e p'
  show "pool_init cfg p \<Longrightarrow> pool_ok cfg p"
    by (auto simp: pool_init_def pool_ok_def new_manager_def held_def)
  show "pool_ok cfg p \<Longrightarrow> pool_step cfg p e p' \<Longrightarrow> pool_ok cfg p'" by (rule pool_ok_step)
qed


lemma crashed_grows:
  assumes "reachable (\<lambda>q. q = p) (pool_step cfg) p'"
  shows "set (crashed p) \<subseteq> set (crashed p')"
  using assms
proof (induction rule: reachable.induct)
  case (step q e q')
  from step.hyps(2) have "set (crashed q) \<subseteq> set (crashed q')" by cases auto
  with step.IH show ?case by blast
qed simp

section \<open>Properties\<close>


lemma demo_pool_init:
  "pool_init default_config \<lparr>manager = new_manager 5000, working = [], crashed = []\<rparr>"
  by (simp add: pool_init_def default_config_def)

definition demo_key :: bytes where
  "demo_key = replicate 20 1"

definition demo_pool :: pool where
  "demo_pool = \<lparr>manager = \<lparr>queue = [], maxsize = 5000,
     states = [(demo_key, new_candidate 9 demo_key ''bep51'' None)], recent = []\<rparr>,
     working = [demo_key], crashed = []\<rparr>"

lemma demo_pool_reachable: "reachable (pool_init default_config) (pool_step default_config) demo_pool"
proof -
  let ?p0 = "\<lparr>manager = new_manager 5000, working = [], crashed = []\<rparr>"
  let ?m = "\<lparr>queue = [demo_key], maxsize = 5000,
      states = [(demo_key, new_candidate 9 demo_key ''bep51'' None)], recent = []\<rparr>"
  have "submit default_config 5 9 (manager ?p0) demo_key ''bep51'' None False = (?m, True)"
    by (simp add: submit_def prune_recent_def new_manager_def queue_full_def Let_def demo_key_def)
  then have 1: "pool_step default_config ?p0 (Submitted demo_key ''bep51'' None False True) (?p0\<lparr>manager := ?m\<rparr>)"
    by (rule pool_step.submitted)
  have 2: "pool_step default_config (?p0\<lparr>manager := ?m\<rparr>) (Taken demo_key) demo_pool"
    using pool_step.taken [of "?p0\<lparr>manager := ?m\<rparr>" demo_key "[]" default_config] by (simp add: demo_pool_def)
  have "reachable (pool_init default_config) (pool_step default_config) ?p0"
    by (rule reachable.start) (rule demo_pool_init)
  then have "reachable (pool_init default_config) (pool_step default_config) (?p0\<lparr>manager := ?m\<rparr>)"
    using 1 by (rule reachable.step)
  then show ?thesis using 2 by (rule reachable.step)
qed


text \<open>What \<open>submit\<close> answers: it accepts a key it already tracks, and otherwise accepts it
  exactly when the queue has room and the key is not a recent one (or this is a retry); only
  then is it queued, once, at the end; a refused key leaves no state behind.\<close>

theorem submit_outcome:
  assumes "length key = 20" and "submit cfg now wall m key source hint retry = (m', ok)"
  shows "(ok \<longleftrightarrow> map_of (states m) key \<noteq> None
            \<or> (\<not> queue_full m \<and> (retry \<or> map_of (recent (prune_recent cfg now m)) key = None)))
    \<and> queue m' = (if ok \<and> map_of (states m) key = None then queue m @ [key] else queue m)
    \<and> (if ok then map_of (states m') key \<noteq> None else states m' = states m)
    \<and> (\<forall>k. k \<noteq> key \<longrightarrow> map_of (states m') k = map_of (states m) k)"
  using submit_cases [OF assms(1), of m cfg now wall source hint retry]
proof cases
  case (1 c)
  then show ?thesis using assms(2) by (auto simp: od.lookup_put)
next
  case 2
  then show ?thesis using assms(2) by auto
next
  case 3
  then show ?thesis using assms(2) by auto
next
  case 4
  then show ?thesis using assms(2) by (auto simp: od.lookup_put)
qed

lemma submit_outcome_witness:
  "\<exists>m'. submit default_config 5 9 (new_manager 1) demo_key ''bep51'' None False = (m', True)
    \<and> queue m' = [demo_key]"
proof -
  obtain m' ok where s: "submit default_config 5 9 (new_manager 1) demo_key ''bep51'' None False = (m', ok)"
    by fastforce
  from submit_outcome [OF _ s] have "ok" "queue m' = [demo_key]"
    by (simp_all add: demo_key_def new_manager_def queue_full_def prune_recent_def)
  with s show ?thesis by simp
qed

text \<open>C11. A key whose processing raises is lost until the program restarts: whatever happens
  afterwards, it keeps its state, so that every later sighting is accepted, but it is never
  queued and no worker ever takes it again.\<close>

theorem crashed_key_stuck:
  assumes "reachable (pool_init cfg) (pool_step cfg) p"
    and "pool_step cfg p (Crashed key) p1"
    and "reachable (\<lambda>q. q = p1) (pool_step cfg) p2"
  shows "key \<notin> set (queue (manager p2)) \<and> key \<notin> set (working p2)
    \<and> map_of (states (manager p2)) key \<noteq> None
    \<and> snd (submit cfg now wall (manager p2) key source hint retry)"
proof -
  have "reachable (pool_init cfg) (pool_step cfg) p2"
    by (rule reachable_trans [OF assms(3) reachable.step [OF assms(1,2)]])
  then have ok: "pool_ok cfg p2" by (rule pools.reachable_inv)
  have "key \<in> set (crashed p1)" using assms(2) by (rule pool_stepE) auto
  then have c: "key \<in> set (crashed p2)" using crashed_grows [OF assms(3)] by blast
  then have not: "key \<notin> set (queue (manager p2))" "key \<notin> set (working p2)"
    using ok by (auto simp: pool_ok_def held_def)
  have "key \<in> set (map fst (states (manager p2)))"
    using ok c unfolding pool_ok_def held_def by (metis Un_iff set_append)
  then obtain st where st: "map_of (states (manager p2)) key = Some st"
    by (metis map_of_eq_None_iff not_None_eq set_map)
  have "length key = 20" using ok map_of_SomeD [OF st] by (auto simp: pool_ok_def)
  then show ?thesis using not st by (simp add: submit_def)
qed

lemma crashed_key_stuck_witness:
  "snd (submit default_config 8 8 (manager demo_pool) demo_key ''get_peers'' None True)"
proof -
  have "pool_step default_config demo_pool (Crashed demo_key) (demo_pool\<lparr>working := [], crashed := [demo_key]\<rparr>)"
    using pool_step.crashed [of demo_key demo_pool default_config] by (simp add: demo_pool_def)
  moreover have "reachable (\<lambda>q. q = demo_pool\<lparr>working := [], crashed := [demo_key]\<rparr>)
      (pool_step default_config) (demo_pool\<lparr>working := [], crashed := [demo_key]\<rparr>)"
    by (rule reachable.start) simp
  ultimately have "snd (submit default_config 8 8 (manager (demo_pool\<lparr>working := [], crashed := [demo_key]\<rparr>)) demo_key ''get_peers'' None True)"
    using crashed_key_stuck [OF demo_pool_reachable] by blast
  then show ?thesis by simp
qed

end
