(* ===== verification/Token_Bucket.thy ===== *)
theory Token_Bucket
  imports Prelude Complex_Main
begin

text \<open>
  The \<open>TokenBucket\<close> of \<open>includes/dht.py\<close> that limits outgoing queries. \<open>acquire\<close> is a loop of
  attempts made under the lock, with a sleep between them; a step of the machine is one
  attempt, the entry into \<open>acquire\<close>, or its cancellation. Python's floats are rationals here:
  the theorems are about exact arithmetic.
\<close>

section \<open>The bucket\<close>

record token_bucket =
  rate :: rat
  capacity :: rat
  tokens :: rat
  updated :: rat
  waiters :: "nat list"

definition new_token_bucket :: "rat \<Rightarrow> rat \<Rightarrow> rat \<Rightarrow> token_bucket" where
  "new_token_bucket r burst now =
     \<lparr>rate = r, capacity = burst, tokens = burst, updated = now, waiters = [0, 0, 0]\<rparr>"

definition clamp_priority :: "int \<Rightarrow> nat" where
  "clamp_priority p = nat (max 0 (min p 2))"

text \<open>\<open>self._waiters[priority] += 1\<close> and the \<open>finally\<close> clause.\<close>

definition enter :: "nat \<Rightarrow> token_bucket \<Rightarrow> token_bucket" where
  "enter p b = b\<lparr>waiters := (waiters b)[p := waiters b ! p + 1]\<rparr>"

definition leave :: "nat \<Rightarrow> token_bucket \<Rightarrow> token_bucket" where
  "leave p b = b\<lparr>waiters := (waiters b)[p := waiters b ! p - 1]\<rparr>"

definition refill :: "rat \<Rightarrow> token_bucket \<Rightarrow> token_bucket" where
  "refill now b =
     b\<lparr>tokens := min (capacity b) (tokens b + (now - updated b) * rate b), updated := now\<rparr>"

definition higher_waiting :: "nat \<Rightarrow> token_bucket \<Rightarrow> bool" where
  "higher_waiting p b \<longleftrightarrow> list_ex (\<lambda>q. 0 < waiters b ! q) [0..<p]"

datatype outcome = Granted | Wait rat

text \<open>The body of the loop: granted, or the time to sleep before the next attempt.\<close>

definition attempt :: "rat \<Rightarrow> nat \<Rightarrow> token_bucket \<Rightarrow> token_bucket \<times> outcome" where
  "attempt now p b0 =
     (let b = refill now b0 in
      if 1 \<le> tokens b \<and> \<not> higher_waiting p b
      then (leave p (b\<lparr>tokens := tokens b - 1\<rparr>), Granted)
      else (let delay = (if tokens b < 1 then max (1 / 1000) ((1 - tokens b) / rate b) else 1 / 1000)
            in (b, Wait (min delay (5 / 100)))))"

section \<open>Runs\<close>

datatype bucket_event = Enter int | Attempt rat int outcome | Cancel int

inductive bucket_step :: "token_bucket \<Rightarrow> bucket_event \<Rightarrow> token_bucket \<Rightarrow> bool" where
  enter: "bucket_step b (Enter prio) (enter (clamp_priority prio) b)"
| attempt: "0 < waiters b ! clamp_priority prio \<Longrightarrow> updated b \<le> now \<Longrightarrow>
    attempt now (clamp_priority prio) b = (b', r) \<Longrightarrow> bucket_step b (Attempt now prio r) b'"
| cancel: "0 < waiters b ! clamp_priority prio \<Longrightarrow>
    bucket_step b (Cancel prio) (leave (clamp_priority prio) b)"

text \<open>A run with the number of grants in it.\<close>

inductive bucket_run :: "token_bucket \<Rightarrow> nat \<Rightarrow> token_bucket \<Rightarrow> bool" where
  stop: "bucket_run b 0 b"
| grant: "bucket_run b n b1 \<Longrightarrow> bucket_step b1 (Attempt now prio Granted) b2 \<Longrightarrow> bucket_run b (Suc n) b2"
| other: "bucket_run b n b1 \<Longrightarrow> bucket_step b1 e b2 \<Longrightarrow>
    \<forall>now prio. e \<noteq> Attempt now prio Granted \<Longrightarrow> bucket_run b n b2"

inductive_cases bucket_stepE: "bucket_step b e b'"

definition bucket_ok :: "token_bucket \<Rightarrow> bool" where
  "bucket_ok b \<longleftrightarrow> 0 < rate b \<and> 1 \<le> capacity b \<and> 0 \<le> tokens b \<and> tokens b \<le> capacity b
     \<and> length (waiters b) = 3"

lemma enter_leave_simps [simp]:
  "rate (enter p b) = rate b" "capacity (enter p b) = capacity b" "tokens (enter p b) = tokens b"
  "updated (enter p b) = updated b" "length (waiters (enter p b)) = length (waiters b)"
  "rate (leave p b) = rate b" "capacity (leave p b) = capacity b" "tokens (leave p b) = tokens b"
  "updated (leave p b) = updated b" "length (waiters (leave p b)) = length (waiters b)"
  by (simp_all add: enter_def leave_def)

lemma refill_simps [simp]:
  "rate (refill now b) = rate b" "capacity (refill now b) = capacity b"
  "updated (refill now b) = now" "waiters (refill now b) = waiters b"
  by (simp_all add: refill_def)

lemma refill_bounds:
  assumes "bucket_ok b" and "updated b \<le> now"
  shows "0 \<le> tokens (refill now b)" and "tokens (refill now b) \<le> capacity b"
    and "tokens (refill now b) \<le> tokens b + (now - updated b) * rate b"
proof -
  have "0 \<le> (now - updated b) * rate b" using assms by (simp add: bucket_ok_def)
  then show "0 \<le> tokens (refill now b)" using assms(1) by (simp add: refill_def bucket_ok_def)
qed (simp_all add: refill_def)

lemma attempt_spec:
  assumes "bucket_ok b" and "updated b \<le> now" and "attempt now p b = (b', r)"
  shows "bucket_ok b'" and "updated b' = now" and "rate b' = rate b" and "capacity b' = capacity b"
    and "(if r = Granted then 1 else 0) + tokens b' \<le> tokens b + (now - updated b) * rate b"
  using assms refill_bounds [OF assms(1,2)]
  by (auto simp: attempt_def Let_def bucket_ok_def split: if_splits)

text \<open>What a step does to the account: a grant costs a token, time earns them.\<close>

lemma step_account:
  assumes "bucket_step b e b'" and "bucket_ok b"
  shows "bucket_ok b' \<and> updated b \<le> updated b' \<and> rate b' = rate b \<and> capacity b' = capacity b
    \<and> (if \<exists>now prio. e = Attempt now prio Granted then 1 else 0) + tokens b'
        \<le> tokens b + (updated b' - updated b) * rate b"
  using assms
proof cases
  case (attempt prio now r)
  with attempt_spec [OF assms(2) attempt(3,4)] show ?thesis by auto
qed (auto simp: bucket_ok_def)

lemma run_account:
  assumes "bucket_run b n b'" and "bucket_ok b"
  shows "bucket_ok b' \<and> updated b \<le> updated b' \<and> rate b' = rate b \<and> capacity b' = capacity b
    \<and> of_nat n + tokens b' \<le> tokens b + (updated b' - updated b) * rate b"
  using assms
proof (induction rule: bucket_run.induct)
  case (grant b n b1 now prio b2)
  with step_account [OF grant.hyps(2)] show ?case by (simp add: algebra_simps)
next
  case (other b n b1 e b2)
  have "\<not> (\<exists>now prio. e = Attempt now prio Granted)" using other.hyps(3) by blast
  with other.IH [OF other.prems] step_account [OF other.hyps(2)] show ?case by (simp add: algebra_simps)
qed simp


lemma new_bucket_ok: "0 < r \<Longrightarrow> 1 \<le> burst \<Longrightarrow> bucket_ok (new_token_bucket r burst now)"
  by (simp add: bucket_ok_def new_token_bucket_def)

section \<open>Properties\<close>

text \<open>C12. The rate limit: in any run of a bucket, whatever callers enter, wait and give up, at
  most \<open>burst\<close> queries plus \<open>rate\<close> per second elapsed are granted.\<close>

theorem grants_bounded:
  assumes "0 < r" and "1 \<le> burst" and "bucket_run (new_token_bucket r burst now) n b"
  shows "of_nat n \<le> burst + (updated b - now) * r \<and> 0 \<le> tokens b \<and> tokens b \<le> burst"
  using run_account [OF assms(3) new_bucket_ok [OF assms(1,2)]]
  by (simp add: new_token_bucket_def bucket_ok_def)

lemma grants_bounded_witness:
  "\<exists>b. bucket_run (new_token_bucket 50 10 0) 1 b \<and> (1 :: rat) \<le> 10 + (updated b - 0) * 50"
proof -
  let ?b0 = "new_token_bucket 50 10 0"
  have 0: "bucket_step ?b0 (Enter 0) (enter 0 ?b0)"
    using bucket_step.enter [of ?b0 0] by (simp add: clamp_priority_def)
  obtain b' where a: "attempt 1 0 (enter 0 ?b0) = (b', Granted)"
    by (auto simp: attempt_def Let_def refill_def enter_def new_token_bucket_def higher_waiting_def)
  have "bucket_step (enter 0 ?b0) (Attempt 1 0 Granted) b'"
    by (rule bucket_step.attempt) (use a in \<open>simp_all add: clamp_priority_def enter_def new_token_bucket_def\<close>)
  with bucket_run.other [OF bucket_run.stop 0] have "bucket_run ?b0 (Suc 0) b'"
    by (intro bucket_run.grant) auto
  with grants_bounded [of 50 10 0 "Suc 0" b'] show ?thesis by auto
qed

text \<open>A query is granted exactly when a token has accumulated and no caller of a more urgent
  priority waits; otherwise the caller sleeps for a positive time of at most 50 ms.\<close>

theorem grant_iff_due:
  assumes "bucket_ok b" and "updated b \<le> now"
  shows "(snd (attempt now p b) = Granted \<longleftrightarrow>
       1 \<le> tokens b + (now - updated b) * rate b \<and> (\<forall>q < p. waiters b ! q = 0))
    \<and> (\<forall>delay. snd (attempt now p b) = Wait delay \<longrightarrow> 0 < delay \<and> delay \<le> 1 / 20)"
proof -
  have "1 \<le> tokens (refill now b) \<longleftrightarrow> 1 \<le> tokens b + (now - updated b) * rate b"
    using assms(1) by (auto simp: refill_def bucket_ok_def)
  moreover have "\<not> higher_waiting p (refill now b) \<longleftrightarrow> (\<forall>q < p. waiters b ! q = 0)"
    by (auto simp: higher_waiting_def list_ex_iff)
  ultimately have "snd (attempt now p b) = Granted \<longleftrightarrow>
      1 \<le> tokens b + (now - updated b) * rate b \<and> (\<forall>q < p. waiters b ! q = 0)"
    by (auto simp: attempt_def Let_def)
  moreover have "0 < min (max (1 / 1000) x) (5 / 100 :: rat)" "min x (5 / 100 :: rat) \<le> 1 / 20"
    "0 < min (1 / 1000 :: rat) (5 / 100)" for x :: rat
    by (auto simp: min_def max_def)
  then have "snd (attempt now p b) = Wait delay \<Longrightarrow> 0 < delay \<and> delay \<le> 1 / 20" for delay
    by (simp only: attempt_def Let_def) (auto split: if_splits)
  ultimately show ?thesis by blast
qed

lemma grant_iff_due_witness:
  "snd (attempt 1 2 ((new_token_bucket 50 10 0)\<lparr>waiters := [0, 1, 1]\<rparr>)) \<noteq> Granted"
proof -
  have "bucket_ok ((new_token_bucket 50 10 0)\<lparr>waiters := [0, 1, 1]\<rparr>)"
    by (simp add: bucket_ok_def new_token_bucket_def)
  moreover have "((new_token_bucket 50 10 0)\<lparr>waiters := [0, 1, 1]\<rparr>) \<in> {b. updated b \<le> 1 \<and> waiters b ! 1 = 1}"
    by (simp add: new_token_bucket_def)
  ultimately show ?thesis
    using grant_iff_due [of "(new_token_bucket 50 10 0)\<lparr>waiters := [0, 1, 1]\<rparr>" 1 2]
    by (auto intro: exI [of _ "1 :: nat"] simp: new_token_bucket_def)
qed

end
