(* ===== verification/Utf8.thy ===== *)
theory Utf8
  imports Bencode
begin

text \<open>
  \<open>bytes.decode("utf-8", errors="replace")\<close>: each maximal valid prefix of a sequence that
  cannot be completed, and each byte that starts none, becomes one U+FFFD. The peer client and
  the indexer decode remote text with it.
\<close>

text \<open>For a leading byte: how many continuation bytes follow, the bounds of the first of them
  (which exclude overlong forms, surrogates and values above U+10FFFF), and its payload.\<close>

definition utf8_lead :: "nat \<Rightarrow> (nat \<times> nat \<times> nat \<times> nat) option" where
  "utf8_lead b =
     (if 194 \<le> b \<and> b \<le> 223 then Some (1, 128, 191, b - 192)
      else if b = 224 then Some (2, 160, 191, 0)
      else if b = 237 then Some (2, 128, 159, 13)
      else if 225 \<le> b \<and> b \<le> 239 then Some (2, 128, 191, b - 224)
      else if b = 240 then Some (3, 144, 191, 0)
      else if 241 \<le> b \<and> b \<le> 243 then Some (3, 128, 191, b - 240)
      else if b = 244 then Some (3, 128, 143, 4)
      else None)"

fun utf8_continue :: "nat \<Rightarrow> nat \<Rightarrow> nat \<Rightarrow> nat \<Rightarrow> bytes \<Rightarrow> nat option \<times> bytes" where
  "utf8_continue 0 lo hi acc bs = (Some acc, bs)"
| "utf8_continue (Suc n) lo hi acc [] = (None, [])"
| "utf8_continue (Suc n) lo hi acc (b # bs) =
     (if lo \<le> unat b \<and> unat b \<le> hi then utf8_continue n 128 191 (64 * acc + (unat b - 128)) bs
      else (None, b # bs))"

lemma utf8_continue_shorter: "length (snd (utf8_continue n lo hi acc bs)) \<le> length bs"
  by (induction n lo hi acc bs rule: utf8_continue.induct) auto

function utf8_decode :: "bytes \<Rightarrow> ustr" where
  "utf8_decode [] = []"
| "utf8_decode (b # bs) =
     (if unat b < 128 then unat b # utf8_decode bs
      else case utf8_lead (unat b) of
        None \<Rightarrow> 65533 # utf8_decode bs
      | Some (n, lo, hi, acc) \<Rightarrow>
          (case fst (utf8_continue n lo hi acc bs) of None \<Rightarrow> 65533 | Some c \<Rightarrow> c)
            # utf8_decode (snd (utf8_continue n lo hi acc bs)))"
  by pat_completeness auto
termination
  by (relation "measure length") (auto simp: le_imp_less_Suc utf8_continue_shorter)

declare utf8_decode.simps(2) [simp del]

section \<open>Decoding what was encoded\<close>

definition scalar_value :: "nat \<Rightarrow> bool" where
  "scalar_value c \<longleftrightarrow> c < 1114112 \<and> \<not> (55296 \<le> c \<and> c < 57344)"

lemma unat_byte_of_nat: "n < 256 \<Longrightarrow> unat (of_nat n :: byte) = n"
  by (rule unat_of_nat_byte)

lemma split64: "(n :: nat) = 64 * (n div 64) + n mod 64" "n div 4096 = n div 64 div 64"
  "n div 262144 = n div 64 div 64 div 64"
  by (simp_all flip: div_mult2_eq)

lemma utf8_char_decode:
  assumes "scalar_value c" and "utf8_char c = Some w"
  shows "utf8_decode (w @ rest) = c # utf8_decode rest"
proof -
  consider "c < 128" | "128 \<le> c" "c < 2048" | "2048 \<le> c" "c < 65536" "\<not> (55296 \<le> c \<and> c < 57344)"
    | "65536 \<le> c" "c < 1114112"
    using assms(1) by (fastforce simp: scalar_value_def)
  then show ?thesis
  proof cases
    case 1
    then show ?thesis using assms(2) by (auto simp: utf8_char_def utf8_decode.simps(2) unat_byte_of_nat)
  next
    case 2
    define q r where "q = c div 64" and "r = c mod 64"
    have c: "c = 64 * q + r" "r < 64" "2 \<le> q" "q < 32" using 2 by (auto simp: q_def r_def)
    have "w = [of_nat (192 + q), of_nat (128 + r)]" using assms(2) 2 by (simp add: utf8_char_def q_def r_def)
    then show ?thesis using c
      by (simp add: utf8_decode.simps(2) unat_byte_of_nat utf8_lead_def numeral_2_eq_2 del: of_nat_add)
  next
    case 3
    define q r s where "q = c div 4096" and "r = c div 64 mod 64" and "s = c mod 64"
    have "c = 64 * (64 * q + r) + s"
      unfolding q_def r_def s_def split64(2) by (metis split64(1))
    then have c: "c = 64 * (64 * q + r) + s" "r < 64" "s < 64" "q < 16"
      using 3 by (auto simp: q_def r_def s_def)
    have w: "w = [of_nat (224 + q), of_nat (128 + r), of_nat (128 + s)]"
      using assms(2) 3 by (auto simp: utf8_char_def q_def r_def s_def)
    have "q = 0 \<longrightarrow> 32 \<le> r" "q = 13 \<longrightarrow> r < 32" using 3 c by auto
    then show ?thesis using c w
      by (auto simp: utf8_decode.simps(2) unat_byte_of_nat utf8_lead_def numeral_2_eq_2 simp del: of_nat_add)
  next
    case 4
    define q r s u where "q = c div 262144" and "r = c div 4096 mod 64" and "s = c div 64 mod 64"
      and "u = c mod 64"
    have "c = 64 * (64 * (64 * q + r) + s) + u"
      unfolding q_def r_def s_def u_def split64(2,3) by (metis split64(1))
    then have c: "c = 64 * (64 * (64 * q + r) + s) + u" "r < 64" "s < 64" "u < 64" "q < 5"
      using 4 by (auto simp: q_def r_def s_def u_def)
    have w: "w = [of_nat (240 + q), of_nat (128 + r), of_nat (128 + s), of_nat (128 + u)]"
      using assms(2) 4 by (auto simp: utf8_char_def q_def r_def s_def u_def)
    have "q = 0 \<longrightarrow> 16 \<le> r" "q = 4 \<longrightarrow> r < 16" using 4 c by auto
    then show ?thesis using c w
      by (auto simp: utf8_decode.simps(2) unat_byte_of_nat utf8_lead_def numeral_3_eq_3 simp del: of_nat_add)
  qed
qed

lemma utf8_decode_encode:
  "list_all scalar_value s \<Longrightarrow> utf8_encode s = Inr bs \<Longrightarrow> utf8_decode bs = s"
proof (induction s arbitrary: bs)
  case (Cons c s)
  then obtain w bs' where "utf8_char c = Some w" "utf8_encode s = Inr bs'" "bs = w @ bs'"
    by (auto simp: bind_r_Inr_iff split: option.splits)
  with Cons show ?case by (auto simp: utf8_char_decode)
qed simp


text \<open>Decoding the UTF-8 bytes of a text without surrogates gives the text back, so the
  replacement of malformed input never touches well-formed text.\<close>

theorem utf8_roundtrip:
  assumes "list_all scalar_value s" and "utf8_encode s = Inr bs"
  shows "utf8_decode bs = s"
  by (rule utf8_decode_encode [OF assms])

lemma utf8_roundtrip_witness:
  "utf8_encode [233, 8364, 128512] = Inr [0xC3, 0xA9, 0xE2, 0x82, 0xAC, 0xF0, 0x9F, 0x98, 0x80]
    \<and> utf8_decode [0xC3, 0xA9, 0xE2, 0x82, 0xAC, 0xF0, 0x9F, 0x98, 0x80] = [233, 8364, 128512]"
proof -
  have e: "utf8_encode [233, 8364, 128512] = Inr [0xC3, 0xA9, 0xE2, 0x82, 0xAC, 0xF0, 0x9F, 0x98, 0x80]"
    by (simp add: utf8_char_def)
  have "list_all scalar_value [233, 8364, 128512]" by (simp add: scalar_value_def)
  from utf8_roundtrip [OF this e] e show ?thesis by blast
qed

end
