(* ===== verification/Peer_Wire.thy ===== *)
theory Peer_Wire
  imports Utf8 Sha1 Config
begin

text \<open>
  \<open>includes/peer.py\<close>: the BitTorrent handshake, the BEP-10 extension handshake and the BEP-9
  metadata exchange. A session is a function of the bytes the peer sends before the stream
  ends; it returns what the client gets, and the download keeps the messages it writes in
  \<open>written\<close>. Connecting, time limits and the record of a session's end are in \<open>Session\<close>; the
  evidence records during a session are not modelled.
\<close>

section \<open>Errors\<close>

text \<open>\<open>PeerError\<close> carries its category and stage (\<open>MetadataRejected\<close> and
  \<open>MetadataHashMismatch\<close> are its subclasses with fixed ones). \<open>Escaped\<close> is any other exception
  raised in the session; \<open>IncompleteRead\<close> is \<open>asyncio.IncompleteReadError\<close>.\<close>

datatype peer_exn = PeerError string string | IncompleteRead | Escaped pyexn

definition bencode_exn :: "string \<Rightarrow> string \<Rightarrow> decode_exn \<Rightarrow> peer_exn" where
  "bencode_exn category stage e =
     (case e of
        BencodeError m \<Rightarrow> PeerError category stage
      | IntLimit \<Rightarrow> Escaped (ValueError ''Exceeds the limit (4300 digits) for integer string conversion'')
      | OutOfFuel \<Rightarrow> Escaped (AssertionError ''fuel''))"

definition wire_limits :: "config \<Rightarrow> decode_limits" where
  "wire_limits cfg =
     \<lparr>max_depth = nat (MAX_BENCODE_DEPTH cfg), max_items = nat (MAX_BENCODE_ITEMS cfg),
      max_string_length = nat (MAX_BENCODE_STRING_LENGTH cfg)\<rparr>"

section \<open>The handshake\<close>

definition BT_PROTOCOL :: bytes where "BT_PROTOCOL = ascii ''BitTorrent protocol''"
definition BT_HANDSHAKE_BYTES :: nat where "BT_HANDSHAKE_BYTES = 68"
definition BT_EXTENDED_MESSAGE_ID :: nat where "BT_EXTENDED_MESSAGE_ID = 20"
definition BT_PORT_MESSAGE_ID :: nat where "BT_PORT_MESSAGE_ID = 9"
definition BEP9_BLOCK_SIZE :: nat where "BEP9_BLOCK_SIZE = 16384"
definition LOCAL_UT_METADATA_ID :: nat where "LOCAL_UT_METADATA_ID = 1"

record peer_handshake =
  protocol_identifier :: bytes
  reserved :: bytes
  info_hash :: bytes
  peer_id :: bytes

definition extension_protocol :: "peer_handshake \<Rightarrow> bool" where
  "extension_protocol h \<longleftrightarrow> reserved h ! 5 AND 0x10 \<noteq> 0"

definition dht_capability :: "peer_handshake \<Rightarrow> bool" where
  "dht_capability h \<longleftrightarrow> reserved h ! 7 AND 0x01 \<noteq> 0"

definition build_handshake :: "bytes \<Rightarrow> bytes \<Rightarrow> pyexn + bytes" where
  "build_handshake ih pid =
     (if length ih \<noteq> 20 \<or> length pid \<noteq> 20
      then Inl (ValueError ''info_hash and peer_id must be 20 bytes'')
      else
        (let zeros = replicate 8 (0 :: byte);
             bits = (zeros[5 := zeros ! 5 OR 0x10]);
             bits = bits[7 := bits ! 7 OR 0x01]
         in Inr ([of_nat (length BT_PROTOCOL)] @ BT_PROTOCOL @ bits @ ih @ pid)))"

definition parse_handshake :: "bytes \<Rightarrow> bytes \<Rightarrow> peer_exn + peer_handshake" where
  "parse_handshake data expected =
     (if length data \<noteq> BT_HANDSHAKE_BYTES then Inl (PeerError ''handshake_invalid'' ''bt_handshake'')
      else if unat (data ! 0) \<noteq> length BT_PROTOCOL \<or> slice data 1 20 \<noteq> BT_PROTOCOL
      then Inl (PeerError ''handshake_invalid'' ''bt_handshake'')
      else if slice data 28 48 \<noteq> expected then Inl (PeerError ''handshake_invalid'' ''bt_handshake'')
      else Inr \<lparr>protocol_identifier = BT_PROTOCOL, reserved = slice data 20 28,
                info_hash = slice data 28 48, peer_id = slice data 48 68\<rparr>)"

section \<open>The extension handshake\<close>

record extension_handshake =
  mapping :: "(bytes \<times> int) list"
  ut_metadata_id :: "int option"
  metadata_size :: "int option"
  peer_listen_port :: "int option"
  peer_client :: "ustr option"
  yourip :: "atext option"
  advertised_ipv4 :: "atext option"
  advertised_ipv6 :: "atext option"
  reqq :: "int option"

fun compact_ip :: "pyval option \<Rightarrow> atext option" where
  "compact_ip (Some (PBytes v)) =
     (if length v = 4 then Some (show_ipv4 (ipv4_of_bytes v))
      else if length v = 16 then Some (show_ipv6 v) else None)"
| "compact_ip _ = None"

text \<open>The loop over \<open>raw_mapping.items()\<close>; the decoder gives distinct byte-string keys.\<close>

fun extension_ids :: "pdict \<Rightarrow> (bytes \<times> int) list" where
  "extension_ids ((KBytes name, PInt i) # d) =
     (if 0 \<le> i \<and> i \<le> 255 then (name, i) # extension_ids d else extension_ids d)"
| "extension_ids (_ # d) = extension_ids d"
| "extension_ids [] = []"

definition int_in :: "int \<Rightarrow> int option \<Rightarrow> pyval option \<Rightarrow> int option" where
  "int_in lo hi v =
     (case v of
        Some (PInt i) \<Rightarrow> if lo \<le> i \<and> (case hi of None \<Rightarrow> True | Some h \<Rightarrow> i \<le> h) then Some i else None
      | _ \<Rightarrow> None)"

definition parse_extension_handshake :: "config \<Rightarrow> bytes \<Rightarrow> peer_exn + extension_handshake" where
  "parse_extension_handshake cfg payload =
     bind_r (map_exn (bencode_exn ''extension_handshake_invalid'' ''extension_handshake'')
               (decode (wire_limits cfg) False payload))
       (\<lambda>v. case v of
          PDict d \<Rightarrow>
            (let m = (case dget d ''m'' of Some (PDict raw) \<Rightarrow> extension_ids raw | _ \<Rightarrow> []);
                 ut = (case map_of m (ascii ''ut_metadata'') of Some i \<Rightarrow> if i = 0 then None else Some i | None \<Rightarrow> None);
                 sz = dget d ''metadata_size''
             in if sz \<noteq> None \<and> int_in 1 (Some (MAX_METADATA_SIZE cfg)) sz = None
                then Inl (PeerError ''extension_handshake_invalid'' ''extension_handshake'')
                else Inr \<lparr>mapping = m, ut_metadata_id = ut,
                          metadata_size = int_in 1 (Some (MAX_METADATA_SIZE cfg)) sz,
                          peer_listen_port = int_in 1 (Some 65535) (dget d ''p''),
                          peer_client = (case dget d ''v'' of
                             Some (PBytes b) \<Rightarrow> Some (take (nat (MAX_EVIDENCE_TEXT_LENGTH cfg)) (utf8_decode b))
                           | _ \<Rightarrow> None),
                          yourip = compact_ip (dget d ''yourip''),
                          advertised_ipv4 = compact_ip (dget d ''ipv4''),
                          advertised_ipv6 = compact_ip (dget d ''ipv6''),
                          reqq = int_in 0 None (dget d ''reqq'')\<rparr>)
        | _ \<Rightarrow> Inl (PeerError ''extension_handshake_invalid'' ''extension_handshake''))"

text \<open>\<open>struct.pack("!I", len(body)) + body\<close>; a length that needs more than four bytes is an error
  the code never meets.\<close>

definition frame :: "bytes \<Rightarrow> bytes" where
  "frame body = to_bytes 4 (length body) @ body"

definition extended_message :: "nat \<Rightarrow> bytes \<Rightarrow> bytes" where
  "extended_message ext payload = frame (of_nat BT_EXTENDED_MESSAGE_ID # of_nat ext # payload)"

definition build_extended_handshake :: "config \<Rightarrow> pyexn + bytes" where
  "build_extended_handshake cfg =
     bind_r (encode (PDict
       [(KBytes (ascii ''m''), PDict [(KBytes (ascii ''ut_metadata''), PInt (int LOCAL_UT_METADATA_ID))]),
        (KBytes (ascii ''v''), PBytes (ascii (PEER_CLIENT_NAME cfg))),
        (KBytes (ascii ''reqq''), PInt (METADATA_REQUEST_PIPELINE cfg))]))
     (\<lambda>payload. Inr (extended_message 0 payload))"

section \<open>Metadata messages\<close>

definition metadata_header :: "int \<Rightarrow> int \<Rightarrow> pyval" where
  "metadata_header msg_type piece =
     PDict [(KBytes (ascii ''msg_type''), PInt msg_type), (KBytes (ascii ''piece''), PInt piece)]"

definition build_metadata_request :: "int \<Rightarrow> int \<Rightarrow> pyexn + bytes" where
  "build_metadata_request ext piece =
     (if \<not> (1 \<le> ext \<and> ext \<le> 255) \<or> piece < 0 then Inl (ValueError ''invalid extension ID or piece'')
      else bind_r (encode (metadata_header 0 piece)) (\<lambda>payload. Inr (extended_message (nat ext) payload)))"

definition build_metadata_reject :: "nat \<Rightarrow> int \<Rightarrow> pyexn + bytes" where
  "build_metadata_reject ext piece =
     bind_r (encode (metadata_header 2 piece)) (\<lambda>payload. Inr (extended_message ext payload))"

text \<open>The test \<open>msg_type not in {0, 1, 2}\<close>: a list or dictionary cannot be hashed.\<close>

definition msg_type_ok :: "pyval option \<Rightarrow> peer_exn + bool" where
  "msg_type_ok v =
     (case v of
        Some (PList _) \<Rightarrow> Inl (Escaped (TypeError ''unhashable type: list''))
      | Some (PDict _) \<Rightarrow> Inl (Escaped (TypeError ''unhashable type: dict''))
      | Some (PInt i) \<Rightarrow> Inr (i = 0 \<or> i = 1 \<or> i = 2)
      | _ \<Rightarrow> Inr False)"

text \<open>The checks after the header is decoded.\<close>

definition check_metadata_header :: "pdict \<Rightarrow> bytes \<Rightarrow> int \<Rightarrow> int \<Rightarrow> peer_exn + pdict \<times> bytes" where
  "check_metadata_header header trailing msize n =
     bind_r (msg_type_ok (dget header ''msg_type'')) (\<lambda>type_ok.
       case dget header ''piece'' of
         Some (PInt piece) \<Rightarrow>
           if \<not> type_ok \<or> \<not> (0 \<le> piece \<and> piece < n)
           then Inl (PeerError ''metadata_invalid'' ''metadata'')
           else if dget header ''msg_type'' = Some (PInt 1) then
             (if dget header ''total_size'' \<noteq> Some (PInt msize)
              then Inl (PeerError ''metadata_invalid'' ''metadata'')
              else if int (length trailing) \<noteq> min (int BEP9_BLOCK_SIZE) (msize - piece * int BEP9_BLOCK_SIZE)
              then Inl (PeerError ''metadata_invalid'' ''metadata'')
              else Inr (header, trailing))
           else if trailing \<noteq> [] then Inl (PeerError ''metadata_invalid'' ''metadata'')
           else Inr (header, trailing)
       | _ \<Rightarrow> Inl (PeerError ''metadata_invalid'' ''metadata''))"

definition parse_metadata_message :: "config \<Rightarrow> bytes \<Rightarrow> int \<Rightarrow> int \<Rightarrow> peer_exn + pdict \<times> bytes" where
  "parse_metadata_message cfg payload msize n =
     bind_r (map_exn (bencode_exn ''metadata_invalid'' ''metadata'')
               (decode_prefix (wire_limits cfg) False payload))
       (\<lambda>(v, consumed).
          case v of
            PDict header \<Rightarrow> check_metadata_header header (drop consumed payload) msize n
          | _ \<Rightarrow> Inl (PeerError ''metadata_invalid'' ''metadata''))"

section \<open>The download\<close>

text \<open>The locals of \<open>_download_metadata\<close>, and the messages written so far.\<close>

record download =
  pieces :: "(int \<times> bytes) list"
  outstanding :: "int set"
  next_piece :: nat
  remote_ext_id :: int
  written :: "bytes list"

definition write_message :: "bytes \<Rightarrow> download \<Rightarrow> download" where
  "write_message msg d = d\<lparr>written := written d @ [msg]\<rparr>"

text \<open>\<open>fill_pipeline\<close>: \<open>n\<close> is the number of pieces, \<open>limit\<close> the pipeline limit.\<close>

function fill_pipeline :: "nat \<Rightarrow> nat \<Rightarrow> download \<Rightarrow> peer_exn + download" where
  "fill_pipeline n limit d =
     (if next_piece d < n \<and> card (outstanding d) < limit
      then bind_r (map_exn Escaped (build_metadata_request (remote_ext_id d) (int (next_piece d))))
             (\<lambda>msg. fill_pipeline n limit
                ((write_message msg d)\<lparr>outstanding := insert (int (next_piece d)) (outstanding d),
                                       next_piece := next_piece d + 1\<rparr>))
      else Inr d)"
  by pat_completeness auto
termination
  by (relation "measure (\<lambda>(n, limit, d). n - next_piece d)") auto

declare fill_pipeline.simps [simp del]

text \<open>One framed message of the main loop; \<open>msize\<close> is \<open>metadata_size\<close>.\<close>

definition handle_metadata :: "nat \<Rightarrow> nat \<Rightarrow> pdict \<Rightarrow> bytes \<Rightarrow> download \<Rightarrow> peer_exn + download" where
  "handle_metadata n limit header trailing d =
     (case (dget header ''msg_type'', dget header ''piece'') of
        (Some (PInt msg_type), Some (PInt piece)) \<Rightarrow>
          if msg_type = 0 then
            bind_r (map_exn Escaped (build_metadata_reject LOCAL_UT_METADATA_ID piece))
              (\<lambda>msg. Inr (write_message msg d))
          else if msg_type = 2 then
            (if piece \<in> outstanding d then Inl (PeerError ''metadata_rejected'' ''metadata'') else Inr d)
          else
            (case map_of (pieces d) piece of
               None \<Rightarrow>
                 if piece \<notin> outstanding d then Inl (PeerError ''metadata_invalid'' ''metadata'')
                 else fill_pipeline n limit
                        (d\<lparr>pieces := pieces d @ [(piece, trailing)], outstanding := outstanding d - {piece}\<rparr>)
             | Some known \<Rightarrow>
                 if known \<noteq> trailing then Inl (PeerError ''metadata_invalid'' ''metadata'') else Inr d)
      | _ \<Rightarrow> Inr d)"

definition handle_body :: "config \<Rightarrow> int \<Rightarrow> nat \<Rightarrow> nat \<Rightarrow> bytes \<Rightarrow> download \<Rightarrow> peer_exn + download" where
  "handle_body cfg msize n limit body d =
     (let msg_id = unat (body ! 0) in
      if msg_id = BT_PORT_MESSAGE_ID \<and> length body = 3 then Inr d
      else if msg_id \<noteq> BT_EXTENDED_MESSAGE_ID \<or> length body < 2 then Inr d
      else
        (let ext = unat (body ! 1) in
         if ext = 0 then
           bind_r (parse_extension_handshake cfg (drop 2 body)) (\<lambda>h.
             case map_of (mapping h) (ascii ''ut_metadata'') of
               None \<Rightarrow> Inr d
             | Some updated \<Rightarrow>
                 if updated = 0 then Inl (PeerError ''ut_metadata_unavailable'' ''metadata'')
                 else Inr (d\<lparr>remote_ext_id := updated\<rparr>))
         else if ext = LOCAL_UT_METADATA_ID then
           bind_r (parse_metadata_message cfg (drop 2 body) msize (int n)) (\<lambda>(header, trailing).
             handle_metadata n limit header trailing d)
         else Inr d))"

text \<open>\<open>while len(pieces) < piece_count\<close>, on what is left of the peer's bytes.\<close>

function download_loop :: "config \<Rightarrow> int \<Rightarrow> nat \<Rightarrow> nat \<Rightarrow> bytes \<Rightarrow> download \<Rightarrow> peer_exn + download" where
  "download_loop cfg msize n limit inp d =
     (if n \<le> length (pieces d) then Inr d
      else if length inp < 4 then Inl IncompleteRead
      else
        (let len = from_bytes (take 4 inp); rest = drop 4 inp in
         if len = 0 then download_loop cfg msize n limit rest d
         else if MAX_PEER_MESSAGE_SIZE cfg < int len then Inl (PeerError ''metadata_invalid'' ''metadata'')
         else if length rest < len then Inl IncompleteRead
         else bind_r (handle_body cfg msize n limit (take len rest) d)
                (download_loop cfg msize n limit (drop len rest))))"
  by pat_completeness auto
termination
  by (relation "measure (\<lambda>(cfg, msize, n, limit, inp, d). length inp)") auto

declare download_loop.simps [simp del]

definition piece_count :: "int \<Rightarrow> int" where
  "piece_count msize = (msize + int BEP9_BLOCK_SIZE - 1) div int BEP9_BLOCK_SIZE"

definition pipeline_limit :: "config \<Rightarrow> int \<Rightarrow> nat" where
  "pipeline_limit cfg asked =
     nat (max 1 (min (METADATA_REQUEST_PIPELINE cfg)
                     (if asked \<noteq> 0 then asked else METADATA_REQUEST_PIPELINE cfg)))"

definition start_download :: "int \<Rightarrow> download" where
  "start_download ext =
     \<lparr>pieces = [], outstanding = {}, next_piece = 0, remote_ext_id = ext, written = []\<rparr>"

definition assemble :: "nat \<Rightarrow> download \<Rightarrow> bytes" where
  "assemble n d = concat (map (\<lambda>i. the (map_of (pieces d) (int i))) [0..<n])"

definition download_metadata :: "config \<Rightarrow> int \<Rightarrow> int \<Rightarrow> int \<Rightarrow> bytes \<Rightarrow> peer_exn + bytes \<times> download" where
  "download_metadata cfg ext msize asked inp =
     (let n = nat (piece_count msize); limit = pipeline_limit cfg asked in
      if piece_count msize \<le> 0 \<or> MAX_METADATA_SIZE cfg < msize
      then Inl (PeerError ''metadata_invalid'' ''metadata'')
      else bind_r (fill_pipeline n limit (start_download ext)) (\<lambda>d0.
           bind_r (download_loop cfg msize n limit inp d0) (\<lambda>d.
             let raw = assemble n d in
             if int (length raw) \<noteq> msize then Inl (PeerError ''metadata_invalid'' ''metadata'')
             else Inr (raw, d))))"


section \<open>A session\<close>

text \<open>\<open>_wait_extension_handshake\<close>: every message before the extension handshake is skipped (a
  \<open>PORT\<close> message is only recorded). It returns the handshake and the bytes not yet read.\<close>

function wait_extension_handshake :: "config \<Rightarrow> bytes \<Rightarrow> peer_exn + extension_handshake \<times> bytes" where
  "wait_extension_handshake cfg inp =
     (if length inp < 4 then Inl IncompleteRead
      else
        (let len = from_bytes (take 4 inp); rest = drop 4 inp; body = take len rest in
         if len = 0 then wait_extension_handshake cfg rest
         else if MAX_PEER_MESSAGE_SIZE cfg < int len
         then Inl (PeerError ''extension_handshake_invalid'' ''extension_handshake'')
         else if length rest < len then Inl IncompleteRead
         else if unat (body ! 0) \<noteq> BT_EXTENDED_MESSAGE_ID \<or> length body < 2 \<or> body ! 1 \<noteq> 0
         then wait_extension_handshake cfg (drop len rest)
         else bind_r (parse_extension_handshake cfg (drop 2 body)) (\<lambda>h. Inr (h, drop len rest))))"
  by pat_completeness auto
termination
  by (relation "measure (\<lambda>(cfg, inp). length inp)") auto

declare wait_extension_handshake.simps [simp del]

text \<open>\<open>_fetch\<close> turns the end of the stream into the peer's disconnection during the stage.\<close>

definition in_stage :: "string \<Rightarrow> peer_exn + 'a \<Rightarrow> peer_exn + 'a" where
  "in_stage stage =
     map_exn (\<lambda>e. if e = IncompleteRead then PeerError ''peer_disconnected'' stage else e)"

definition requested_pipeline :: "config \<Rightarrow> extension_handshake \<Rightarrow> int" where
  "requested_pipeline cfg h =
     (case reqq h of
        Some r \<Rightarrow> if 0 < r then min (METADATA_REQUEST_PIPELINE cfg) r else METADATA_REQUEST_PIPELINE cfg
      | None \<Rightarrow> METADATA_REQUEST_PIPELINE cfg)"

definition metadata_stage :: "config \<Rightarrow> bytes \<Rightarrow> extension_handshake \<Rightarrow> bytes \<Rightarrow> peer_exn + bytes" where
  "metadata_stage cfg ih h rest =
     (case ut_metadata_id h of
        None \<Rightarrow> Inl (PeerError ''ut_metadata_unavailable'' ''extension_handshake'')
      | Some ext \<Rightarrow>
          (case metadata_size h of
             None \<Rightarrow> Inl (PeerError ''extension_handshake_invalid'' ''extension_handshake'')
           | Some msize \<Rightarrow>
               bind_r (in_stage ''metadata''
                        (download_metadata cfg ext msize (requested_pipeline cfg h) rest)) (\<lambda>(raw, d).
               if sha1 raw \<noteq> ih then Inl (PeerError ''metadata_hash_mismatch'' ''metadata'')
               else Inr raw)))"

definition fetch :: "config \<Rightarrow> bytes \<Rightarrow> bytes \<Rightarrow> bytes \<Rightarrow> peer_exn + bytes" where
  "fetch cfg pid ih inp =
     bind_r (map_exn Escaped (build_handshake ih pid)) (\<lambda>hello.
     bind_r (in_stage ''bt_handshake''
              (if length inp < BT_HANDSHAKE_BYTES then Inl IncompleteRead
               else parse_handshake (take BT_HANDSHAKE_BYTES inp) ih)) (\<lambda>hs.
     if \<not> extension_protocol hs then Inl (PeerError ''extension_unsupported'' ''extension_handshake'')
     else
     bind_r (map_exn Escaped (build_extended_handshake cfg)) (\<lambda>hello2.
     bind_r (in_stage ''extension_handshake''
              (wait_extension_handshake cfg (drop BT_HANDSHAKE_BYTES inp))) (\<lambda>(h, rest).
     metadata_stage cfg ih h rest))))"

end
