(* ===== verification/Peer_Wire_Correct.thy ===== *)
theory Peer_Wire_Correct
  imports Peer_Wire Bencode_Correct Net_Correct
begin

text \<open>
  What a metadata session guarantees: the invariant of the download (every piece is requested
  once, in order, with at most the pipeline limit outstanding, and only requested pieces of the
  right size are kept), what a successful session returns, that a peer which answers honestly
  is understood, and which exceptions get out.
\<close>

section \<open>The invariant of the download\<close>

definition piece_size :: "int \<Rightarrow> int \<Rightarrow> int" where
  "piece_size msize i = min (int BEP9_BLOCK_SIZE) (msize - i * int BEP9_BLOCK_SIZE)"

definition request_for :: "int \<Rightarrow> bytes \<Rightarrow> bool" where
  "request_for i msg \<longleftrightarrow> (\<exists>ext. build_metadata_request ext i = Inr msg)"

definition reject_msg :: "bytes \<Rightarrow> bool" where
  "reject_msg msg \<longleftrightarrow> (\<exists>i. build_metadata_reject LOCAL_UT_METADATA_ID i = Inr msg)"

text \<open>What was written: the requests for the first \<open>k\<close> pieces in order, and rejects.\<close>

definition log_ok :: "nat \<Rightarrow> bytes list \<Rightarrow> bool" where
  "log_ok k msgs \<longleftrightarrow> (\<exists>reqs rejs. msgs \<in> shuffles reqs rejs
     \<and> list_all2 request_for (map int [0..<k]) reqs \<and> list_all reject_msg rejs)"

definition dl_ok :: "nat \<Rightarrow> nat \<Rightarrow> int \<Rightarrow> download \<Rightarrow> bool" where
  "dl_ok n limit msize d \<longleftrightarrow>
     next_piece d \<le> n \<and> distinct (map fst (pieces d)) \<and> finite (outstanding d)
     \<and> set (map fst (pieces d)) \<inter> outstanding d = {}
     \<and> set (map fst (pieces d)) \<union> outstanding d = int ` {0..<next_piece d}
     \<and> card (outstanding d) \<le> limit
     \<and> (\<forall>(i, b) \<in> set (pieces d). int (length b) = piece_size msize i)
     \<and> log_ok (next_piece d) (written d)"

definition pipeline_full :: "nat \<Rightarrow> nat \<Rightarrow> download \<Rightarrow> bool" where
  "pipeline_full n limit d \<longleftrightarrow> next_piece d = n \<or> limit \<le> card (outstanding d)"

lemma snoc_shuffles_single: "ys @ [z] \<in> shuffles [z] ys"
  by (induction ys) (auto simp: Cons_in_shuffles_iff)

lemma shuffles_snoc_left: "zs \<in> shuffles xs ys \<Longrightarrow> zs @ [z] \<in> shuffles (xs @ [z]) ys"
  by (induction xs ys arbitrary: zs rule: shuffles.induct)
    (auto simp: Cons_in_shuffles_iff snoc_shuffles_single)

lemma shuffles_snoc_right: "zs \<in> shuffles xs ys \<Longrightarrow> zs @ [z] \<in> shuffles xs (ys @ [z])"
  using shuffles_snoc_left [of zs ys xs z] by (simp add: shuffles_commutes)

lemma log_ok_request:
  assumes "log_ok k msgs" and "build_metadata_request ext (int k) = Inr msg"
  shows "log_ok (Suc k) (msgs @ [msg])"
proof -
  from assms(1) obtain reqs rejs where l: "msgs \<in> shuffles reqs rejs"
    "list_all2 request_for (map int [0..<k]) reqs" "list_all reject_msg rejs"
    by (auto simp: log_ok_def)
  have "list_all2 request_for (map int [0..<Suc k]) (reqs @ [msg])"
    using list_all2_appendI [OF l(2), of "[int k]" "[msg]"] assms(2)
    by (auto simp: request_for_def)
  with shuffles_snoc_left [OF l(1)] l(3) show ?thesis unfolding log_ok_def by blast
qed

lemma log_ok_reject:
  assumes "log_ok k msgs" and "build_metadata_reject LOCAL_UT_METADATA_ID i = Inr msg"
  shows "log_ok k (msgs @ [msg])"
proof -
  from assms(1) obtain reqs rejs where l: "msgs \<in> shuffles reqs rejs"
    "list_all2 request_for (map int [0..<k]) reqs" "list_all reject_msg rejs"
    by (auto simp: log_ok_def)
  have "list_all reject_msg (rejs @ [msg])" using l(3) assms(2) by (auto simp: reject_msg_def)
  with shuffles_snoc_right [OF l(1)] l(2) show ?thesis unfolding log_ok_def by blast
qed

lemma write_message_simps [simp]:
  "pieces (write_message m d) = pieces d" "outstanding (write_message m d) = outstanding d"
  "next_piece (write_message m d) = next_piece d" "written (write_message m d) = written d @ [m]"
  "remote_ext_id (write_message m d) = remote_ext_id d"
  by (simp_all add: write_message_def)

lemma request_next_ok:
  assumes ok: "dl_ok n limit msize d" and "next_piece d < n" and "card (outstanding d) < limit"
    and "build_metadata_request (remote_ext_id d) (int (next_piece d)) = Inr msg"
  shows "dl_ok n limit msize ((write_message msg d)\<lparr>outstanding := insert (int (next_piece d)) (outstanding d),
           next_piece := next_piece d + 1\<rparr>)"
proof -
  have "int (next_piece d) \<notin> set (map fst (pieces d)) \<union> outstanding d"
    using ok by (auto simp: dl_ok_def)
  moreover have "set (map fst (pieces d)) \<union> insert (int (next_piece d)) (outstanding d) = int ` {0..<next_piece d + 1}"
  proof -
    have "set (map fst (pieces d)) \<union> insert (int (next_piece d)) (outstanding d) =
        insert (int (next_piece d)) (int ` {0..<next_piece d})"
      using ok by (simp add: dl_ok_def)
    then show ?thesis by (simp add: atLeast0_lessThan_Suc)
  qed
  moreover have "log_ok (next_piece d + 1) (written d @ [msg])"
    using log_ok_request [OF _ assms(4)] ok by (simp add: dl_ok_def)
  moreover have "card (insert (int (next_piece d)) (outstanding d)) \<le> limit"
    using assms(3) card_insert_le_m1 [of limit "outstanding d"] by simp
  ultimately show ?thesis using ok assms(2) by (simp add: dl_ok_def)
qed

lemma fill_pipeline_ok:
  "dl_ok n limit msize d \<Longrightarrow> fill_pipeline n limit d = Inr d' \<Longrightarrow>
    dl_ok n limit msize d' \<and> pipeline_full n limit d' \<and> pieces d' = pieces d \<and> remote_ext_id d' = remote_ext_id d"
proof (induction n limit d rule: fill_pipeline.induct)
  case (1 n limit d)
  show ?case
  proof (cases "next_piece d < n \<and> card (outstanding d) < limit")
    case False
    with 1(2,3) show ?thesis
      by (auto simp: fill_pipeline.simps [of n limit d] pipeline_full_def dl_ok_def)
  next
    case True
    with 1(3) obtain msg where m: "build_metadata_request (remote_ext_id d) (int (next_piece d)) = Inr msg"
      "fill_pipeline n limit ((write_message msg d)\<lparr>outstanding := insert (int (next_piece d)) (outstanding d),
           next_piece := next_piece d + 1\<rparr>) = Inr d'"
      by (auto simp: fill_pipeline.simps [of n limit d] bind_r_Inr_iff)
    from 1(1) [OF True _ request_next_ok [OF 1(2) _ _ m(1)] m(2)] True m(1) show ?thesis by simp
  qed
qed


section \<open>Parsed messages\<close>

lemma check_metadata_headerD:
  assumes "check_metadata_header header trailing msize n = Inr r"
    and "dget header ''msg_type'' = Some (PInt t)" and "dget header ''piece'' = Some (PInt i)"
  shows "r = (header, trailing) \<and> 0 \<le> i \<and> i < n \<and> (t = 0 \<or> t = 1 \<or> t = 2)
    \<and> (t = 1 \<longrightarrow> int (length trailing) = piece_size msize i)"
  using assms(1)
  by (auto simp: check_metadata_header_def assms(2,3) msg_type_ok_def piece_size_def split: if_splits)

lemma check_metadata_header_ids:
  assumes "check_metadata_header header trailing msize n = Inr r"
  obtains t i where "dget header ''msg_type'' = Some (PInt t)" and "dget header ''piece'' = Some (PInt i)"
proof -
  obtain i where i: "dget header ''piece'' = Some (PInt i)"
  proof (cases "dget header ''piece''")
    case None
    with assms show thesis by (simp add: check_metadata_header_def bind_r_Inr_iff)
  next
    case (Some v)
    with assms that show thesis by (cases v) (simp_all add: check_metadata_header_def bind_r_Inr_iff)
  qed
  obtain t where "dget header ''msg_type'' = Some (PInt t)"
  proof (cases "dget header ''msg_type''")
    case None
    with assms i show thesis by (simp add: check_metadata_header_def msg_type_ok_def)
  next
    case (Some v)
    with assms i that show thesis by (cases v) (simp_all add: check_metadata_header_def msg_type_ok_def)
  qed
  with i that show thesis by blast
qed

lemma parse_metadata_message_check:
  assumes "parse_metadata_message cfg payload msize n = Inr (header, trailing)"
  shows "check_metadata_header header trailing msize n = Inr (header, trailing)"
proof -
  from assms obtain v c where
    v: "(case v of PDict h \<Rightarrow> check_metadata_header h (drop c payload) msize n
         | _ \<Rightarrow> Inl (PeerError ''metadata_invalid'' ''metadata'')) = Inr (header, trailing)"
    by (auto simp: parse_metadata_message_def bind_r_Inr_iff)
  then obtain h where h: "check_metadata_header h (drop c payload) msize n = Inr (header, trailing)"
    by (cases v) simp_all
  obtain t i where ti: "dget h ''msg_type'' = Some (PInt t)" "dget h ''piece'' = Some (PInt i)"
    by (rule check_metadata_header_ids [OF h])
  from check_metadata_headerD [OF h ti] h show ?thesis by simp
qed

lemma handle_metadata_ok:
  assumes ok: "dl_ok n limit msize d" and full: "pipeline_full n limit d"
    and p: "parse_metadata_message cfg payload msize (int n) = Inr (header, trailing)"
    and h: "handle_metadata n limit header trailing d = Inr d'"
  shows "dl_ok n limit msize d' \<and> pipeline_full n limit d'"
proof -
  consider (other) "d' = d" | (t) t i where "dget header ''msg_type'' = Some (PInt t)"
      "dget header ''piece'' = Some (PInt i)"
    using h by (auto simp: handle_metadata_def split: option.splits pyval.splits)
  then show ?thesis
  proof cases
    case other
    with ok full show ?thesis by simp
  next
    case t
    note P = check_metadata_headerD [OF parse_metadata_message_check [OF p] t]
    consider "t = 0" | "t = 2" | "t = 1" "map_of (pieces d) i \<noteq> None" | "t = 1" "map_of (pieces d) i = None"
      using P by blast
    then show ?thesis
    proof cases
      case 1
      then obtain msg where "build_metadata_reject LOCAL_UT_METADATA_ID i = Inr msg" "d' = write_message msg d"
        using h t by (auto simp: handle_metadata_def bind_r_Inr_iff)
      with ok full log_ok_reject [of "next_piece d" "written d" i msg] show ?thesis
        by (auto simp: dl_ok_def pipeline_full_def)
    next
      case 2
      with h t ok full show ?thesis by (auto simp: handle_metadata_def split: if_splits)
    next
      case 3
      with h t ok full show ?thesis by (auto simp: handle_metadata_def split: if_splits)
    next
      case 4
      let ?d = "d\<lparr>pieces := pieces d @ [(i, trailing)], outstanding := outstanding d - {i}\<rparr>"
      have i: "i \<in> outstanding d" and f: "fill_pipeline n limit ?d = Inr d'"
        using h t 4 by (auto simp: handle_metadata_def split: if_splits)
      have "i \<notin> set (map fst (pieces d))" using 4(2) by (simp add: map_of_eq_None_iff)
      moreover have "card (outstanding d - {i}) \<le> limit"
        using ok card_Diff1_le [of "outstanding d" i] by (simp add: dl_ok_def)
      ultimately have "dl_ok n limit msize ?d"
        using ok i P 4(1) by (auto simp: dl_ok_def)
      from fill_pipeline_ok [OF this f] show ?thesis by blast
    qed
  qed
qed

lemma handle_body_ok:
  assumes "dl_ok n limit msize d" and "pipeline_full n limit d"
    and "handle_body cfg msize n limit body d = Inr d'"
  shows "dl_ok n limit msize d' \<and> pipeline_full n limit d'"
proof -
  consider "d' = d"
    | updated where "d' = d\<lparr>remote_ext_id := updated\<rparr>"
    | header trailing where "parse_metadata_message cfg (drop 2 body) msize (int n) = Inr (header, trailing)"
      "handle_metadata n limit header trailing d = Inr d'"
    using assms(3)
    by (auto simp: handle_body_def Let_def bind_r_Inr_iff split: if_splits option.splits)
  then show ?thesis
  proof cases
    case 3
    then show ?thesis by (rule handle_metadata_ok [OF assms(1,2)])
  qed (use assms(1,2) in \<open>simp_all add: dl_ok_def pipeline_full_def\<close>)
qed

lemma download_loop_ok:
  "dl_ok n limit msize d \<Longrightarrow> pipeline_full n limit d \<Longrightarrow> download_loop cfg msize n limit inp d = Inr d' \<Longrightarrow>
    dl_ok n limit msize d' \<and> n \<le> length (pieces d')"
proof (induction cfg msize n limit inp d rule: download_loop.induct)
  case (1 cfg msize n limit inp d)
  let ?len = "from_bytes (take 4 inp)" and ?rest = "drop 4 inp"
  show ?case
  proof (cases "n \<le> length (pieces d)")
    case True
    with 1(3-5) show ?thesis by (simp add: download_loop.simps [of cfg msize n limit inp d])
  next
    case False
    with 1(5) have l: "\<not> length inp < 4"
      by (auto simp: download_loop.simps [of cfg msize n limit inp d])
    show ?thesis
    proof (cases "?len = 0")
      case True
      from 1(5) have "download_loop cfg msize n limit ?rest d = Inr d'"
        using False l True by (simp add: download_loop.simps [of cfg msize n limit inp d] Let_def)
      from 1(1) [OF False l refl refl True 1(3,4) this] show ?thesis .
    next
      case len: False
      from 1(5) have c: "\<not> MAX_PEER_MESSAGE_SIZE cfg < int ?len" "\<not> length ?rest < ?len"
        using False l len
        by (auto simp: download_loop.simps [of cfg msize n limit inp d] Let_def split: if_splits)
      from 1(5) obtain d1 where d1: "handle_body cfg msize n limit (take ?len ?rest) d = Inr d1"
        "download_loop cfg msize n limit (drop ?len ?rest) d1 = Inr d'"
        using False l len c
        by (auto simp: download_loop.simps [of cfg msize n limit inp d] Let_def bind_r_Inr_iff)
      from handle_body_ok [OF 1(3,4) d1(1)]
        1(2) [OF False l refl refl len c d1(1) _ _ d1(2)] show ?thesis by blast
    qed
  qed
qed


lemma start_download_ok: "dl_ok n limit msize (start_download ext)"
  by (auto simp: dl_ok_def start_download_def log_ok_def intro!: exI [of _ "[]"])

lemma pieces_complete:
  assumes "dl_ok n limit msize d" and "n \<le> length (pieces d)"
  shows "set (map fst (pieces d)) = int ` {0..<n}" and "outstanding d = {}" and "next_piece d = n"
proof -
  have sub: "set (map fst (pieces d)) \<union> outstanding d = int ` {0..<next_piece d}"
    and disj: "set (map fst (pieces d)) \<inter> outstanding d = {}" and le: "next_piece d \<le> n"
    using assms(1) by (simp_all add: dl_ok_def)
  have "n \<le> card (set (map fst (pieces d)))"
    using assms distinct_card [of "map fst (pieces d)"] by (simp add: dl_ok_def)
  moreover have "card (set (map fst (pieces d))) \<le> card (int ` {0..<next_piece d})"
    using sub by (intro card_mono) auto
  moreover have "card (int ` {0..<next_piece d}) = next_piece d" by (simp add: card_image)
  ultimately show np: "next_piece d = n" using le by linarith
  have "set (map fst (pieces d)) \<subseteq> int ` {0..<n}" using sub np by auto
  moreover have "card (set (map fst (pieces d))) = card (int ` {0..<n})"
    using \<open>n \<le> card (set (map fst (pieces d)))\<close> calculation
      card_mono [of "int ` {0..<n}" "set (map fst (pieces d))"]
    by (simp add: card_image del: set_map)
  ultimately show all: "set (map fst (pieces d)) = int ` {0..<n}" by (intro card_subset_eq) auto
  show "outstanding d = {}" using sub disj np all by blast
qed

lemma piece_count_pos: "0 < piece_count msize \<longleftrightarrow> 0 < msize"
  by (simp add: piece_count_def BEP9_BLOCK_SIZE_def pos_imp_zdiv_pos_iff)
    linarith

lemma download_metadata_sound:
  assumes "download_metadata cfg ext msize asked inp = Inr (raw, d)"
  shows "0 < msize" and "msize \<le> MAX_METADATA_SIZE cfg" and "int (length raw) = msize"
    and "raw = assemble (nat (piece_count msize)) d"
    and "dl_ok (nat (piece_count msize)) (pipeline_limit cfg asked) msize d"
    and "nat (piece_count msize) \<le> length (pieces d)"
proof -
  let ?n = "nat (piece_count msize)" and ?l = "pipeline_limit cfg asked"
  have c: "\<not> (piece_count msize \<le> 0 \<or> MAX_METADATA_SIZE cfg < msize)"
    using assms by (auto simp: download_metadata_def)
  with assms obtain d0 where d: "fill_pipeline ?n ?l (start_download ext) = Inr d0"
    "download_loop cfg msize ?n ?l inp d0 = Inr d" "raw = assemble ?n d" "int (length raw) = msize"
    by (auto simp: download_metadata_def Let_def bind_r_Inr_iff split: if_splits)
  from fill_pipeline_ok [OF start_download_ok d(1)] download_loop_ok [OF _ _ d(2)]
  show "dl_ok ?n ?l msize d" "?n \<le> length (pieces d)" by blast+
  show "0 < msize" using c piece_count_pos [of msize] by simp
  show "msize \<le> MAX_METADATA_SIZE cfg" "int (length raw) = msize" "raw = assemble ?n d"
    using c d by simp_all
qed

lemma fetch_sound:
  assumes "fetch cfg pid ih inp = Inr raw"
  shows "sha1 raw = ih" and "raw \<noteq> []" and "int (length raw) \<le> MAX_METADATA_SIZE cfg"
proof -
  from assms obtain h rest where "metadata_stage cfg ih h rest = Inr raw"
    by (auto simp: fetch_def bind_r_Inr_iff split: if_splits)
  then obtain ext msize asked d where
    "in_stage ''metadata'' (download_metadata cfg ext msize asked rest) = Inr (raw, d)" and h: "sha1 raw = ih"
    by (auto simp: metadata_stage_def bind_r_Inr_iff split: if_splits option.splits)
  then have "download_metadata cfg ext msize asked rest = Inr (raw, d)" by (simp add: in_stage_def)
  note s = download_metadata_sound [OF this]
  show "sha1 raw = ih" by (rule h)
  show "raw \<noteq> []" "int (length raw) \<le> MAX_METADATA_SIZE cfg" using s(1-3) by auto
qed

text \<open>The download as a machine: it starts with a filled pipeline and takes one message a step.\<close>

definition download_init :: "int \<Rightarrow> nat \<Rightarrow> nat \<Rightarrow> download \<Rightarrow> bool" where
  "download_init ext n limit d \<longleftrightarrow> fill_pipeline n limit (start_download ext) = Inr d"

definition download_step :: "config \<Rightarrow> int \<Rightarrow> nat \<Rightarrow> nat \<Rightarrow> download \<Rightarrow> bytes \<Rightarrow> download \<Rightarrow> bool" where
  "download_step cfg msize n limit d body d' \<longleftrightarrow> handle_body cfg msize n limit body d = Inr d'"

interpretation downloads: machine_invariant "download_init ext n limit" "download_step cfg msize n limit"
  "\<lambda>d. dl_ok n limit msize d \<and> pipeline_full n limit d" for ext n limit cfg msize
proof unfold_locales
  fix d body d'
  show "download_init ext n limit d \<Longrightarrow> dl_ok n limit msize d \<and> pipeline_full n limit d"
    unfolding download_init_def using fill_pipeline_ok [OF start_download_ok] by blast
  show "dl_ok n limit msize d \<and> pipeline_full n limit d \<Longrightarrow> download_step cfg msize n limit d body d' \<Longrightarrow>
      dl_ok n limit msize d' \<and> pipeline_full n limit d'"
    unfolding download_step_def using handle_body_ok by blast
qed


section \<open>An honest peer\<close>

text \<open>The limits an exchange needs; the values of \<open>config.py\<close> are far above them.\<close>

definition roomy :: "config \<Rightarrow> bool" where
  "roomy cfg \<longleftrightarrow> 2 \<le> MAX_BENCODE_DEPTH cfg \<and> 7 \<le> MAX_BENCODE_ITEMS cfg
     \<and> 13 \<le> MAX_BENCODE_STRING_LENGTH cfg \<and> MAX_METADATA_SIZE cfg < 10 ^ 100
     \<and> 17408 \<le> MAX_PEER_MESSAGE_SIZE cfg \<and> \<bar>METADATA_REQUEST_PIPELINE cfg\<bar> < 10 ^ 100"

definition block :: "bytes \<Rightarrow> nat \<Rightarrow> bytes" where
  "block raw i = take BEP9_BLOCK_SIZE (drop (i * BEP9_BLOCK_SIZE) raw)"

definition data_dict :: "nat \<Rightarrow> nat \<Rightarrow> pdict" where
  "data_dict i size_all =
     [(KBytes (ascii ''msg_type''), PInt 1), (KBytes (ascii ''piece''), PInt (int i)),
      (KBytes (ascii ''total_size''), PInt (int size_all))]"

text \<open>The data message for a piece, and an answer to all requests in their order.\<close>

definition data_body :: "bytes \<Rightarrow> nat \<Rightarrow> bytes" where
  "data_body raw i =
     20 # 1 # wire_enc (PDict (data_dict i (length raw))) @ block raw i"

definition honest_data :: "bytes \<Rightarrow> nat list \<Rightarrow> bytes" where
  "honest_data raw is = concat (map (\<lambda>i. frame (data_body raw i)) is)"

lemma digits_100: "n < 10 ^ 100 \<Longrightarrow> length (dec_digits n) \<le> 100"
  by (rule length_dec_digits_le) simp_all

lemma dget_data_dict:
  "dget (data_dict i t) ''msg_type'' = Some (PInt 1)"
  "dget (data_dict i t) ''piece'' = Some (PInt (int i))"
  "dget (data_dict i t) ''total_size'' = Some (PInt (int t))"
  by (simp_all add: dget_def data_dict_def)

lemma data_dict_wire:
  assumes "roomy cfg" and "i < 10 ^ 100" and "t < 10 ^ 100"
  shows "wire False (PDict (data_dict i t))" and "fits (wire_limits cfg) 0 (PDict (data_dict i t))"
    and "item_count (PDict (data_dict i t)) \<le> max_items (wire_limits cfg)"
    and "length (wire_enc (PDict (data_dict i t))) \<le> 300"
proof -
  note d = digits_100 [OF assms(2)] digits_100 [OF assms(3)]
  show "wire False (PDict (data_dict i t))"
    by (simp add: data_dict_def keys_ok_def is_bytes_key_def)
  have "13 \<le> nat (MAX_BENCODE_STRING_LENGTH cfg)" "1 \<le> nat (MAX_BENCODE_DEPTH cfg)"
    using assms(1) by (simp_all add: roomy_def le_nat_iff)
  then show "fits (wire_limits cfg) 0 (PDict (data_dict i t))"
    using d
    by (simp add: data_dict_def string_fits_def wire_limits_def int_max_str_digits_def dec_digits_eval)
  show "item_count (PDict (data_dict i t)) \<le> max_items (wire_limits cfg)"
    using assms(1) by (auto simp: data_dict_def wire_limits_def roomy_def le_nat_iff)
  show "length (wire_enc (PDict (data_dict i t))) \<le> 300"
    using d by (simp add: data_dict_def dict_enc_def pair_enc_def enc_bytes_def enc_int_def int_text_def dec_digits_eval)
qed

lemma length_block: "length (block raw i) = min BEP9_BLOCK_SIZE (length raw - i * BEP9_BLOCK_SIZE)"
  by (simp add: block_def)

lemma parse_data_body:
  assumes r: "roomy cfg" and i: "i < n" "n < 10 ^ 100" and t: "length raw < 10 ^ 100"
    and blk: "i * BEP9_BLOCK_SIZE < length raw"
  shows "parse_metadata_message cfg (drop 2 (data_body raw i)) (int (length raw)) (int n) =
    Inr (data_dict i (length raw), block raw i)"
proof -
  have "i < 10 ^ 100" using i by linarith
  note w = data_dict_wire [OF r this t]
  have dec: "decode_prefix (wire_limits cfg) False (wire_enc (PDict (data_dict i (length raw))) @ block raw i) =
      Inr (PDict (data_dict i (length raw)), length (wire_enc (PDict (data_dict i (length raw)))))"
    by (rule decode_prefix_wire_enc [OF w(1-3)])
  have "int (length (block raw i)) = min (int BEP9_BLOCK_SIZE) (int (length raw) - int i * int BEP9_BLOCK_SIZE)"
    using blk by (simp add: length_block of_nat_min of_nat_diff)
  then have "check_metadata_header (data_dict i (length raw)) (block raw i) (int (length raw)) (int n) =
      Inr (data_dict i (length raw), block raw i)"
    using i by (simp add: check_metadata_header_def dget_data_dict msg_type_ok_def)
  moreover have "drop 2 (data_body raw i) = wire_enc (PDict (data_dict i (length raw))) @ block raw i"
    by (simp add: data_body_def)
  ultimately show ?thesis
    by (simp only: parse_metadata_message_def dec map_exn.simps bind_r.simps prod.case pyval.case append_eq_conv_conj) simp
qed

lemma frame_read:
  assumes "length body < 2 ^ 32"
  shows "take 4 (frame body @ rest) = to_bytes 4 (length body)"
    and "from_bytes (take 4 (frame body @ rest)) = length body"
    and "drop 4 (frame body @ rest) = body @ rest"
    and "4 + length body \<le> length (frame body @ rest)"
proof -
  show t: "take 4 (frame body @ rest) = to_bytes 4 (length body)"
    by (simp add: frame_def del: to_bytes_numeral)
  show "from_bytes (take 4 (frame body @ rest)) = length body"
    unfolding t using assms by (intro from_bytes_to_bytes) simp
  show "drop 4 (frame body @ rest) = body @ rest" by (simp add: frame_def del: to_bytes_numeral)
  show "4 + length body \<le> length (frame body @ rest)" by (simp add: frame_def del: to_bytes_numeral)
qed

lemma download_loop_frame:
  assumes "length (pieces d) < n" and "0 < length body" and "length body < 2 ^ 32"
    and "int (length body) \<le> MAX_PEER_MESSAGE_SIZE cfg"
  shows "download_loop cfg msize n limit (frame body @ rest) d =
    bind_r (handle_body cfg msize n limit body d) (download_loop cfg msize n limit rest)"
  using assms frame_read [OF assms(3), of rest]
  by (subst download_loop.simps) (auto simp: Let_def)

lemma build_metadata_request_total:
  assumes "1 \<le> ext" and "ext \<le> 255" and "i < 10 ^ 100"
  shows "\<exists>msg. build_metadata_request ext (int i) = Inr msg"
proof -
  let ?lim = "\<lparr>max_depth = 1, max_items = 0, max_string_length = 8\<rparr>"
  have "wire False (metadata_header 0 (int i))"
    by (simp add: metadata_header_def keys_ok_def is_bytes_key_def)
  moreover have "fits ?lim 0 (metadata_header 0 (int i))"
    using digits_100 [OF assms(3)]
    by (simp add: metadata_header_def string_fits_def int_max_str_digits_def dec_digits_eval)
  ultimately have "encode (metadata_header 0 (int i)) = Inr (wire_enc (canon (metadata_header 0 (int i))))"
    by (rule encode_canon)
  then show ?thesis using assms(1,2) by (simp add: build_metadata_request_def)
qed

lemma fill_pipeline_total:
  assumes "1 \<le> remote_ext_id d" and "remote_ext_id d \<le> 255" and "n < 10 ^ 100"
  shows "\<exists>d'. fill_pipeline n limit d = Inr d'"
  using assms
proof (induction n limit d rule: fill_pipeline.induct)
  case (1 n limit d)
  show ?case
  proof (cases "next_piece d < n \<and> card (outstanding d) < limit")
    case False
    then show ?thesis by (subst fill_pipeline.simps) auto
  next
    case True
    have "next_piece d < 10 ^ 100" by (rule less_trans [OF conjunct1 [OF True] 1(4)])
    then obtain msg where "build_metadata_request (remote_ext_id d) (int (next_piece d)) = Inr msg"
      using build_metadata_request_total [OF 1(2,3)] by blast
    with 1 True show ?thesis by (subst fill_pipeline.simps) auto
  qed
qed


lemma concat_blocks: "concat (map (block raw) [0..<n]) = take (n * BEP9_BLOCK_SIZE) raw"
  by (induction n) (simp_all add: block_def take_add add.commute [of BEP9_BLOCK_SIZE])

lemma piece_count_nat: "nat (piece_count (int len)) = (len + 16383) div 16384"
proof -
  have "piece_count (int len) = int ((len + 16383) div 16384)"
    by (simp add: piece_count_def BEP9_BLOCK_SIZE_def zdiv_int add.commute)
  then show ?thesis by simp
qed

lemma piece_count_bounds:
  assumes "i < nat (piece_count (int len))"
  shows "i * BEP9_BLOCK_SIZE < len"
  using assms unfolding piece_count_nat BEP9_BLOCK_SIZE_def by linarith

lemma piece_count_covers: "len \<le> nat (piece_count (int len)) * BEP9_BLOCK_SIZE"
  unfolding piece_count_nat BEP9_BLOCK_SIZE_def by linarith

lemma next_outstanding:
  assumes ok: "dl_ok n limit msize d" and full: "pipeline_full n limit d" and "1 \<le> limit" and "i < n"
    and fst: "set (map fst (pieces d)) = int ` {0..<i}"
  shows "int i \<in> outstanding d"
proof -
  have u: "int ` {0..<i} \<union> outstanding d = int ` {0..<next_piece d}"
    and dj: "int ` {0..<i} \<inter> outstanding d = {}"
    using ok fst by (simp_all add: dl_ok_def)
  have "i < next_piece d"
  proof (cases "next_piece d = n")
    case False
    then have "outstanding d \<noteq> {}" using full \<open>1 \<le> limit\<close> by (auto simp: pipeline_full_def)
    then obtain k where "k \<in> outstanding d" by blast
    with u have "k \<in> int ` {0..<next_piece d}" by blast
    moreover from \<open>k \<in> outstanding d\<close> dj have "k \<notin> int ` {0..<i}" by blast
    ultimately show ?thesis by force
  qed (use \<open>i < n\<close> in simp)
  then have "int i \<in> int ` {0..<next_piece d}" by simp
  with u have "int i \<in> int ` {0..<i} \<union> outstanding d" by blast
  then show ?thesis by auto
qed

lemma fill_pipeline_frame:
  "fill_pipeline n limit d = Inr d' \<Longrightarrow> pieces d' = pieces d \<and> remote_ext_id d' = remote_ext_id d"
proof (induction n limit d rule: fill_pipeline.induct)
  case (1 n limit d)
  from 1(2) show ?case
  proof (cases "next_piece d < n \<and> card (outstanding d) < limit")
    case True
    with 1(2) obtain msg where "build_metadata_request (remote_ext_id d) (int (next_piece d)) = Inr msg"
      "fill_pipeline n limit ((write_message msg d)\<lparr>outstanding := insert (int (next_piece d)) (outstanding d),
         next_piece := next_piece d + 1\<rparr>) = Inr d'"
      by (auto simp: fill_pipeline.simps [of n limit d] bind_r_Inr_iff)
    with 1(1) [OF True, of msg] show ?thesis by simp
  qed (auto simp: fill_pipeline.simps [of n limit d])
qed

lemma honest_piece:
  assumes r: "roomy cfg" and i: "i < n" "n < 10 ^ 100" and t: "length raw < 10 ^ 100"
    and blk: "i * BEP9_BLOCK_SIZE < length raw"
    and ext: "1 \<le> remote_ext_id d" "remote_ext_id d \<le> 255"
    and ok: "dl_ok n limit (int (length raw)) d" and full: "pipeline_full n limit d" and "1 \<le> limit"
    and ps: "pieces d = map (\<lambda>j. (int j, block raw j)) [0..<i]"
  shows "\<exists>d'. handle_body cfg (int (length raw)) n limit (data_body raw i) d = Inr d'
    \<and> pieces d' = map (\<lambda>j. (int j, block raw j)) [0..<Suc i] \<and> remote_ext_id d' = remote_ext_id d"
proof -
  let ?d = "d\<lparr>pieces := pieces d @ [(int i, block raw i)], outstanding := outstanding d - {int i}\<rparr>"
  have fst: "set (map fst (pieces d)) = int ` {0..<i}" using ps by force
  then have "int i \<notin> set (map fst (pieces d))" by force
  then have new: "map_of (pieces d) (int i) = None" by (simp add: map_of_eq_None_iff)
  have "int i \<in> outstanding d" by (rule next_outstanding [OF ok full \<open>1 \<le> limit\<close> i(1) fst])
  then have m: "handle_metadata n limit (data_dict i (length raw)) (block raw i) d = fill_pipeline n limit ?d"
    by (simp add: handle_metadata_def dget_data_dict new)
  from fill_pipeline_total [of ?d n limit] ext i(2) obtain d' where f: "fill_pipeline n limit ?d = Inr d'"
    by auto
  have b: "handle_body cfg (int (length raw)) n limit (data_body raw i) d = Inr d'"
    using parse_data_body [OF r i t blk] f
    by (simp add: handle_body_def data_body_def BT_PORT_MESSAGE_ID_def BT_EXTENDED_MESSAGE_ID_def
        LOCAL_UT_METADATA_ID_def m)
  moreover have "pieces d' = pieces ?d \<and> remote_ext_id d' = remote_ext_id ?d"
    by (rule fill_pipeline_frame [OF f])
  ultimately show ?thesis using ps by simp
qed

lemma honest_loop:
  assumes r: "roomy cfg" and n: "n = nat (piece_count (int (length raw)))" "n < 10 ^ 100"
    and t: "length raw < 10 ^ 100" and "1 \<le> limit"
    and "1 \<le> remote_ext_id d" "remote_ext_id d \<le> 255"
    and "dl_ok n limit (int (length raw)) d" and "pipeline_full n limit d"
    and "pieces d = map (\<lambda>j. (int j, block raw j)) [0..<i]" and "i \<le> n"
  shows "\<exists>d'. download_loop cfg (int (length raw)) n limit (honest_data raw [i..<n] @ rest) d = Inr d'
    \<and> pieces d' = map (\<lambda>j. (int j, block raw j)) [0..<n]"
  using assms(6-)
proof (induction "n - i" arbitrary: i d)
  case 0
  then show ?case by (subst download_loop.simps) simp
next
  case (Suc k)
  then have i: "i < n" by simp
  have blk: "i * BEP9_BLOCK_SIZE < length raw" using i n(1) piece_count_bounds by blast
  from honest_piece [OF r i n(2) t blk Suc.prems(1-4) assms(5) Suc.prems(5)] obtain d1 where
    d1: "handle_body cfg (int (length raw)) n limit (data_body raw i) d = Inr d1"
    "pieces d1 = map (\<lambda>j. (int j, block raw j)) [0..<Suc i]" "remote_ext_id d1 = remote_ext_id d"
    by blast
  have ok1: "dl_ok n limit (int (length raw)) d1 \<and> pipeline_full n limit d1"
    by (rule handle_body_ok [OF Suc.prems(3,4) d1(1)])
  have len: "length (data_body raw i) \<le> 17000" "0 < length (data_body raw i)"
    using data_dict_wire(4) [OF r _ t, of i] i n(2)
    by (simp_all add: data_body_def length_block BEP9_BLOCK_SIZE_def)
  have mx: "int (length (data_body raw i)) \<le> MAX_PEER_MESSAGE_SIZE cfg"
    using r len(1) by (simp add: roomy_def)
  have "length (pieces d) < n" using Suc.prems(5) i by simp
  note loop = download_loop_frame [OF this len(2) _ mx, of "int (length raw)" limit]
  have "honest_data raw [i..<n] @ rest = frame (data_body raw i) @ (honest_data raw [Suc i..<n] @ rest)"
    using i by (simp add: honest_data_def upt_conv_Cons)
  then have "download_loop cfg (int (length raw)) n limit (honest_data raw [i..<n] @ rest) d =
      download_loop cfg (int (length raw)) n limit (honest_data raw [Suc i..<n] @ rest) d1"
    using loop len(1) d1(1) by simp
  moreover have "\<exists>d'. download_loop cfg (int (length raw)) n limit (honest_data raw [Suc i..<n] @ rest) d1 = Inr d'
      \<and> pieces d' = map (\<lambda>j. (int j, block raw j)) [0..<n]"
    using Suc.hyps(2) Suc.prems(1,2) d1 ok1 i by (intro Suc.hyps(1)) simp_all
  ultimately show ?case by simp
qed

lemma assemble_blocks:
  assumes "pieces d = map (\<lambda>j. (int j, block raw j)) [0..<n]"
  shows "assemble n d = concat (map (block raw) [0..<n])"
proof -
  have "map_of (map (\<lambda>j. (int j, block raw j)) [0..<n]) (int i) = Some (block raw i)" if "i < n" for i
    using that by (intro map_of_is_SomeI) (auto simp: comp_def distinct_map inj_on_def)
  then show ?thesis
    unfolding assemble_def assms by (intro arg_cong [of _ _ concat] map_cong) auto
qed

lemma download_honest:
  assumes r: "roomy cfg" and "raw \<noteq> []" and m: "int (length raw) \<le> MAX_METADATA_SIZE cfg"
    and ext: "1 \<le> ext" "ext \<le> 255"
    and n: "n = nat (piece_count (int (length raw)))"
  shows "\<exists>d. download_metadata cfg ext (int (length raw)) asked (honest_data raw [0..<n] @ rest) = Inr (raw, d)"
proof -
  let ?l = "pipeline_limit cfg asked" and ?s = "int (length raw)"
  have t: "length raw < 10 ^ 100" using m r by (simp add: roomy_def)
  have "n \<le> length raw"
    unfolding n piece_count_def BEP9_BLOCK_SIZE_def using \<open>raw \<noteq> []\<close> by (cases raw) simp_all
  with t have n100: "n < 10 ^ 100" by linarith
  have l: "1 \<le> ?l" by (simp add: pipeline_limit_def)
  from fill_pipeline_total [of "start_download ext" n ?l] ext n100 obtain d0
    where f: "fill_pipeline n ?l (start_download ext) = Inr d0"
    by (auto simp: start_download_def)
  note F = fill_pipeline_ok [OF start_download_ok f, of ?s]
  from F have "pieces d0 = map (\<lambda>j. (int j, block raw j)) [0..<0]"
    "1 \<le> remote_ext_id d0" "remote_ext_id d0 \<le> 255"
    using ext by (simp_all add: start_download_def)
  with honest_loop [OF r n n100 t l, of d0 0 rest] F obtain d where
    d: "download_loop cfg ?s n ?l (honest_data raw [0..<n] @ rest) d0 = Inr d"
    "pieces d = map (\<lambda>j. (int j, block raw j)) [0..<n]"
    by auto
  have "assemble n d = raw"
    unfolding assemble_blocks [OF d(2)] concat_blocks using piece_count_covers [of "length raw"] n by simp
  moreover have "0 < piece_count ?s" using \<open>raw \<noteq> []\<close> piece_count_pos [of ?s] by simp
  ultimately show ?thesis
    using m f d(1) by (simp add: download_metadata_def Let_def flip: n)
qed


lemma BT_PROTOCOL_simps [simp]: "length BT_PROTOCOL = 19"
  by (simp add: BT_PROTOCOL_def)

lemma handshake_parts:
  fixes bits ih pid :: bytes
  assumes "length bits = 8" and "length ih = 20" and "length pid = 20"
  shows "parse_handshake (19 # BT_PROTOCOL @ bits @ ih @ pid) ih =
    Inr \<lparr>protocol_identifier = BT_PROTOCOL, reserved = bits, info_hash = ih, peer_id = pid\<rparr>"
proof -
  let ?d = "19 # BT_PROTOCOL @ bits @ ih @ pid"
  have a: "slice ?d 1 20 = BT_PROTOCOL"
    by (simp add: Prelude.slice_def)
  have b: "slice ?d 20 28 = bits"
    using slice_append_mid [of "19 # BT_PROTOCOL" 20 28 bits "ih @ pid"] assms by simp
  have c: "slice ?d 28 48 = ih"
    using slice_append_mid [of "19 # BT_PROTOCOL @ bits" 28 48 ih pid] assms by simp
  have d: "slice ?d 48 68 = pid"
    using slice_append_mid [of "19 # BT_PROTOCOL @ bits @ ih" 48 68 pid "[]"] assms by simp
  show ?thesis
    using assms by (simp add: parse_handshake_def a [unfolded One_nat_def] b c d BT_HANDSHAKE_BYTES_def)
qed

definition local_bits :: bytes where
  "local_bits = [0, 0, 0, 0, 0, 0x10, 0, 0x01]"

lemma build_handshake_eq:
  assumes "length ih = 20" and "length pid = 20"
  shows "build_handshake ih pid = Inr (19 # BT_PROTOCOL @ local_bits @ ih @ pid)"
  using assms by (simp add: build_handshake_def local_bits_def numeral_eq_Suc)

text \<open>The extension handshake of a peer that serves metadata of \<open>len\<close> bytes under the
  extension number \<open>ext\<close>.\<close>

definition hello_dict :: "int \<Rightarrow> nat \<Rightarrow> pdict" where
  "hello_dict ext len =
     [(KBytes (ascii ''m''), PDict [(KBytes (ascii ''ut_metadata''), PInt ext)]),
      (KBytes (ascii ''metadata_size''), PInt (int len))]"

definition hello_message :: "int \<Rightarrow> nat \<Rightarrow> bytes" where
  "hello_message ext len = extended_message 0 (wire_enc (PDict (hello_dict ext len)))"

lemma hello_wire:
  assumes "roomy cfg" and "1 \<le> ext" and "ext \<le> 255" and "len < 10 ^ 100"
  shows "decode (wire_limits cfg) False (wire_enc (PDict (hello_dict ext len))) = Inr (PDict (hello_dict ext len))"
    and "length (wire_enc (PDict (hello_dict ext len))) \<le> 300"
proof -
  have "nat ext < 10 ^ 100"
    by (rule le_less_trans [of _ 255]) (use assms(3) in auto)
  note d = digits_100 [OF this] digits_100 [OF assms(4)]
  have "13 \<le> nat (MAX_BENCODE_STRING_LENGTH cfg)" "2 \<le> nat (MAX_BENCODE_DEPTH cfg)"
    "7 \<le> nat (MAX_BENCODE_ITEMS cfg)"
    using assms(1) by (simp_all add: roomy_def le_nat_iff)
  note r = this
  show "decode (wire_limits cfg) False (wire_enc (PDict (hello_dict ext len))) = Inr (PDict (hello_dict ext len))"
    unfolding decode_iff
  proof (intro conjI refl)
    show "wire False (PDict (hello_dict ext len))"
      by (simp add: hello_dict_def keys_ok_def is_bytes_key_def)
    show "fits (wire_limits cfg) 0 (PDict (hello_dict ext len))"
      using r d assms(2)
      by (simp add: hello_dict_def string_fits_def wire_limits_def int_max_str_digits_def dec_digits_eval nat_abs_int_diff)
    show "item_count (PDict (hello_dict ext len)) \<le> max_items (wire_limits cfg)"
      using r by (simp add: hello_dict_def wire_limits_def)
  qed
  show "length (wire_enc (PDict (hello_dict ext len))) \<le> 300"
    using d assms(2)
    by (simp add: hello_dict_def dict_enc_def pair_enc_def enc_bytes_def enc_int_def int_text_def dec_digits_eval)
qed

lemma parse_hello:
  assumes "roomy cfg" and "1 \<le> ext" and "ext \<le> 255" and "0 < len" and "int len \<le> MAX_METADATA_SIZE cfg"
  shows "\<exists>h. parse_extension_handshake cfg (wire_enc (PDict (hello_dict ext len))) = Inr h
    \<and> ut_metadata_id h = Some ext \<and> metadata_size h = Some (int len)"
proof -
  have "len < 10 ^ 100" using assms(1,5) by (simp add: roomy_def)
  note dec = hello_wire(1) [OF assms(1-3) this]
  show ?thesis
    using assms(2-5) unfolding parse_extension_handshake_def dec
    by (simp add: hello_dict_def dget_def int_in_def)
qed

lemma wait_hello:
  assumes "roomy cfg" and "1 \<le> ext" and "ext \<le> 255" and "0 < len" and "int len \<le> MAX_METADATA_SIZE cfg"
  shows "\<exists>h. wait_extension_handshake cfg (hello_message ext len @ rest) = Inr (h, rest)
    \<and> ut_metadata_id h = Some ext \<and> metadata_size h = Some (int len)"
proof -
  from parse_hello [OF assms] obtain h where
    h: "parse_extension_handshake cfg (wire_enc (PDict (hello_dict ext len))) = Inr h"
      "ut_metadata_id h = Some ext" "metadata_size h = Some (int len)"
    by blast
  let ?b = "(20 :: byte) # 0 # wire_enc (PDict (hello_dict ext len))"
  have "len < 10 ^ 100" using assms(1,5) by (simp add: roomy_def)
  note l = hello_wire(2) [OF assms(1-3) this]
  then have b: "length ?b < 2 ^ 32" and mx: "int (length ?b) \<le> MAX_PEER_MESSAGE_SIZE cfg"
    using assms(1) by (simp_all add: roomy_def)
  have m: "hello_message ext len = frame ?b"
    by (simp add: hello_message_def extended_message_def BT_EXTENDED_MESSAGE_ID_def)
  have "wait_extension_handshake cfg (hello_message ext len @ rest) = Inr (h, rest)"
    unfolding m using frame_read [OF b, of rest] mx h(1)
    by (subst wait_extension_handshake.simps)
      (simp add: Let_def BT_EXTENDED_MESSAGE_ID_def del: wire_enc.simps wire_enc_containers)
  with h show ?thesis by blast
qed


lemma build_extended_handshake_total:
  assumes "roomy cfg"
  shows "\<exists>msg. build_extended_handshake cfg = Inr msg"
proof -
  have "nat \<bar>METADATA_REQUEST_PIPELINE cfg\<bar> < 10 ^ 100"
    using assms by (simp add: roomy_def nat_less_iff)
  note d = digits_100 [OF this]
  show ?thesis
    unfolding build_extended_handshake_def
    using d by (simp add: encode_int_def LOCAL_UT_METADATA_ID_def int_max_str_digits_def dec_digits_eval)
qed

lemma fetch_honest:
  assumes "roomy cfg" and "length pid = 20" and "build_handshake ih rpid = Inr hello"
    and "1 \<le> ext" and "ext \<le> 255" and "raw \<noteq> []" and "int (length raw) \<le> MAX_METADATA_SIZE cfg"
    and "sha1 raw = ih"
  shows "fetch cfg pid ih
    (hello @ hello_message ext (length raw)
      @ honest_data raw [0..<nat (piece_count (int (length raw)))] @ rest) = Inr raw"
proof -
  let ?data = "honest_data raw [0..<nat (piece_count (int (length raw)))] @ rest"
  have l: "length ih = 20" "length rpid = 20"
    using assms(3) by (auto simp: build_handshake_def split: if_splits)
  with assms(3) have hello: "hello = 19 # BT_PROTOCOL @ local_bits @ ih @ rpid"
    by (simp add: build_handshake_eq)
  then have len: "length hello = BT_HANDSHAKE_BYTES"
    using l by (simp add: local_bits_def BT_HANDSHAKE_BYTES_def)
  from handshake_parts [of local_bits ih rpid] l obtain h0 where
    h0: "parse_handshake hello ih = Inr h0" "extension_protocol h0"
    by (auto simp: hello local_bits_def extension_protocol_def)
  from build_extended_handshake_total [OF assms(1)] obtain m where m: "build_extended_handshake cfg = Inr m" ..
  have "0 < length raw" using assms(6) by simp
  from wait_hello [OF assms(1,4,5) this assms(7), of ?data] obtain h where
    h: "wait_extension_handshake cfg (hello_message ext (length raw) @ ?data) = Inr (h, ?data)"
    "ut_metadata_id h = Some ext" "metadata_size h = Some (int (length raw))"
    by blast
  from download_honest [OF assms(1,6,7,4,5) refl, of "requested_pipeline cfg h" rest] obtain d where
    "download_metadata cfg ext (int (length raw)) (requested_pipeline cfg h) ?data = Inr (raw, d)" by blast
  then have "metadata_stage cfg ih h ?data = Inr raw"
    using h assms(8) by (simp add: metadata_stage_def in_stage_def)
  moreover have "build_handshake ih pid = Inr (19 # BT_PROTOCOL @ local_bits @ ih @ pid)"
    using l(1) assms(2) by (rule build_handshake_eq)
  ultimately show ?thesis
    using h(1) h0 m len by (simp add: fetch_def in_stage_def)
qed


lemma roomy_default: "roomy default_config"
  by (simp add: roomy_def default_config_def)

lemma default_metadata_size: "MAX_METADATA_SIZE default_config = 4194304"
  by (simp add: default_config_def)

text \<open>A session about two bytes of metadata.\<close>

definition example_hello :: bytes where
  "example_hello = 19 # BT_PROTOCOL @ local_bits @ sha1 [100, 101] @ replicate 20 66"

definition example_session :: bytes where
  "example_session = example_hello @ hello_message 3 (length [100, 101 :: byte])
     @ honest_data [100, 101] [0..<nat (piece_count (int (length [100, 101 :: byte])))] @ []"

lemma example_handshake: "build_handshake (sha1 [100, 101]) (replicate 20 66) = Inr example_hello"
  unfolding example_hello_def by (rule build_handshake_eq) (simp_all add: length_sha1)

lemma example_fetch:
  "fetch default_config (replicate 20 65) (sha1 [100, 101]) example_session = Inr [100, 101]"
  unfolding example_session_def
  by (rule fetch_honest [OF roomy_default _ example_handshake])
    (simp_all add: default_metadata_size)

section \<open>Properties\<close>

text \<open>A handshake this client sends is accepted by a client that expects the same infohash;
  it carries the extension protocol and DHT bits, the infohash and the peer identifier.\<close>

theorem handshake_roundtrip:
  assumes "build_handshake ih pid = Inr data"
  shows "\<exists>h. parse_handshake data ih = Inr h \<and> info_hash h = ih \<and> peer_id h = pid
    \<and> extension_protocol h \<and> dht_capability h"
proof -
  have l: "length ih = 20" "length pid = 20"
    using assms by (auto simp: build_handshake_def split: if_splits)
  with assms have "data = 19 # BT_PROTOCOL @ local_bits @ ih @ pid"
    by (simp add: build_handshake_eq)
  moreover have "length local_bits = 8" by (simp add: local_bits_def)
  ultimately show ?thesis
    using handshake_parts [of local_bits ih pid] l
    by (simp add: extension_protocol_def dht_capability_def local_bits_def)
qed

lemma handshake_roundtrip_witness:
  "\<exists>h. parse_handshake (19 # BT_PROTOCOL @ local_bits @ replicate 20 7 @ replicate 20 9) (replicate 20 7) = Inr h
    \<and> info_hash h = replicate 20 7 \<and> peer_id h = replicate 20 9 \<and> extension_protocol h \<and> dht_capability h"
  by (rule handshake_roundtrip) (simp add: build_handshake_eq)

text \<open>C16. While metadata is downloaded, at every moment at most the pipeline limit of requests is
  outstanding; the requests written are for the pieces 0, 1, 2, ... in this order and each once
  (besides them only rejects are written); every requested piece is either kept or outstanding,
  every kept piece was requested and has the size its position requires; and the pipeline is
  full until the last piece is requested.\<close>

theorem download_pipeline:
  assumes "reachable (download_init ext n limit) (download_step cfg msize n limit) d"
  shows "next_piece d \<le> n \<and> card (outstanding d) \<le> limit
    \<and> log_ok (next_piece d) (written d)
    \<and> distinct (map fst (pieces d)) \<and> set (map fst (pieces d)) \<inter> outstanding d = {}
    \<and> set (map fst (pieces d)) \<union> outstanding d = int ` {0..<next_piece d}
    \<and> (\<forall>(i, b) \<in> set (pieces d). int (length b) = piece_size msize i)
    \<and> (next_piece d = n \<or> limit \<le> card (outstanding d))"
  using downloads.reachable_inv [OF assms] by (simp add: dl_ok_def pipeline_full_def)

text \<open>C14. A session returns metadata only if its SHA-1 digest is the infohash it was fetched for;
  the metadata is not empty and not larger than the configured maximum.\<close>

theorem fetched_metadata_verified:
  assumes "fetch cfg pid ih inp = Inr raw"
  shows "sha1 raw = ih \<and> raw \<noteq> [] \<and> int (length raw) \<le> MAX_METADATA_SIZE cfg"
  using fetch_sound [OF assms] by blast

text \<open>C13. A peer that completes the handshakes, offers the metadata under a valid extension number
  and size, and answers the requests for the pieces in their order is understood: the session
  returns exactly the metadata, whatever the peer sends afterwards and however many pieces
  there are.\<close>

theorem honest_peer_served:
  assumes "roomy cfg" and "length pid = 20" and "build_handshake ih rpid = Inr hello"
    and "1 \<le> ext" and "ext \<le> 255" and "raw \<noteq> []" and "int (length raw) \<le> MAX_METADATA_SIZE cfg"
    and "sha1 raw = ih"
  shows "fetch cfg pid ih
    (hello @ hello_message ext (length raw)
      @ honest_data raw [0..<nat (piece_count (int (length raw)))] @ rest) = Inr raw"
  by (rule fetch_honest [OF assms])

lemma honest_peer_served_witness:
  "fetch default_config (replicate 20 65) (sha1 [100, 101]) example_session = Inr [100, 101]"
  unfolding example_session_def
  by (rule honest_peer_served [OF roomy_default _ example_handshake])
    (simp_all add: default_metadata_size)

lemma fetched_metadata_verified_witness:
  "\<exists>raw. fetch default_config (replicate 20 65) (sha1 [100, 101]) example_session = Inr raw
    \<and> sha1 raw = sha1 [100, 101] \<and> raw \<noteq> [] \<and> int (length raw) \<le> MAX_METADATA_SIZE default_config"
  using fetched_metadata_verified [OF example_fetch] example_fetch by blast

lemma download_pipeline_witness:
  "\<exists>d. download_init 3 1 4 d \<and> next_piece d \<le> 1 \<and> card (outstanding d) \<le> 4 \<and> log_ok (next_piece d) (written d)"
proof -
  have "\<exists>d. fill_pipeline 1 4 (start_download 3) = Inr d"
    by (rule fill_pipeline_total) (simp_all add: start_download_def)
  then obtain d where d: "download_init 3 1 4 d" by (auto simp: download_init_def)
  from download_pipeline [OF reachable.start, OF d] d show ?thesis by blast
qed

text \<open>The pieces of a successful download are exactly the pieces 0 to n - 1 of the announced
  size; each was requested exactly once, nothing stays outstanding, and the metadata is their
  concatenation in order, of exactly the announced size.\<close>

theorem downloaded_pieces_assemble:
  assumes "download_metadata cfg ext msize asked inp = Inr (raw, d)"
  shows "set (map fst (pieces d)) = int ` {0..<nat (piece_count msize)} \<and> distinct (map fst (pieces d))
    \<and> outstanding d = {} \<and> log_ok (nat (piece_count msize)) (written d)
    \<and> raw = concat (map (\<lambda>i. the (map_of (pieces d) (int i))) [0..<nat (piece_count msize)])
    \<and> int (length raw) = msize"
proof -
  note s = download_metadata_sound [OF assms]
  note c = pieces_complete [OF s(5,6)]
  show ?thesis using c s by (simp add: dl_ok_def assemble_def)
qed

lemma downloaded_pieces_assemble_witness:
  "\<exists>d. download_metadata default_config 3 2 5 (honest_data [100, 101] [0..<1] @ []) = Inr ([100, 101], d)
    \<and> set (map fst (pieces d)) = int ` {0..<1} \<and> outstanding d = {}"
proof -
  have "\<exists>d. download_metadata default_config 3 (int (length [100, 101 :: byte])) 5
      (honest_data [100, 101] [0..<1] @ []) = Inr ([100, 101], d)"
    by (rule download_honest [OF roomy_default]) (simp_all add: piece_count_def BEP9_BLOCK_SIZE_def default_metadata_size)
  then obtain d where d: "download_metadata default_config 3 2 5 (honest_data [100, 101] [0..<1] @ []) = Inr ([100, 101], d)"
    by auto
  have "nat (piece_count 2) = 1" by (simp add: piece_count_def BEP9_BLOCK_SIZE_def)
  with d downloaded_pieces_assemble [OF d] show ?thesis by auto
qed

text \<open>The only exceptions a metadata message raises besides \<open>PeerError\<close> are the integer
  conversion limit and the hash of a \<open>msg_type\<close> that is a list or a dictionary; these leave the
  session as other exceptions.\<close>

theorem metadata_message_escapes:
  "(\<exists>x. parse_metadata_message cfg payload msize n = Inl (Escaped x)) \<longleftrightarrow>
     decode_prefix (wire_limits cfg) False payload = Inl IntLimit
     \<or> (\<exists>d k. decode_prefix (wire_limits cfg) False payload = Inr (PDict d, k)
          \<and> ((\<exists>vs. dget d ''msg_type'' = Some (PList vs)) \<or> (\<exists>d'. dget d ''msg_type'' = Some (PDict d'))))"
proof (cases "decode_prefix (wire_limits cfg) False payload")
  case (Inl e)
  with decode_prefix_total [of "wire_limits cfg" False payload] show ?thesis
    by (cases e) (auto simp: parse_metadata_message_def bencode_exn_def)
next
  case (Inr p)
  obtain v k where p: "p = (v, k)" by (cases p)
  have "(\<exists>x. check_metadata_header d trailing msize n = Inl (Escaped x)) \<longleftrightarrow>
      (\<exists>vs. dget d ''msg_type'' = Some (PList vs)) \<or> (\<exists>d'. dget d ''msg_type'' = Some (PDict d'))" for d trailing
    by (auto simp: check_metadata_header_def msg_type_ok_def split: option.splits pyval.splits)
  then show ?thesis using Inr p
    by (cases v) (auto simp: parse_metadata_message_def)
qed

text \<open>A header that does: \<open>d8:msg_typele5:piecei0ee\<close>.\<close>

lemma unhashable_msg_type:
  "parse_metadata_message default_config (ascii ''d8:msg_typele5:piecei0ee'') 2 1 =
    Inl (Escaped (TypeError ''unhashable type: list''))"
proof -
  let ?d = "[(KBytes (ascii ''msg_type''), PList []), (KBytes (ascii ''piece''), PInt 0)]"
  have "wire_enc (PDict ?d) = ascii ''d8:msg_typele5:piecei0ee''"
    by (simp add: dict_enc_def pair_enc_def enc_bytes_def enc_int_def int_text_def dec_digits_eval ascii_def)
  moreover have "decode_prefix (wire_limits default_config) False (wire_enc (PDict ?d) @ []) =
      Inr (PDict ?d, length (wire_enc (PDict ?d)))"
    by (rule decode_prefix_wire_enc)
      (simp_all add: keys_ok_def is_bytes_key_def string_fits_def wire_limits_def default_config_def
        int_max_str_digits_def dec_digits_eval)
  ultimately show ?thesis
    by (simp add: parse_metadata_message_def check_metadata_header_def msg_type_ok_def dget_def)
qed

end
