(* ===== verification/Indexer.thy ===== *)
theory Indexer
  imports Utf8 Config Bencode_Correct "HOL-Library.Sublist"
begin

text \<open>
  \<open>includes/indexer.py\<close>: the index entry of a torrent from its exact metadata bytes. The first
  half follows the code, the second half says which metadata is indexed and how, and that no
  path is absolute or empty.
\<close>

section \<open>The indexed torrent\<close>

datatype indexing_exn = IndexingError string | InvalidBencode decode_exn

record indexed_file =
  file_index :: nat
  file_path :: ustr
  file_size :: int

record indexed_torrent =
  torrent_uid :: string
  torrent_name :: "ustr option"
  total_size :: int
  file_count :: nat
  piece_length :: "int option"
  info_size :: nat
  raw_info :: bytes
  torrent_files :: "indexed_file list"

section \<open>Text and path components\<close>

text \<open>\<open>_text\<close>; the length limit is positive.\<close>

definition text_of :: "config \<Rightarrow> pyval option \<Rightarrow> ustr option" where
  "text_of cfg v =
     (case v of
        Some (PBytes b) \<Rightarrow>
          let t = utf8_decode b in
          Some (if MAX_INDEX_TEXT_LENGTH cfg < int (length t) then take (nat (MAX_INDEX_TEXT_LENGTH cfg)) t else t)
      | _ \<Rightarrow> None)"

text \<open>\<open>text.replace("\\", "/").replace("\x00", "")\<close>, and \<open>text.strip("/")\<close>.\<close>

definition normalise :: "ustr \<Rightarrow> ustr" where
  "normalise t = filter (\<lambda>c. c \<noteq> 0) (map (\<lambda>c. if c = 92 then 47 else c) t)"

definition strip_slashes :: "ustr \<Rightarrow> ustr" where
  "strip_slashes t = rev (dropWhile (\<lambda>c. c = 47) (rev (dropWhile (\<lambda>c. c = 47) t)))"

definition component :: "config \<Rightarrow> pyval \<Rightarrow> indexing_exn + ustr" where
  "component cfg v =
     (case text_of cfg (Some v) of
        None \<Rightarrow> Inl (IndexingError ''path component is not a byte string'')
      | Some t \<Rightarrow>
          let t = strip_slashes (normalise t) in
          if t = [] \<or> t = [46] \<or> t = [46, 46]
          then Inl (IndexingError ''unsafe or empty path component'') else Inr t)"

fun components :: "config \<Rightarrow> pyval list \<Rightarrow> indexing_exn + ustr list" where
  "components cfg [] = Inr []"
| "components cfg (v # vs) =
     bind_r (component cfg v) (\<lambda>t. bind_r (components cfg vs) (\<lambda>ts. Inr (t # ts)))"

text \<open>\<open>"/".join(parts)\<close>.\<close>

fun join_path :: "ustr list \<Rightarrow> ustr" where
  "join_path [] = []"
| "join_path [t] = t"
| "join_path (t # ts) = t @ 47 # join_path ts"

section \<open>\<open>parse_validated_info\<close>\<close>

text \<open>\<open>name.utf-8\<close> or \<open>name\<close>: an empty first text is skipped as well.\<close>

definition display_name :: "config \<Rightarrow> pdict \<Rightarrow> ustr option" where
  "display_name cfg info =
     (case text_of cfg (dget info ''name.utf-8'') of
        Some (c # t) \<Rightarrow> Some (c # t)
      | _ \<Rightarrow> text_of cfg (dget info ''name''))"

definition parse_piece_length :: "pdict \<Rightarrow> indexing_exn + int option" where
  "parse_piece_length info =
     (case dget info ''piece length'' of
        None \<Rightarrow> Inr None
      | Some (PInt i) \<Rightarrow> if i \<le> 0 then Inl (IndexingError ''invalid piece length'') else Inr (Some i)
      | _ \<Rightarrow> Inl (IndexingError ''invalid piece length''))"

definition parse_entry :: "config \<Rightarrow> nat \<Rightarrow> pyval \<Rightarrow> indexing_exn + indexed_file" where
  "parse_entry cfg idx entry =
     (case entry of
        PDict d \<Rightarrow>
          (case dget d ''length'' of
             Some (PInt n) \<Rightarrow>
               if n < 0 then Inl (IndexingError ''invalid file length'')
               else
                 (case (case dget d ''path.utf-8'' of Some v \<Rightarrow> Some v | None \<Rightarrow> dget d ''path'') of
                    Some (PList parts) \<Rightarrow>
                      if parts = [] then Inl (IndexingError ''invalid file path'')
                      else if MAX_PATH_COMPONENTS cfg < int (length parts)
                      then Inl (IndexingError ''maximum path components exceeded'')
                      else bind_r (components cfg parts) (\<lambda>ts.
                             Inr \<lparr>file_index = idx, file_path = join_path ts, file_size = n\<rparr>)
                  | _ \<Rightarrow> Inl (IndexingError ''invalid file path''))
           | _ \<Rightarrow> Inl (IndexingError ''invalid file length''))
      | _ \<Rightarrow> Inl (IndexingError ''file entry must be a dictionary''))"

fun parse_entries :: "config \<Rightarrow> nat \<Rightarrow> pyval list \<Rightarrow> indexing_exn + indexed_file list" where
  "parse_entries cfg idx [] = Inr []"
| "parse_entries cfg idx (e # es) =
     bind_r (parse_entry cfg idx e) (\<lambda>f. bind_r (parse_entries cfg (Suc idx) es) (\<lambda>fs. Inr (f # fs)))"

definition parse_files :: "config \<Rightarrow> ustr option \<Rightarrow> pdict \<Rightarrow> indexing_exn + indexed_file list" where
  "parse_files cfg nm info =
     (case dget info ''files'' of
        Some (PList entries) \<Rightarrow>
          if MAX_FILES_PER_TORRENT cfg < int (length entries)
          then Inl (IndexingError ''maximum file count exceeded'')
          else parse_entries cfg 0 entries
      | Some _ \<Rightarrow> Inl (IndexingError ''files must be a list'')
      | None \<Rightarrow>
          (case dget info ''length'' of
             Some (PInt n) \<Rightarrow>
               if n < 0 then Inl (IndexingError ''single-file torrent requires non-negative length'')
               else Inr [\<lparr>file_index = 0,
                          file_path = (case nm of Some (c # t) \<Rightarrow> c # t | _ \<Rightarrow> map of_char ''unnamed''),
                          file_size = n\<rparr>]
           | _ \<Rightarrow> Inl (IndexingError ''single-file torrent requires non-negative length'')))"

definition index_limits :: "config \<Rightarrow> decode_limits" where
  "index_limits cfg =
     \<lparr>max_depth = nat (MAX_BENCODE_DEPTH cfg), max_items = nat (MAX_BENCODE_ITEMS cfg),
      max_string_length = nat (MAX_BENCODE_STRING_LENGTH cfg)\<rparr>"

definition parse_validated_info :: "config \<Rightarrow> bytes \<Rightarrow> string \<Rightarrow> indexing_exn + indexed_torrent" where
  "parse_validated_info cfg raw uid =
     bind_r (map_exn InvalidBencode (decode (index_limits cfg) True raw)) (\<lambda>v.
     case v of
       PDict info \<Rightarrow>
         (let nm = display_name cfg info in
          bind_r (parse_piece_length info) (\<lambda>pl.
          bind_r (parse_files cfg nm info) (\<lambda>fs.
          Inr \<lparr>torrent_uid = uid, torrent_name = nm, total_size = sum_list (map file_size fs),
               file_count = length fs, piece_length = pl, info_size = length raw, raw_info = raw,
               torrent_files = fs\<rparr>)))
     | _ \<Rightarrow> Inl (IndexingError ''info metadata must be a dictionary''))"

section \<open>Which metadata is indexed\<close>

text \<open>The shape of an info dictionary that can be indexed, and its files, written as a
  specification over the decoded dictionary rather than as the sequence of checks.\<close>

definition safe_component :: "config \<Rightarrow> pyval \<Rightarrow> bool" where
  "safe_component cfg v \<longleftrightarrow> (\<exists>b. v = PBytes b \<and>
     strip_slashes (normalise (the (text_of cfg (Some (PBytes b))))) \<notin> {[], [46], [46, 46]})"

definition component_text :: "config \<Rightarrow> pyval \<Rightarrow> ustr" where
  "component_text cfg v = strip_slashes (normalise (the (text_of cfg (Some v))))"

definition entry_path :: "pdict \<Rightarrow> pyval option" where
  "entry_path d = (if dget d ''path.utf-8'' = None then dget d ''path'' else dget d ''path.utf-8'')"

definition valid_entry :: "config \<Rightarrow> pyval \<Rightarrow> bool" where
  "valid_entry cfg e \<longleftrightarrow> (\<exists>d n parts. e = PDict d \<and> dget d ''length'' = Some (PInt n) \<and> 0 \<le> n
     \<and> entry_path d = Some (PList parts) \<and> parts \<noteq> []
     \<and> int (length parts) \<le> MAX_PATH_COMPONENTS cfg \<and> (\<forall>v \<in> set parts. safe_component cfg v))"

definition entry_file :: "config \<Rightarrow> nat \<Rightarrow> pyval \<Rightarrow> indexed_file" where
  "entry_file cfg i e =
     (case e of
        PDict d \<Rightarrow>
          (case (dget d ''length'', entry_path d) of
             (Some (PInt n), Some (PList parts)) \<Rightarrow>
               \<lparr>file_index = i, file_path = join_path (map (component_text cfg) parts), file_size = n\<rparr>))"

definition valid_info :: "config \<Rightarrow> pdict \<Rightarrow> bool" where
  "valid_info cfg info \<longleftrightarrow>
     (\<forall>v. dget info ''piece length'' = Some v \<longrightarrow> (\<exists>i. v = PInt i \<and> 0 < i))
     \<and> (case dget info ''files'' of
          Some v \<Rightarrow> \<exists>es. v = PList es \<and> int (length es) \<le> MAX_FILES_PER_TORRENT cfg \<and> (\<forall>e \<in> set es. valid_entry cfg e)
        | None \<Rightarrow> \<exists>n. dget info ''length'' = Some (PInt n) \<and> 0 \<le> n)"

definition index_files :: "config \<Rightarrow> pdict \<Rightarrow> indexed_file list" where
  "index_files cfg info =
     (case dget info ''files'' of
        Some (PList es) \<Rightarrow> map (\<lambda>(i, e). entry_file cfg i e) (enumerate 0 es)
      | _ \<Rightarrow> (case dget info ''length'' of
                Some (PInt n) \<Rightarrow>
                  [\<lparr>file_index = 0,
                    file_path = (if display_name cfg info \<in> {None, Some []} then map of_char ''unnamed''
                                 else the (display_name cfg info)),
                    file_size = n\<rparr>]))"

lemma component_iff:
  "component cfg v = Inr t \<longleftrightarrow> safe_component cfg v \<and> t = component_text cfg v"
  by (cases v) (auto simp: component_def safe_component_def component_text_def text_of_def Let_def)

lemma components_iff:
  "components cfg vs = Inr ts \<longleftrightarrow> (\<forall>v \<in> set vs. safe_component cfg v) \<and> ts = map (component_text cfg) vs"
  by (induction vs arbitrary: ts) (auto simp: bind_r_Inr_iff component_iff)

lemma parse_entry_iff:
  "parse_entry cfg i e = Inr f \<longleftrightarrow> valid_entry cfg e \<and> f = entry_file cfg i e"
proof (cases "valid_entry cfg e")
  case True
  then show ?thesis
    by (auto simp: valid_entry_def parse_entry_def entry_file_def entry_path_def bind_r_Inr_iff components_iff
        split: option.splits if_splits)
next
  case False
  have "parse_entry cfg i e \<noteq> Inr f"
  proof
    assume "parse_entry cfg i e = Inr f"
    then have "valid_entry cfg e"
      by (auto simp: valid_entry_def parse_entry_def entry_path_def bind_r_Inr_iff components_iff
          split: option.splits if_splits pyval.splits)
    with False show False ..
  qed
  with False show ?thesis by blast
qed

lemma parse_entries_iff:
  "parse_entries cfg i es = Inr fs \<longleftrightarrow>
     (\<forall>e \<in> set es. valid_entry cfg e) \<and> fs = map (\<lambda>(j, e). entry_file cfg j e) (enumerate i es)"
  by (induction es arbitrary: i fs) (auto simp: bind_r_Inr_iff parse_entry_iff)

lemma parse_piece_length_iff:
  "parse_piece_length info = Inr pl \<longleftrightarrow>
     (\<forall>v. dget info ''piece length'' = Some v \<longrightarrow> (\<exists>i. v = PInt i \<and> 0 < i))
     \<and> pl = (case dget info ''piece length'' of Some (PInt i) \<Rightarrow> Some i | _ \<Rightarrow> None)"
  by (auto simp: parse_piece_length_def split: option.splits pyval.splits)

lemma parse_files_iff:
  "parse_files cfg (display_name cfg info) info = Inr fs \<longleftrightarrow>
     (case dget info ''files'' of
        Some v \<Rightarrow> \<exists>es. v = PList es \<and> int (length es) \<le> MAX_FILES_PER_TORRENT cfg \<and> (\<forall>e \<in> set es. valid_entry cfg e)
      | None \<Rightarrow> \<exists>n. dget info ''length'' = Some (PInt n) \<and> 0 \<le> n)
     \<and> fs = index_files cfg info"
proof (cases "dget info ''files''")
  case None
  then show ?thesis
    by (auto simp: parse_files_def index_files_def split: option.splits pyval.splits list.splits)
next
  case (Some v)
  then show ?thesis
    by (cases v) (auto simp: parse_files_def index_files_def parse_entries_iff)
qed

lemma case_PDict_Inr:
  "(case v of PDict d \<Rightarrow> f d | _ \<Rightarrow> Inl e) = Inr y \<longleftrightarrow> (\<exists>d. v = PDict d \<and> f d = Inr y)"
  by (cases v) auto

lemma indexed_iff0:
  "parse_validated_info cfg raw uid = Inr t \<longleftrightarrow>
     (\<exists>info. decode (index_limits cfg) True raw = Inr (PDict info) \<and> valid_info cfg info
       \<and> t = \<lparr>torrent_uid = uid, torrent_name = display_name cfg info,
              total_size = sum_list (map file_size (index_files cfg info)),
              file_count = length (index_files cfg info),
              piece_length = (case dget info ''piece length'' of Some (PInt i) \<Rightarrow> Some i | _ \<Rightarrow> None),
              info_size = length raw, raw_info = raw, torrent_files = index_files cfg info\<rparr>)"
  (is "?l \<longleftrightarrow> ?r")
proof -
  have "?l \<longleftrightarrow> (\<exists>info pl fs. decode (index_limits cfg) True raw = Inr (PDict info)
      \<and> parse_piece_length info = Inr pl \<and> parse_files cfg (display_name cfg info) info = Inr fs
      \<and> t = \<lparr>torrent_uid = uid, torrent_name = display_name cfg info, total_size = sum_list (map file_size fs),
           file_count = length fs, piece_length = pl, info_size = length raw, raw_info = raw, torrent_files = fs\<rparr>)"
    by (auto simp: parse_validated_info_def bind_r_Inr_iff Let_def case_PDict_Inr)
  then show ?thesis
    unfolding parse_piece_length_iff parse_files_iff valid_info_def by blast
qed

text \<open>C17. A torrent is indexed exactly when its metadata decodes strictly to a dictionary of the
  specified shape, and the entry is the one the specification names; every other input raises.\<close>

theorem indexed_iff:
  "parse_validated_info cfg raw uid = Inr t \<longleftrightarrow>
     (\<exists>info. decode (index_limits cfg) True raw = Inr (PDict info) \<and> valid_info cfg info
       \<and> t = \<lparr>torrent_uid = uid, torrent_name = display_name cfg info,
              total_size = sum_list (map file_size (index_files cfg info)),
              file_count = length (index_files cfg info),
              piece_length = (case dget info ''piece length'' of Some (PInt i) \<Rightarrow> Some i | _ \<Rightarrow> None),
              info_size = length raw, raw_info = raw, torrent_files = index_files cfg info\<rparr>)"
  by (rule indexed_iff0)

section \<open>Paths\<close>

definition clean_path :: "ustr \<Rightarrow> bool" where
  "clean_path t \<longleftrightarrow> t \<noteq> [] \<and> hd t \<noteq> 47 \<and> last t \<noteq> 47 \<and> 0 \<notin> set t \<and> 92 \<notin> set t"

lemma strip_slashes_ends:
  assumes "strip_slashes t \<noteq> []"
  shows "hd (strip_slashes t) \<noteq> 47" and "last (strip_slashes t) \<noteq> 47"
proof -
  let ?P = "\<lambda>c. c = (47 :: nat)"
  let ?l = "dropWhile ?P t"
  have r: "strip_slashes t = rev (dropWhile ?P (rev ?l))" by (simp add: strip_slashes_def)
  with assms have ne: "dropWhile ?P (rev ?l) \<noteq> []" by auto
  then have "\<not> ?P (hd (dropWhile ?P (rev ?l)))" by (rule hd_dropWhile)
  then show "last (strip_slashes t) \<noteq> 47" using r ne by (simp add: last_rev)
  have "?l = rev (dropWhile ?P (rev ?l)) @ rev (takeWhile ?P (rev ?l))"
    by (metis rev_append rev_rev_ident takeWhile_dropWhile_id)
  then have "?l = strip_slashes t @ rev (takeWhile ?P (rev ?l))" using r by simp
  with assms have "hd ?l = hd (strip_slashes t)" "?l \<noteq> []" by (metis hd_append, fastforce)
  with hd_dropWhile [of ?P t] show "hd (strip_slashes t) \<noteq> 47" by simp
qed

lemma set_strip_slashes: "set (strip_slashes t) \<subseteq> set t"
  unfolding strip_slashes_def by (auto dest!: set_dropWhileD)

lemma set_normalise: "0 \<notin> set (normalise t)" "92 \<notin> set (normalise t)"
  by (auto simp: normalise_def)

lemma component_clean:
  assumes "safe_component cfg v"
  shows "clean_path (component_text cfg v)"
proof -
  let ?n = "normalise (the (text_of cfg (Some v)))"
  have c: "component_text cfg v = strip_slashes ?n" by (simp add: component_text_def)
  have "strip_slashes ?n \<noteq> []" using assms by (auto simp: safe_component_def)
  from strip_slashes_ends [OF this] this set_strip_slashes [of ?n] set_normalise [of "the (text_of cfg (Some v))"]
  show ?thesis unfolding clean_path_def c by blast
qed

lemma join_path_clean: "ts \<noteq> [] \<Longrightarrow> (\<forall>t \<in> set ts. clean_path t) \<Longrightarrow> clean_path (join_path ts)"
  by (induction ts rule: join_path.induct) (auto simp: clean_path_def hd_append)

lemma entry_file_clean:
  assumes "valid_entry cfg e"
  shows "clean_path (file_path (entry_file cfg i e))" and "0 \<le> file_size (entry_file cfg i e)"
    and "file_index (entry_file cfg i e) = i"
proof -
  from assms obtain d n parts where e: "e = PDict d" "dget d ''length'' = Some (PInt n)" "0 \<le> n"
    "entry_path d = Some (PList parts)" "parts \<noteq> []" "\<forall>v \<in> set parts. safe_component cfg v"
    by (auto simp: valid_entry_def)
  then have "clean_path (join_path (map (component_text cfg) parts))"
    by (intro join_path_clean) (auto intro: component_clean)
  with e show "clean_path (file_path (entry_file cfg i e))" "0 \<le> file_size (entry_file cfg i e)"
    "file_index (entry_file cfg i e) = i"
    by (simp_all add: entry_file_def)
qed

lemma indexed_files:
  assumes "parse_validated_info cfg raw uid = Inr t"
  shows "map file_index (torrent_files t) = [0..<file_count t] \<and> file_count t = length (torrent_files t)
    \<and> (\<forall>f \<in> set (torrent_files t). 0 \<le> file_size f)
    \<and> total_size t = sum_list (map file_size (torrent_files t))
    \<and> raw_info t = raw \<and> info_size t = length raw
    \<and> (\<forall>info es. decode (index_limits cfg) True raw = Inr (PDict info) \<and> dget info ''files'' = Some (PList es) \<longrightarrow>
         int (file_count t) \<le> MAX_FILES_PER_TORRENT cfg
         \<and> (\<forall>f \<in> set (torrent_files t). clean_path (file_path f)))"
proof -
  from assms [unfolded indexed_iff0] obtain info where d: "decode (index_limits cfg) True raw = Inr (PDict info)"
    and v: "valid_info cfg info" and t: "torrent_files t = index_files cfg info" "file_count t = length (index_files cfg info)"
    "total_size t = sum_list (map file_size (index_files cfg info))" "raw_info t = raw" "info_size t = length raw"
    by auto
  show ?thesis
  proof (cases "dget info ''files''")
    case None
    with v obtain n where "dget info ''length'' = Some (PInt n)" "0 \<le> n" by (auto simp: valid_info_def)
    with None d t show ?thesis by (auto simp: index_files_def)
  next
    case (Some w)
    with v obtain es where es: "w = PList es" "int (length es) \<le> MAX_FILES_PER_TORRENT cfg"
      "\<forall>e \<in> set es. valid_entry cfg e"
      by (auto simp: valid_info_def)
    have f: "index_files cfg info = map (\<lambda>(i, e). entry_file cfg i e) (enumerate 0 es)"
      using Some es by (simp add: index_files_def)
    have mem: "e \<in> set es" if "(i, e) \<in> set (enumerate 0 es)" for i e
      using that by (auto simp: in_set_enumerate_eq)
    have all: "clean_path (file_path g) \<and> 0 \<le> file_size g" if "g \<in> set (index_files cfg info)" for g
    proof -
      from that obtain i e where g: "g = entry_file cfg i e" "(i, e) \<in> set (enumerate 0 es)"
        unfolding f by auto
      with es(3) mem have "valid_entry cfg e" by blast
      with g entry_file_clean(1,2) show ?thesis by simp
    qed
    have "file_index (case p of (i, e) \<Rightarrow> entry_file cfg i e) = fst p" if "p \<in> set (enumerate 0 es)" for p
    proof -
      obtain i e where p: "p = (i, e)" by (cases p)
      with that mem es(3) have "valid_entry cfg e" by blast
      from entry_file_clean(3) [OF this] p show ?thesis by simp
    qed
    then have "map file_index (index_files cfg info) = map fst (enumerate 0 es)"
      unfolding f map_map by (intro map_cong) (simp_all add: comp_def)
    then have "map file_index (index_files cfg info) = [0..<length es]" by simp
    moreover have "length (index_files cfg info) = length es" by (simp add: f)
    ultimately show ?thesis using t all d Some es by auto
  qed
qed


text \<open>An info dictionary with two files, in the order bencode writes its keys.\<close>

definition demo_info :: pdict where
  "demo_info =
     [(KBytes (ascii ''files''),
       PList [PDict [(KBytes (ascii ''length''), PInt 3), (KBytes (ascii ''path''), PList [PBytes (ascii ''a''), PBytes (ascii ''b/'')])],
              PDict [(KBytes (ascii ''length''), PInt 4), (KBytes (ascii ''path''), PList [PBytes (ascii ''x/../../y'')])]]),
      (KBytes (ascii ''name''), PBytes (ascii ''n''))]"

lemma demo_decode: "decode (index_limits default_config) True (wire_enc (PDict demo_info)) = Inr (PDict demo_info)"
  unfolding decode_iff
  by (simp add: demo_info_def index_limits_def default_config_def keys_ok_def is_bytes_key_def
      string_fits_def int_max_str_digits_def dec_digits_eval ascii_def)

lemma utf8_decode_ascii7:
  "\<forall>c \<in> set s. (of_char c :: nat) < 128 \<Longrightarrow> utf8_decode (ascii s) = map of_char s"
proof (induction s)
  case (Cons c s)
  have "unat (of_char c :: byte) = of_char c"
  proof -
    have "(of_char c :: byte) = of_nat (of_char c)" by (metis of_nat_of_char)
    then show ?thesis using Cons.prems by (simp add: unat_byte_of_nat)
  qed
  with Cons show ?case by (simp add: ascii_def utf8_decode.simps(2))
qed (simp add: ascii_def)

lemma component_text_ascii7:
  assumes "\<forall>c \<in> set s. (of_char c :: nat) < 128" and "length s \<le> 100"
  shows "component_text default_config (PBytes (ascii s)) = strip_slashes (normalise (map of_char s))"
  using assms by (simp add: component_text_def text_of_def utf8_decode_ascii7 default_config_def)

text \<open>A component that holds \<open>..\<close> between slashes passes the check, which only looks at the
  component as a whole: the indexed path climbs above the torrent's directory.\<close>

lemma dotdot_component:
  "component default_config (PBytes (ascii ''x/../../y'')) = Inr (map of_char ''x/../../y'')"
  by (simp add: component_def text_of_def utf8_decode_ascii7 default_config_def normalise_def strip_slashes_def)

lemma demo_valid: "valid_info default_config demo_info"
proof -
  note ev = valid_entry_def entry_path_def dget_def safe_component_def text_of_def utf8_decode_ascii7
    default_config_def normalise_def strip_slashes_def
  have "valid_entry default_config (PDict [(KBytes (ascii ''length''), PInt 3),
      (KBytes (ascii ''path''), PList [PBytes (ascii ''a''), PBytes (ascii ''b/'')])])"
    by (simp add: ev)
  moreover have "valid_entry default_config (PDict [(KBytes (ascii ''length''), PInt 4),
      (KBytes (ascii ''path''), PList [PBytes (ascii ''x/../../y'')])])"
    by (simp add: ev)
  ultimately show ?thesis
    by (simp add: valid_info_def demo_info_def dget_def) (simp add: default_config_def)
qed

lemma demo_indexed:
  "\<exists>t. parse_validated_info default_config (wire_enc (PDict demo_info)) ''btih:00'' = Inr t \<and> file_count t = 2
    \<and> map file_path (torrent_files t) = [map of_char ''a/b'', map of_char ''x/../../y'']
    \<and> map file_size (torrent_files t) = [3, 4]"
proof -
  have "map file_path (index_files default_config demo_info) = [map of_char ''a/b'', map of_char ''x/../../y'']"
    "map file_size (index_files default_config demo_info) = [3, 4]"
    "length (index_files default_config demo_info) = 2"
    by (simp_all add: index_files_def demo_info_def dget_def entry_file_def entry_path_def
        component_text_ascii7 normalise_def strip_slashes_def)
  with demo_decode demo_valid show ?thesis
    unfolding indexed_iff0 by (intro exI conjI refl) (assumption | simp)+
qed


end
