(* ===== verification/Monitoring.thy ===== *)
theory Monitoring
  imports Indexer
begin

text \<open>
  \<open>includes/monitoring.py\<close>: which keywords occur in a torrent's name and paths.
  \<open>str.casefold\<close> is the argument \<open>casefold\<close> of the definitions, a function on texts; nothing is
  assumed of it. The loops of \<open>match_keywords\<close> are two recursions over the keywords and the
  values; the theorem says what they compute.
\<close>

record keyword_result =
  found_keywords :: "ustr list"
  found_values :: "ustr list"

text \<open>\<open>needle in haystack\<close>.\<close>

fun occurs :: "ustr \<Rightarrow> ustr \<Rightarrow> bool" where
  "occurs needle [] = (needle = [])"
| "occurs needle (c # t) = (prefix needle (c # t) \<or> occurs needle t)"

lemma occurs_sublist: "occurs needle t \<longleftrightarrow> sublist needle t"
  by (induction t) (auto simp: sublist_Cons_right)

definition searched_values :: "indexed_torrent \<Rightarrow> ustr list" where
  "searched_values t =
     (case torrent_name t of Some (c # nm) \<Rightarrow> [c # nm] | _ \<Rightarrow> []) @ map file_path (torrent_files t)"

definition hit :: "(ustr \<Rightarrow> ustr) \<Rightarrow> bool \<Rightarrow> ustr \<Rightarrow> ustr \<Rightarrow> bool" where
  "hit casefold cs keyword v \<longleftrightarrow>
     occurs (if cs then keyword else casefold keyword) (if cs then v else casefold v)"

text \<open>The inner loop: \<open>found\<close> and the list of matched values.\<close>

fun match_values :: "(ustr \<Rightarrow> ustr) \<Rightarrow> bool \<Rightarrow> ustr \<Rightarrow> ustr list \<Rightarrow> bool \<Rightarrow> ustr list \<Rightarrow> bool \<times> ustr list" where
  "match_values casefold cs keyword [] found ms = (found, ms)"
| "match_values casefold cs keyword (v # vs) found ms =
     (if hit casefold cs keyword v
      then match_values casefold cs keyword vs True (if v \<in> set ms then ms else ms @ [v])
      else match_values casefold cs keyword vs found ms)"

fun match_loop :: "(ustr \<Rightarrow> ustr) \<Rightarrow> bool \<Rightarrow> ustr list \<Rightarrow> ustr list \<Rightarrow> ustr list \<Rightarrow> ustr list \<Rightarrow> ustr list \<times> ustr list" where
  "match_loop casefold cs [] vs ks ms = (ks, ms)"
| "match_loop casefold cs (k # rest) vs ks ms =
     (if k = [] then match_loop casefold cs rest vs ks ms
      else
        (let (found, ms') = match_values casefold cs k vs False ms
         in match_loop casefold cs rest vs (if found then ks @ [k] else ks) ms'))"

definition match_keywords :: "(ustr \<Rightarrow> ustr) \<Rightarrow> indexed_torrent \<Rightarrow> ustr list \<Rightarrow> bool \<Rightarrow> keyword_result option" where
  "match_keywords casefold t kws cs =
     (if kws = [] then None
      else
        (let (ks, ms) = match_loop casefold cs kws (searched_values t) [] []
         in if ks = [] then None else Some \<lparr>found_keywords = ks, found_values = ms\<rparr>))"

lemma match_values_spec:
  assumes "match_values casefold cs k vs found ms = (found', ms')" and "distinct ms"
  shows "found' = (found \<or> (\<exists>v \<in> set vs. hit casefold cs k v)) \<and> distinct ms'
    \<and> set ms' = set ms \<union> {v \<in> set vs. hit casefold cs k v}"
  using assms
proof (induction vs arbitrary: found ms)
  case (Cons v vs)
  show ?case
  proof (cases "hit casefold cs k v")
    case True
    have "distinct (if v \<in> set ms then ms else ms @ [v])" using Cons.prems(2) by simp
    from Cons.IH [OF _ this] Cons.prems(1) True show ?thesis by auto
  next
    case False
    with Cons.IH [of found ms] Cons.prems show ?thesis by auto
  qed
qed auto

definition keyword_hits :: "(ustr \<Rightarrow> ustr) \<Rightarrow> bool \<Rightarrow> ustr list \<Rightarrow> ustr \<Rightarrow> bool" where
  "keyword_hits casefold cs vs k \<longleftrightarrow> k \<noteq> [] \<and> (\<exists>v \<in> set vs. hit casefold cs k v)"

lemma match_loop_spec:
  assumes "match_loop casefold cs kws vs ks ms = (ks', ms')" and "distinct ms"
  shows "ks' = ks @ filter (keyword_hits casefold cs vs) kws \<and> distinct ms'
    \<and> set ms' = set ms \<union> {v \<in> set vs. \<exists>k \<in> set kws. k \<noteq> [] \<and> hit casefold cs k v}"
  using assms
proof (induction kws arbitrary: ks ms)
  case (Cons k kws)
  show ?case
  proof (cases "k = []")
    case True
    with Cons.IH [of ks ms] Cons.prems show ?thesis by (auto simp: keyword_hits_def)
  next
    case False
    obtain found ms1 where m: "match_values casefold cs k vs False ms = (found, ms1)" by fastforce
    note s = match_values_spec [OF m Cons.prems(2)]
    then have "distinct ms1" by blast
    from Cons.IH [OF _ this, of "if found then ks @ [k] else ks"] Cons.prems(1) False m s
    show ?thesis by (auto simp: keyword_hits_def)
  qed
qed auto

lemma match_keywords_spec:
  "match_keywords casefold t kws cs =
     (if \<exists>k \<in> set kws. keyword_hits casefold cs (searched_values t) k
      then Some \<lparr>found_keywords = filter (keyword_hits casefold cs (searched_values t)) kws,
                 found_values = snd (match_loop casefold cs kws (searched_values t) [] [])\<rparr>
      else None)"
proof (cases "kws = []")
  case False
  obtain ks ms where m: "match_loop casefold cs kws (searched_values t) [] [] = (ks, ms)" by fastforce
  from match_loop_spec [OF this] False m show ?thesis
    by (auto simp: match_keywords_def filter_empty_conv)
qed (simp add: match_keywords_def)

text \<open>A match is reported exactly when some non-empty keyword occurs in the name or in a
  path; it lists the keywords that occur, in the configured order, and without repetition
  exactly the name and paths in which one of them occurs.\<close>

theorem keyword_match:
  "(match_keywords casefold t kws cs = None \<longleftrightarrow>
      (\<forall>k \<in> set kws. \<forall>v \<in> set (searched_values t). k = [] \<or> \<not> hit casefold cs k v))
   \<and> (\<forall>r. match_keywords casefold t kws cs = Some r \<longrightarrow>
        found_keywords r = filter (keyword_hits casefold cs (searched_values t)) kws \<and> distinct (found_values r)
        \<and> set (found_values r) = {v \<in> set (searched_values t). \<exists>k \<in> set kws. k \<noteq> [] \<and> hit casefold cs k v})"
proof -
  obtain ks ms where m: "match_loop casefold cs kws (searched_values t) [] [] = (ks, ms)" by fastforce
  from match_loop_spec [OF this] show ?thesis
    unfolding match_keywords_spec m by (auto simp: keyword_hits_def)
qed

definition demo_torrent :: indexed_torrent where
  "demo_torrent = \<lparr>torrent_uid = ''btih:00'', torrent_name = Some [65, 66], total_size = 1, file_count = 2,
     piece_length = None, info_size = 1, raw_info = [0],
     torrent_files = [\<lparr>file_index = 0, file_path = [66, 67], file_size = 1\<rparr>,
                      \<lparr>file_index = 1, file_path = [65, 66], file_size = 0\<rparr>]\<rparr>"

lemma keyword_match_witness:
  "match_keywords (map (\<lambda>c. if 65 \<le> c \<and> c \<le> 90 then c + 32 else c)) demo_torrent [[98], [], [122]] False =
     Some \<lparr>found_keywords = [[98]], found_values = [[65, 66], [66, 67]]\<rparr>
   \<and> set [[65, 66], [66, 67 :: nat]] = {v \<in> set (searched_values demo_torrent).
       \<exists>k \<in> set [[98], [], [122]]. k \<noteq> [] \<and> hit (map (\<lambda>c. if 65 \<le> c \<and> c \<le> 90 then c + 32 else c)) False k v}"
proof -
  let ?f = "map (\<lambda>c :: nat. if 65 \<le> c \<and> c \<le> 90 then c + 32 else c)"
  have "match_keywords ?f demo_torrent [[98], [], [122]] False =
     Some \<lparr>found_keywords = [[98]], found_values = [[65, 66], [66, 67]]\<rparr>"
    by (simp add: match_keywords_def searched_values_def demo_torrent_def hit_def)
  with keyword_match [of ?f demo_torrent "[[98], [], [122]]" False] show ?thesis by auto
qed

end
