(* ===== verification/Krpc.thy ===== *)
theory Krpc
  imports Routing Tokens Peer_Store Candidates Utf8
begin

text \<open>
  The \<open>DHTNode\<close> of \<open>includes/dht.py\<close>: the KRPC messages it answers, the responses it accepts
  and the queries it sends. The node's mutable parts (routing table, token manager, peer
  store, candidates, pending queries) are one record, and a method is a function from that
  record to the changed record and a result, so that what a method did before it raised is
  kept. Datagrams handed to the transport are collected in \<open>outbox\<close>. The JSONL evidence
  records are left out, except for what their construction does to the node's state.
\<close>

section \<open>Results of a method\<close>

text \<open>\<open>KRPC\<close> is \<open>KRPCError\<close>, a subclass of \<open>DHTError\<close>; \<open>Py\<close> an exception of the language or
  library; \<open>Route\<close> what the routing table raises when its invariant is broken.\<close>

datatype krpc_exn = KRPC int ustr | DHTError string | Py pyexn | Route route_exn

record pending_query =
  pq_query :: bytes
  pq_endpoint :: endpoint
  pq_expected :: "bytes option"
  pq_future :: "(krpc_exn + pdict) option"

record node =
  own_id :: bytes
  own_version :: bytes
  routing :: table
  secrets :: token_manager
  peers_stored :: peer_store
  candidates :: candidate_manager
  pending :: "(bytes \<times> pending_query) list"
  tx_counter :: nat
  free_slots :: nat
  local_ips :: "atext set"
  sample_cache :: "(int \<times> bytes list) option"
  transport_up :: bool
  closing :: bool
  outbox :: "(bytes \<times> endpoint) list"

text \<open>What a call reads from outside: clock readings for each of its callees, the secrets a
  rotation would draw, and the choice of \<open>random.sample\<close>.\<close>

record env =
  e_observe :: "nat \<Rightarrow> int"
  e_child :: "nat \<Rightarrow> nat \<Rightarrow> int"
  e_closest :: "nat \<Rightarrow> int"
  e_token :: "nat \<Rightarrow> int"
  e_store :: "nat \<Rightarrow> int"
  e_submit :: "nat \<Rightarrow> int"
  e_wall :: "nat \<Rightarrow> int"
  e_now :: int
  e_fresh_prev :: bytes
  e_fresh_cur :: bytes
  e_pick :: "bytes list \<Rightarrow> nat \<Rightarrow> bytes list"

type_synonym 'a run = "node \<Rightarrow> node \<times> (krpc_exn + 'a)"

definition return_run :: "'a \<Rightarrow> 'a run" where
  "return_run x = (\<lambda>s. (s, Inr x))"

definition lift_run :: "krpc_exn + 'a \<Rightarrow> 'a run" where
  "lift_run r = (\<lambda>s. (s, r))"

definition bind_run :: "'a run \<Rightarrow> ('a \<Rightarrow> 'b run) \<Rightarrow> 'b run" where
  "bind_run m f = (\<lambda>s. case m s of (s', Inl e) \<Rightarrow> (s', Inl e) | (s', Inr x) \<Rightarrow> f x s')"

definition py :: "pyexn + 'a \<Rightarrow> krpc_exn + 'a" where
  "py r = map_exn Py r"

section \<open>Messages\<close>

definition key :: "string \<Rightarrow> pkey" where
  "key k = KBytes (ascii k)"

definition base :: "node \<Rightarrow> bytes \<Rightarrow> string \<Rightarrow> pdict" where
  "base s tid y = [(key ''t'', PBytes tid), (key ''y'', PBytes (ascii y)), (key ''v'', PBytes (own_version s))]"

text \<open>The next free transaction identifier: at most 65536 tries.\<close>

fun next_tid_loop :: "nat \<Rightarrow> nat \<Rightarrow> (bytes \<times> 'q) list \<Rightarrow> nat \<times> (krpc_exn + bytes)" where
  "next_tid_loop 0 c pend = (c, Inl (DHTError ''transaction ID space exhausted''))"
| "next_tid_loop (Suc n) c pend =
     (let c' = (c + 1) mod 65536; tid = to_bytes 2 c' in
      if tid \<notin> set (map fst pend) then (c', Inr tid) else next_tid_loop n c' pend)"

definition next_tid :: "bytes run" where
  "next_tid = (\<lambda>s. let (c, r) = next_tid_loop 65536 (tx_counter s) (pending s)
                   in (s\<lparr>tx_counter := c\<rparr>, r))"

definition send :: "pdict \<Rightarrow> endpoint \<Rightarrow> unit run" where
  "send message ep =
     (\<lambda>s. if \<not> transport_up s then (s, Inl (DHTError ''UDP transport not ready''))
          else case encode (PDict message) of
                 Inl e \<Rightarrow> (s, Inl (Py e))
               | Inr payload \<Rightarrow>
                   if MAX_DHT_RESPONSE_BYTES < length payload
                   then (s, Inl (DHTError ''outbound DHT datagram exceeds 1024-byte protocol limit''))
                   else (s\<lparr>outbox := outbox s @ [(payload, ep)]\<rparr>, Inr ()))"

text \<open>\<open>_send_error\<close>; only a \<open>DHTError\<close> of \<open>_send\<close> is swallowed.\<close>

definition plain :: "string \<Rightarrow> ustr" where
  "plain s = map of_char s"

definition error_message :: "config \<Rightarrow> node \<Rightarrow> bytes \<Rightarrow> int \<Rightarrow> bytes \<Rightarrow> pdict" where
  "error_message cfg s tid code raw =
     base s tid ''e'' @ [(key ''e'', PList [PInt code, PBytes (take (nat (MAX_EVIDENCE_TEXT_LENGTH cfg)) raw)])]"

definition send_error :: "config \<Rightarrow> bytes \<Rightarrow> int \<Rightarrow> ustr \<Rightarrow> endpoint \<Rightarrow> unit run" where
  "send_error cfg tid code msg ep =
     (\<lambda>s. case utf8_encode msg of
            Inl x \<Rightarrow> (s, Inl (Py x))
          | Inr raw \<Rightarrow>
              (case send (error_message cfg s tid code raw) ep s of
                 (s', Inl (DHTError m)) \<Rightarrow> (s', Inr ())
               | (s', r) \<Rightarrow> (s', r)))"

section \<open>Checks of message fields\<close>

definition require_20 :: "pdict \<Rightarrow> string \<Rightarrow> krpc_exn + bytes" where
  "require_20 args k =
     (case dget args k of
        Some (PBytes v) \<Rightarrow> if length v = 20 then Inr v else Inl (Py (ValueError (k @ '' must be 20 bytes'')))
      | _ \<Rightarrow> Inl (Py (ValueError (k @ '' must be 20 bytes''))))"

definition is_pbytes :: "pyval \<Rightarrow> bool" where
  "is_pbytes v \<longleftrightarrow> (case v of PBytes b \<Rightarrow> True | _ \<Rightarrow> False)"

definition has_bytes :: "pdict \<Rightarrow> string \<Rightarrow> bool" where
  "has_bytes d k \<longleftrightarrow> (case dget d k of Some v \<Rightarrow> is_pbytes v | None \<Rightarrow> False)"

definition has_int :: "pdict \<Rightarrow> string \<Rightarrow> bool" where
  "has_int d k \<longleftrightarrow> (case dget d k of Some (PInt i) \<Rightarrow> True | _ \<Rightarrow> False)"

definition validate_want :: "pyval option \<Rightarrow> krpc_exn + unit" where
  "validate_want v =
     (case v of
        None \<Rightarrow> Inr ()
      | Some (PList items) \<Rightarrow>
          if list_all is_pbytes items then Inr ()
          else Inl (Py (ValueError ''want must be a list of byte strings''))
      | Some _ \<Rightarrow> Inl (Py (ValueError ''want must be a list of byte strings'')))"

text \<open>\<open>bool(v)\<close> of a decoded value.\<close>

definition truthy :: "pyval option \<Rightarrow> bool" where
  "truthy v \<longleftrightarrow>
     (case v of
        None \<Rightarrow> False | Some (PInt i) \<Rightarrow> i \<noteq> 0 | Some (PBytes b) \<Rightarrow> b \<noteq> []
      | Some (PList vs) \<Rightarrow> vs \<noteq> [] | Some (PDict d) \<Rightarrow> d \<noteq> [] | Some _ \<Rightarrow> True)"

definition version_of :: "pdict \<Rightarrow> bytes option" where
  "version_of msg = (case dget msg ''v'' of Some (PBytes b) \<Rightarrow> Some b | _ \<Rightarrow> None)"

definition response_matches_query :: "bytes \<Rightarrow> pdict \<Rightarrow> bool" where
  "response_matches_query query r \<longleftrightarrow>
     (let has_nodes = has_bytes r ''nodes'' \<or> has_bytes r ''nodes6'' in
      if query = ascii ''ping'' then True
      else if query = ascii ''find_node'' then has_nodes
      else if query = ascii ''get_peers'' then
        has_bytes r ''token''
        \<and> ((case dget r ''values'' of Some (PList vs) \<Rightarrow> list_all is_pbytes vs | _ \<Rightarrow> False) \<or> has_nodes)
      else if query = ascii ''sample_infohashes'' then
        has_int r ''interval'' \<and> has_int r ''num'' \<and> has_bytes r ''samples'' \<and> has_nodes
      else True)"

section \<open>Parts of the state\<close>

definition observe_run :: "config \<Rightarrow> (nat \<Rightarrow> int) \<Rightarrow> bytes \<Rightarrow> endpoint \<Rightarrow> bool \<Rightarrow> bool \<Rightarrow> bool \<Rightarrow>
    bytes option \<Rightarrow> contact option run" where
  "observe_run cfg clk nid ep direct incoming ro ver =
     (\<lambda>s. case observe cfg clk (routing s) nid (fst ep) (snd ep) direct incoming ro ver of
            Inl e \<Rightarrow> (s, Inl (Route e))
          | Inr (t, c) \<Rightarrow> (s\<lparr>routing := t\<rparr>, Inr c))"

text \<open>\<open>if endpoint_allowed(...): self.routing.observe(...)\<close>.\<close>

definition observe_allowed :: "config \<Rightarrow> (nat \<Rightarrow> int) \<Rightarrow> bytes \<Rightarrow> endpoint \<Rightarrow> bool \<Rightarrow> bool \<Rightarrow> bool \<Rightarrow>
    bytes option \<Rightarrow> unit run" where
  "observe_allowed cfg clk nid ep direct incoming ro ver =
     (\<lambda>s. if endpoint_allowed cfg (local_ips s) (fst ep) (snd ep)
          then bind_run (observe_run cfg clk nid ep direct incoming ro ver) (\<lambda>_. return_run ()) s
          else (s, Inr ()))"

definition submit_run :: "config \<Rightarrow> int \<Rightarrow> int \<Rightarrow> bytes \<Rightarrow> string \<Rightarrow> peer_hint option \<Rightarrow> unit run" where
  "submit_run cfg now wall k source hint =
     (\<lambda>s. (s\<lparr>candidates := fst (submit cfg now wall (candidates s) k source hint False)\<rparr>, Inr ()))"

text \<open>The submission of the sampled keys in \<open>_emit_response_evidence\<close>, for responses the node
  receives and for those it sends. Each \<open>submit\<close> has its own readings.\<close>

fun submit_keys :: "config \<Rightarrow> env \<Rightarrow> nat \<Rightarrow> bytes list \<Rightarrow> unit run" where
  "submit_keys cfg e j [] = return_run ()"
| "submit_keys cfg e j (k # ks) =
     bind_run (submit_run cfg (e_submit e j) (e_wall e j) k ''bep51'' None) (\<lambda>_. submit_keys cfg e (Suc j) ks)"

definition submit_samples :: "config \<Rightarrow> env \<Rightarrow> bytes \<Rightarrow> pdict \<Rightarrow> unit run" where
  "submit_samples cfg e query response =
     (case dget response ''samples'' of
        Some (PBytes samples) \<Rightarrow>
          if query = ascii ''sample_infohashes'' \<and> length samples mod 20 = 0
          then submit_keys cfg e 0 (chunks 20 samples) else return_run ()
      | _ \<Rightarrow> return_run ())"

section \<open>Answering queries\<close>

definition closest_run :: "config \<Rightarrow> env \<Rightarrow> node \<Rightarrow> bytes \<Rightarrow> krpc_exn + contact list" where
  "closest_run cfg e s target = py (closest cfg (e_closest e) (routing s) target DHT_K True)"

definition ct_endpoint :: "contact \<Rightarrow> endpoint" where
  "ct_endpoint c = (ct_ip c, ct_port c)"

definition compact_contact :: "contact \<Rightarrow> krpc_exn + bytes" where
  "compact_contact c = py (compact_node (node_id c) (ct_endpoint c))"

fun compact_all :: "contact list \<Rightarrow> krpc_exn + bytes" where
  "compact_all [] = Inr []"
| "compact_all (c # cs) = bind_r (compact_contact c) (\<lambda>b. bind_r (compact_all cs) (\<lambda>bs. Inr (b @ bs)))"

definition compact_closest :: "config \<Rightarrow> env \<Rightarrow> node \<Rightarrow> bytes \<Rightarrow> krpc_exn + bytes" where
  "compact_closest cfg e s target = bind_r (closest_run cfg e s target) compact_all"

text \<open>Whether a response still fits with the field added, in an envelope with the two-byte
  transaction identifier \<open>aa\<close>.\<close>

definition trial_fits :: "node \<Rightarrow> pdict \<Rightarrow> krpc_exn + bool" where
  "trial_fits s response =
     bind_r (py (encode (PDict (base s (ascii ''aa'') ''r'' @ [(key ''r'', PDict response)]))))
       (\<lambda>enc. Inr (length enc \<le> MAX_DHT_RESPONSE_BYTES))"

fun fill_values :: "config \<Rightarrow> node \<Rightarrow> pdict \<Rightarrow> endpoint list \<Rightarrow> pyval list \<Rightarrow> krpc_exn + pyval list" where
  "fill_values cfg s response [] values = Inr values"
| "fill_values cfg s response (p # ps) values =
     (if \<not> endpoint_allowed cfg (local_ips s) (fst p) (snd p) then fill_values cfg s response ps values
      else
        bind_r (py (compact_peer p)) (\<lambda>b.
        bind_r (trial_fits s (response @ [(key ''values'', PList (values @ [PBytes b]))])) (\<lambda>ok.
        if ok then fill_values cfg s response ps (values @ [PBytes b]) else Inr values)))"

fun fill_nodes :: "node \<Rightarrow> pdict \<Rightarrow> contact list \<Rightarrow> bytes \<Rightarrow> krpc_exn + bytes" where
  "fill_nodes s response [] nodes = Inr nodes"
| "fill_nodes s response (c # cs) nodes =
     bind_r (compact_contact c) (\<lambda>b.
     bind_r (trial_fits s (response @ [(key ''nodes'', PBytes (nodes @ b))])) (\<lambda>ok.
     if ok then fill_nodes s response cs (nodes @ b) else Inr nodes))"

definition issue_run :: "config \<Rightarrow> env \<Rightarrow> atext \<Rightarrow> bytes run" where
  "issue_run cfg e ip =
     (\<lambda>s. let (tm, r) = issue cfg (e_token e) (e_fresh_prev e) (e_fresh_cur e) (secrets s) ip
          in (s\<lparr>secrets := tm\<rparr>, py r))"

definition validate_run :: "config \<Rightarrow> env \<Rightarrow> atext \<Rightarrow> bytes \<Rightarrow> bool run" where
  "validate_run cfg e ip token =
     (\<lambda>s. let (tm, r) = validate cfg (e_token e) (e_fresh_prev e) (e_fresh_cur e) (secrets s) ip token
          in (s\<lparr>secrets := tm\<rparr>, py r))"

definition stored_peers :: "config \<Rightarrow> env \<Rightarrow> bytes \<Rightarrow> endpoint list run" where
  "stored_peers cfg e k =
     (\<lambda>s. let (st, ps) = Peer_Store.get cfg (e_store e 0) (peers_stored s) k
          in (s\<lparr>peers_stored := st\<rparr>, Inr ps))"

definition incoming_get_peers :: "config \<Rightarrow> env \<Rightarrow> pdict \<Rightarrow> endpoint \<Rightarrow> pdict run" where
  "incoming_get_peers cfg e args ep =
     bind_run (lift_run (require_20 args ''info_hash'')) (\<lambda>k.
     bind_run (lift_run (validate_want (dget args ''want''))) (\<lambda>_.
     bind_run (submit_run cfg (e_submit e 0) (e_wall e 0) k ''get_peers'' None) (\<lambda>_.
     bind_run (issue_run cfg e (fst ep)) (\<lambda>token.
     bind_run (stored_peers cfg e k) (\<lambda>ps.
     (\<lambda>s. let response = [(key ''id'', PBytes (own_id s)), (key ''token'', PBytes token)] in
          (s, if ps \<noteq> [] then
                bind_r (fill_values cfg s response ps []) (\<lambda>vs. Inr (response @ [(key ''values'', PList vs)]))
              else
                bind_r (closest_run cfg e s k) (\<lambda>cs.
                bind_r (fill_nodes s response cs []) (\<lambda>b. Inr (response @ [(key ''nodes'', PBytes b)]))))))))))"

definition store_peer :: "config \<Rightarrow> env \<Rightarrow> bytes \<Rightarrow> endpoint \<Rightarrow> unit run" where
  "store_peer cfg e k p =
     (\<lambda>s. case Peer_Store.add cfg (e_store e) (peers_stored s) k p of
            Inl x \<Rightarrow> (s, Inl (Py x))
          | Inr st \<Rightarrow> (s\<lparr>peers_stored := st\<rparr>, Inr ()))"

definition announce_port :: "pdict \<Rightarrow> endpoint \<Rightarrow> krpc_exn + int \<times> bool" where
  "announce_port args ep =
     (case dget args ''port'' of
        Some (PInt p) \<Rightarrow>
          if \<not> (1 \<le> p \<and> p \<le> 65535) then Inl (Py (ValueError ''invalid announce port''))
          else (case dget args ''implied_port'' of
                  None \<Rightarrow> Inr (p, False)
                | Some (PInt i) \<Rightarrow> Inr (if i \<noteq> 0 then snd ep else p, i \<noteq> 0)
                | Some _ \<Rightarrow> Inl (Py (ValueError ''invalid implied_port'')))
      | _ \<Rightarrow> Inl (Py (ValueError ''invalid announce port'')))"

definition incoming_announce_peer :: "config \<Rightarrow> env \<Rightarrow> pdict \<Rightarrow> endpoint \<Rightarrow> pdict run" where
  "incoming_announce_peer cfg e args ep =
     bind_run (lift_run (require_20 args ''info_hash'')) (\<lambda>k.
     bind_run (lift_run (announce_port args ep)) (\<lambda>(port, implied).
     bind_run (case dget args ''token'' of
                 Some (PBytes token) \<Rightarrow> validate_run cfg e (fst ep) token
               | _ \<Rightarrow> return_run False) (\<lambda>valid.
     if \<not> valid then lift_run (Inl (KRPC 203 (plain ''Bad token'')))
     else
       bind_run (\<lambda>s. if endpoint_allowed cfg (local_ips s) (fst ep) port
                     then bind_run (store_peer cfg e k (fst ep, port)) (\<lambda>_.
                            submit_run cfg (e_submit e 0) (e_wall e 0) k ''announce_peer''
                              (Some (fst ep, port, implied))) s
                     else (s, Inr ()))
         (\<lambda>_ s. (s, Inr [(key ''id'', PBytes (own_id s))])))))"

text \<open>The cached sample: \<open>random.sample\<close> draws only when there are more keys than asked for;
  \<open>keys[:count]\<close> with a negative count drops from the end.\<close>

definition sampled_keys :: "config \<Rightarrow> env \<Rightarrow> bytes list \<Rightarrow> bytes list" where
  "sampled_keys cfg e ks =
     (let count = min (BEP51_MAX_SAMPLES_PER_RESPONSE cfg) (int (length ks)) in
      if count \<noteq> 0 \<and> count < int (length ks) then e_pick e ks (nat count)
      else take (nat count) ks)"

definition refresh_samples :: "config \<Rightarrow> env \<Rightarrow> bytes list \<Rightarrow> bytes list run" where
  "refresh_samples cfg e ks =
     (\<lambda>s. let interval_ns = nanos (of_int (DHT_BEP51_RESPONSE_INTERVAL cfg));
              fresh = sampled_keys cfg e ks;
              cached = (case sample_cache s of
                          Some (due, old) \<Rightarrow> if due \<le> e_now e then None else Some old
                        | None \<Rightarrow> None)
          in case cached of
               Some old \<Rightarrow> (s, Inr old)
             | None \<Rightarrow>
                 (s\<lparr>sample_cache := Some (if interval_ns \<noteq> 0 then e_now e + interval_ns else e_now e, fresh)\<rparr>,
                  Inr fresh))"

text \<open>The last loop: samples are dropped from the end while the response is too large.\<close>

function trim_samples :: "node \<Rightarrow> (bytes list \<Rightarrow> pdict) \<Rightarrow> bytes list \<Rightarrow> krpc_exn + pdict" where
  "trim_samples s response samples =
     bind_r (trial_fits s (response samples)) (\<lambda>ok.
       if \<not> ok \<and> samples \<noteq> [] then trim_samples s response (butlast samples)
       else Inr (response samples))"
  by pat_completeness auto
termination
  by (relation "measure (\<lambda>(s, response, samples). length samples)") auto

declare trim_samples.simps [simp del]

definition incoming_sample_infohashes :: "config \<Rightarrow> env \<Rightarrow> pdict \<Rightarrow> pdict run" where
  "incoming_sample_infohashes cfg e args =
     bind_run (lift_run (require_20 args ''target'')) (\<lambda>target.
     bind_run (\<lambda>s. let (st, ks) = stored_keys cfg (e_store e 0) (peers_stored s)
                   in (s\<lparr>peers_stored := st\<rparr>, Inr ks)) (\<lambda>ks.
     bind_run (refresh_samples cfg e ks) (\<lambda>samples.
     (\<lambda>s. let head = (\<lambda>sm. [(key ''id'', PBytes (own_id s)),
                             (key ''interval'', PInt (DHT_BEP51_RESPONSE_INTERVAL cfg)),
                             (key ''num'', PInt (int (length ks))), (key ''samples'', PBytes (concat sm))])
          in (s, bind_r (closest_run cfg e s target) (\<lambda>cs.
                 bind_r (fill_nodes s (head samples) cs []) (\<lambda>nodes.
                 trim_samples s (\<lambda>sm. head sm @ [(key ''nodes'', PBytes nodes)]) samples)))))))"

text \<open>The dispatch of \<open>_handle_query\<close>: the response, or \<open>None\<close> when the method is unknown.\<close>

definition dispatch :: "config \<Rightarrow> env \<Rightarrow> bytes \<Rightarrow> pdict \<Rightarrow> endpoint \<Rightarrow> pdict option run" where
  "dispatch cfg e m args ep =
     (if m = ascii ''ping'' then (\<lambda>s. (s, Inr (Some [(key ''id'', PBytes (own_id s))])))
      else if m = ascii ''find_node'' then
        bind_run (lift_run (require_20 args ''target'')) (\<lambda>target s.
          (s, bind_r (compact_closest cfg e s target) (\<lambda>b.
              Inr (Some [(key ''id'', PBytes (own_id s)), (key ''nodes'', PBytes b)]))))
      else if m = ascii ''get_peers'' then bind_run (incoming_get_peers cfg e args ep) (\<lambda>r. return_run (Some r))
      else if m = ascii ''announce_peer'' then bind_run (incoming_announce_peer cfg e args ep) (\<lambda>r. return_run (Some r))
      else if m = ascii ''sample_infohashes'' \<and> DHT_BEP51_ENABLED cfg
      then bind_run (incoming_sample_infohashes cfg e args) (\<lambda>r. return_run (Some r))
      else return_run None)"

definition respond :: "config \<Rightarrow> env \<Rightarrow> bytes \<Rightarrow> bytes \<Rightarrow> pdict \<Rightarrow> endpoint \<Rightarrow> unit run" where
  "respond cfg e tid m response ep =
     (\<lambda>s. let message = base s tid ''r'' @ [(key ''r'', PDict response)] in
          bind_run (lift_run (py (encode (PDict message)))) (\<lambda>enc.
            if MAX_DHT_RESPONSE_BYTES < length enc then lift_run (Inl (KRPC 202 (plain ''Response too large'')))
            else bind_run (send message ep) (\<lambda>_. submit_samples cfg e m response)) s)"

text \<open>The body of the \<open>try\<close> statement and its two handlers.\<close>

definition try_query :: "config \<Rightarrow> env \<Rightarrow> bytes \<Rightarrow> bytes \<Rightarrow> pdict \<Rightarrow> endpoint \<Rightarrow> unit run" where
  "try_query cfg e tid m args ep =
     bind_run (dispatch cfg e m args ep) (\<lambda>r.
       case r of
         None \<Rightarrow> send_error cfg tid 204 (plain ''Method Unknown'') ep
       | Some response \<Rightarrow> respond cfg e tid m response ep)"

definition catch_errors :: "config \<Rightarrow> bytes \<Rightarrow> endpoint \<Rightarrow> unit run \<Rightarrow> unit run" where
  "catch_errors cfg tid ep m =
     (\<lambda>s. case m s of
            (s', Inl (Py (ValueError t))) \<Rightarrow> send_error cfg tid 203 (plain t) ep s'
          | (s', Inl (Py (TypeError t))) \<Rightarrow> send_error cfg tid 203 (plain t) ep s'
          | (s', Inl (KRPC code t)) \<Rightarrow> send_error cfg tid code t ep s'
          | (s', r) \<Rightarrow> (s', r))"

definition handle_query :: "config \<Rightarrow> env \<Rightarrow> pdict \<Rightarrow> bytes \<Rightarrow> endpoint \<Rightarrow> unit run" where
  "handle_query cfg e msg tid ep =
     (case (dget msg ''q'', dget msg ''a'') of
        (Some (PBytes m), Some (PDict args)) \<Rightarrow>
          (case dget args ''id'' of
             Some (PBytes remote_id) \<Rightarrow>
               if length remote_id \<noteq> 20 then send_error cfg tid 203 (plain ''Invalid node ID'') ep
               else
                 bind_run (observe_allowed cfg (e_observe e) remote_id ep False True (truthy (dget msg ''ro''))
                             (version_of msg))
                   (\<lambda>_. catch_errors cfg tid ep (try_query cfg e tid m args ep))
           | _ \<Rightarrow> send_error cfg tid 203 (plain ''Invalid node ID'') ep)
      | _ \<Rightarrow> send_error cfg tid 203 (plain ''Protocol Error'') ep)"

section \<open>Accepting responses\<close>

text \<open>The nodes of a response: those of an allowed endpoint are observed as hearsay. IPv6 nodes
  are only recorded.\<close>

fun observe_nodes :: "config \<Rightarrow> env \<Rightarrow> nat \<Rightarrow> (bytes \<times> atext \<times> int) list \<Rightarrow> unit run" where
  "observe_nodes cfg e j [] = return_run ()"
| "observe_nodes cfg e j ((nid, ip, port) # ns) =
     bind_run (observe_allowed cfg (e_child e j) nid (ip, port) False False False None) (\<lambda>_.
       observe_nodes cfg e (Suc j) ns)"

definition parse_response_contacts :: "config \<Rightarrow> env \<Rightarrow> pdict \<Rightarrow> unit run" where
  "parse_response_contacts cfg e response =
     (case dget response ''nodes'' of
        Some (PBytes raw) \<Rightarrow>
          (case parse_compact_nodes raw 4 of
             Inl (ValueError t) \<Rightarrow> return_run ()
           | Inl x \<Rightarrow> lift_run (Inl (Py x))
           | Inr ns \<Rightarrow> observe_nodes cfg e 0 ns)
      | _ \<Rightarrow> return_run ())"

definition resolve :: "bytes \<Rightarrow> krpc_exn + pdict \<Rightarrow> unit run" where
  "resolve tid r =
     (\<lambda>s. (s\<lparr>pending := map (\<lambda>(t, p). if t = tid \<and> pq_future p = None then (t, p\<lparr>pq_future := Some r\<rparr>) else (t, p))
                          (pending s)\<rparr>, Inr ()))"

definition safe_text :: "config \<Rightarrow> bytes \<Rightarrow> ustr" where
  "safe_text cfg raw = take (nat (MAX_EVIDENCE_TEXT_LENGTH cfg)) (utf8_decode raw)"

definition remote_error :: "config \<Rightarrow> pdict \<Rightarrow> krpc_exn" where
  "remote_error cfg msg =
     (case dget msg ''e'' of
        Some (PList (PInt code # v # rest)) \<Rightarrow>
          KRPC code (case v of PBytes t \<Rightarrow> safe_text cfg t | _ \<Rightarrow> plain ''remote error'')
      | _ \<Rightarrow> KRPC 201 (plain ''Malformed remote error''))"

definition accept_response :: "config \<Rightarrow> env \<Rightarrow> pdict \<Rightarrow> bytes \<Rightarrow> pending_query \<Rightarrow> pdict \<Rightarrow> bytes \<Rightarrow>
    endpoint \<Rightarrow> unit run" where
  "accept_response cfg e msg tid p response remote_id ep =
     bind_run (observe_allowed cfg (e_observe e) remote_id ep True False False (version_of msg)) (\<lambda>_.
     bind_run (parse_response_contacts cfg e response) (\<lambda>_.
     bind_run (submit_samples cfg e (pq_query p) response) (\<lambda>_.
     resolve tid (Inr response))))"

definition handle_response :: "config \<Rightarrow> env \<Rightarrow> pdict \<Rightarrow> bytes \<Rightarrow> bool \<Rightarrow> endpoint \<Rightarrow> unit run" where
  "handle_response cfg e msg tid is_error ep =
     (\<lambda>s. case map_of (pending s) tid of
            None \<Rightarrow> (s, Inr ())
          | Some p \<Rightarrow>
              if ep \<noteq> pq_endpoint p then (s, Inr ())
              else if is_error then resolve tid (Inl (remote_error cfg msg)) s
              else
                (case dget msg ''r'' of
                   Some (PDict response) \<Rightarrow>
                     (case dget response ''id'' of
                        Some (PBytes remote_id) \<Rightarrow>
                          if length remote_id \<noteq> 20 then (s, Inr ())
                          else if pq_expected p \<noteq> None \<and> Some remote_id \<noteq> pq_expected p then (s, Inr ())
                          else if \<not> response_matches_query (pq_query p) response then (s, Inr ())
                          else accept_response cfg e msg tid p response remote_id ep s
                      | _ \<Rightarrow> (s, Inr ()))
                 | _ \<Rightarrow> (s, Inr ())))"

section \<open>Datagrams\<close>

definition krpc_limits :: "config \<Rightarrow> decode_limits" where
  "krpc_limits cfg =
     \<lparr>max_depth = nat (MAX_BENCODE_DEPTH cfg), max_items = nat (MAX_BENCODE_ITEMS cfg),
      max_string_length = nat (min (MAX_BENCODE_STRING_LENGTH cfg) (DHT_RECEIVE_MAX_BYTES cfg))\<rparr>"

text \<open>The envelope: a dictionary with a non-empty transaction identifier and a known type. Every
  way it can be malformed is caught (the test of an unhashable type by \<open>TypeError\<close>) and only
  recorded.\<close>

definition envelope :: "config \<Rightarrow> bytes \<Rightarrow> (pdict \<times> bytes \<times> bytes) option" where
  "envelope cfg data =
     (case decode (krpc_limits cfg) True data of
        Inr (PDict msg) \<Rightarrow>
          (case (dget msg ''t'', dget msg ''y'') of
             (Some (PBytes tid), Some (PBytes y)) \<Rightarrow>
               if tid \<noteq> [] \<and> (y = ascii ''q'' \<or> y = ascii ''r'' \<or> y = ascii ''e'') then Some (msg, tid, y) else None
           | _ \<Rightarrow> None)
      | _ \<Rightarrow> None)"

definition handle_datagram :: "config \<Rightarrow> env \<Rightarrow> bytes \<Rightarrow> endpoint \<Rightarrow> unit run" where
  "handle_datagram cfg e data ep =
     (case envelope cfg data of
        None \<Rightarrow> return_run ()
      | Some (msg, tid, y) \<Rightarrow>
          if y = ascii ''q'' then
            (if DHT_READ_ONLY cfg then return_run () else handle_query cfg e msg tid ep)
          else handle_response cfg e msg tid (y = ascii ''e'') ep)"

text \<open>\<open>DHTProtocol.datagram_received\<close>.\<close>

definition datagram_received :: "config \<Rightarrow> env \<Rightarrow> bytes \<Rightarrow> endpoint \<Rightarrow> unit run" where
  "datagram_received cfg e data ep =
     (if DHT_RECEIVE_MAX_BYTES cfg < int (length data) then return_run ()
      else handle_datagram cfg e data ep)"

section \<open>Sending queries\<close>

text \<open>\<open>query\<close> up to the send, once a rate token and a pending slot are there: it returns the
  transaction identifier. \<open>None\<close> as result of a slot is the wait for one.\<close>

definition query_allowed :: "config \<Rightarrow> endpoint \<Rightarrow> unit run" where
  "query_allowed cfg ep =
     (\<lambda>s. if closing s then (s, Inl (DHTError ''DHT shutting down''))
          else if \<not> endpoint_allowed cfg (local_ips s) (fst ep) (snd ep)
          then (s, Inl (DHTError ''endpoint policy rejected active DHT endpoint''))
          else (s, Inr ()))"

definition query_priority :: "bytes \<Rightarrow> nat" where
  "query_priority m = (if m = ascii ''sample_infohashes'' then 2 else if m = ascii ''get_peers'' then 1 else 0)"

definition query_message :: "config \<Rightarrow> node \<Rightarrow> bytes \<Rightarrow> bytes \<Rightarrow> pdict \<Rightarrow> pdict" where
  "query_message cfg s tid m args =
     base s tid ''q'' @ [(key ''q'', PBytes m), (key ''a'', PDict ((key ''id'', PBytes (own_id s)) # args))]
       @ (if DHT_READ_ONLY cfg then [(key ''ro'', PInt 1)] else [])"

definition end_query :: "bytes \<Rightarrow> unit run" where
  "end_query tid =
     (\<lambda>s. (s\<lparr>pending := filter (\<lambda>(t, p). t \<noteq> tid) (pending s), free_slots := free_slots s + 1\<rparr>, Inr ()))"

definition begin_query :: "config \<Rightarrow> endpoint \<Rightarrow> bytes \<Rightarrow> pdict \<Rightarrow> bytes option \<Rightarrow> bytes run" where
  "begin_query cfg ep m args expected =
     (\<lambda>s0. bind_run next_tid (\<lambda>tid s.
        let p = \<lparr>pq_query = m, pq_endpoint = ep, pq_expected = expected, pq_future = None\<rparr>;
            s1 = s\<lparr>pending := pending s @ [(tid, p)]\<rparr>
        in case send (query_message cfg s tid m args) ep s1 of
             (s2, Inl x) \<Rightarrow> (fst (end_query tid s2), Inl x)
           | (s2, Inr _) \<Rightarrow> (s2, Inr tid)) (s0\<lparr>free_slots := free_slots s0 - 1\<rparr>))"

text \<open>The end of \<open>query\<close>: the response, the error it was resolved with, or a time-out, which
  counts as a failure of the expected node.\<close>

definition finish_query :: "config \<Rightarrow> (nat \<Rightarrow> int) \<Rightarrow> bytes \<Rightarrow> pdict option run" where
  "finish_query cfg clk tid =
     (\<lambda>s. case map_of (pending s) tid of
            None \<Rightarrow> (s, Inr None)
          | Some p \<Rightarrow>
              (case pq_future p of
                 Some (Inr response) \<Rightarrow> (fst (end_query tid s), Inr (Some response))
               | Some (Inl x) \<Rightarrow> (fst (end_query tid s), Inl x)
               | None \<Rightarrow>
                   (case pq_expected p of
                      Some nid \<Rightarrow>
                        if nid = [] then (fst (end_query tid s), Inr None)
                        else
                        (case mark_failure cfg clk (routing s) nid of
                           Inl x \<Rightarrow> (fst (end_query tid s), Inl (Route x))
                         | Inr t \<Rightarrow> (fst (end_query tid (s\<lparr>routing := t\<rparr>)), Inr None))
                    | None \<Rightarrow> (fst (end_query tid s), Inr None))))"

definition close_ingress :: "unit run" where
  "close_ingress =
     (\<lambda>s. (s\<lparr>closing := True, transport_up := False,
             pending := map (\<lambda>(t, p). (t, if pq_future p = None
                                          then p\<lparr>pq_future := Some (Inl (DHTError ''DHT shutdown''))\<rparr> else p)) (pending s)\<rparr>,
           Inr ()))"

end
