(* ===== verification/Krpc_Correct.thy ===== *)
theory Krpc_Correct
  imports Krpc Routing_Correct Bencode_Correct
begin

text \<open>
  What the DHT node guarantees whatever datagrams arrive: no datagram raises, at most one
  reply goes out and only to the sender, responses are believed only when they answer a
  pending query from its endpoint, peers are stored only for their own address and against a
  valid token, and transaction identifiers and pending slots are never lost.
\<close>

section \<open>Reasoning about methods\<close>

text \<open>\<open>keeps f m\<close>: the method leaves the part \<open>f\<close> of the state alone. \<open>safe I E m\<close>: from a state
  that satisfies \<open>I\<close> it returns in one, and raises only exceptions in \<open>E\<close>.\<close>

definition keeps :: "(node \<Rightarrow> 'b) \<Rightarrow> 'a run \<Rightarrow> bool" where
  "keeps f m \<longleftrightarrow> (\<forall>s. f (fst (m s)) = f s)"

definition safe :: "(node \<Rightarrow> bool) \<Rightarrow> (krpc_exn \<Rightarrow> bool) \<Rightarrow> 'a run \<Rightarrow> bool" where
  "safe I E m \<longleftrightarrow> (\<forall>s. I s \<longrightarrow> I (fst (m s)) \<and> (\<forall>x. snd (m s) = Inl x \<longrightarrow> E x))"

named_theorems keeps_rules and safe_rules

lemma keepsI: "(\<And>s. f (fst (m s)) = f s) \<Longrightarrow> keeps f m"
  by (simp add: keeps_def)

lemma safeI: "(\<And>s. I s \<Longrightarrow> I (fst (m s))) \<Longrightarrow> (\<And>s x. I s \<Longrightarrow> snd (m s) = Inl x \<Longrightarrow> E x) \<Longrightarrow> safe I E m"
  by (simp add: safe_def)

lemma safeD: "safe I E m \<Longrightarrow> I s \<Longrightarrow> I (fst (m s))"
  by (simp add: safe_def)

lemma safe_exn: "safe I E m \<Longrightarrow> I s \<Longrightarrow> snd (m s) = Inl x \<Longrightarrow> E x"
  by (simp add: safe_def)

lemma keeps_return [keeps_rules]: "keeps f (return_run x)"
  by (simp add: keeps_def return_run_def)

lemma keeps_lift [keeps_rules]: "keeps f (lift_run r)"
  by (simp add: keeps_def lift_run_def)

lemma keeps_bind [keeps_rules]: "keeps f m \<Longrightarrow> (\<And>x. keeps f (g x)) \<Longrightarrow> keeps f (bind_run m g)"
  unfolding keeps_def bind_run_def by (auto split: prod.splits sum.splits) (metis fst_conv)+

lemma keeps_pure [keeps_rules]: "keeps f (\<lambda>s. (s, h s))"
  by (simp add: keeps_def)

lemma keeps_if [keeps_rules]: "keeps f m \<Longrightarrow> keeps f m' \<Longrightarrow> keeps f (if b then m else m')"
  by simp

lemma safe_return [safe_rules]: "safe I E (return_run x)"
  by (simp add: safe_def return_run_def)

lemma safe_lift [safe_rules]: "(\<And>x. r = Inl x \<Longrightarrow> E x) \<Longrightarrow> safe I E (lift_run r)"
  by (simp add: safe_def lift_run_def)

lemma safe_bind [safe_rules]:
  assumes m: "safe I E m" and g: "\<And>x. safe I E (g x)"
  shows "safe I E (bind_run m g)"
proof -
  have "I (fst (bind_run m g s)) \<and> (\<forall>x. snd (bind_run m g s) = Inl x \<longrightarrow> E x)" if "I s" for s
  proof -
    obtain s1 r where r: "m s = (s1, r)" by fastforce
    with m that have "I s1" "\<forall>x. r = Inl x \<longrightarrow> E x" unfolding safe_def by (metis fst_conv snd_conv)+
    with r g show ?thesis by (cases r) (auto simp: bind_run_def safe_def)
  qed
  then show ?thesis by (simp add: safe_def)
qed

lemma safe_pure [safe_rules]: "(\<And>s x. I s \<Longrightarrow> h s = Inl x \<Longrightarrow> E x) \<Longrightarrow> safe I E (\<lambda>s. (s, h s))"
  by (simp add: safe_def)

section \<open>Which exceptions\<close>

text \<open>What the \<open>try\<close> statement of \<open>_handle_query\<close> catches.\<close>

definition caught :: "krpc_exn \<Rightarrow> bool" where
  "caught x \<longleftrightarrow> (\<exists>t. x = Py (ValueError t)) \<or> (\<exists>t. x = Py (TypeError t)) \<or> (\<exists>c t. x = KRPC c t \<and> (c = 202 \<or> c = 203) \<and> list_all scalar_value t)"

definition value_error :: "pyexn \<Rightarrow> bool" where
  "value_error x \<longleftrightarrow> (\<exists>t. x = ValueError t) \<or> (\<exists>t. x = TypeError t)"

lemma caught_Py: "value_error x \<Longrightarrow> caught (Py x)"
  by (auto simp: value_error_def caught_def)

lemma py_Inl: "py r = Inl x \<longleftrightarrow> (\<exists>y. r = Inl y \<and> x = Py y)"
  by (cases r) (auto simp: py_def)

lemma py_Inr [simp]: "py r = Inr x \<longleftrightarrow> r = Inr x"
  by (simp add: py_def)

lemma join_results_error: "join_results rs = Inl x \<Longrightarrow> Inl x \<in> set rs"
  by (induction rs) (auto simp: bind_r_Inl_iff)

lemma utf8_encode_error: "utf8_encode s = Inl x \<Longrightarrow> value_error x"
  by (induction s) (auto simp: bind_r_Inl_iff value_error_def split: option.splits)

lemma encode_keys_error: "encode_keys kxs = Inl x \<Longrightarrow> value_error x"
proof (induction kxs)
  case (Cons p kxs)
  then show ?case
    by (cases p; cases "fst p") (auto simp: bind_r_Inl_iff value_error_def dest!: utf8_encode_error)
qed simp

lemma encode_keys_values: "encode_keys kxs = Inr ps \<Longrightarrow> map snd ps = map snd kxs"
  by (induction kxs arbitrary: ps) (auto simp: bind_r_Inr_iff)

lemma write_pairs_error:
  "write_pairs prev ps = Inl x \<Longrightarrow> value_error x \<or> Inl x \<in> snd ` set ps"
  by (induction prev ps rule: write_pairs.induct) (auto simp: bind_r_Inl_iff value_error_def image_iff split: if_splits)

lemma encode_error: "encode v = Inl x \<Longrightarrow> value_error x"
proof (induction v arbitrary: x rule: encode.induct)
  case (5 s)
  then show ?case by (auto simp: bind_r_Inl_iff dest: utf8_encode_error)
next
  case (6 vs)
  then show ?case by (auto simp: bind_r_Inl_iff dest!: join_results_error)
next
  case (7 vs)
  then show ?case by (auto simp: bind_r_Inl_iff dest!: join_results_error)
next
  case (8 d)
  from "8.prems" consider "encode_keys (map (\<lambda>(k, v). (k, encode v)) d) = Inl x"
    | ps where "encode_keys (map (\<lambda>(k, v). (k, encode v)) d) = Inr ps" "write_pairs None (sort_key fst ps) = Inl x"
    by (auto simp: bind_r_Inl_iff)
  then show ?case
  proof cases
    case 1
    then show ?thesis by (rule encode_keys_error)
  next
    case 2
    from write_pairs_error [OF 2(2)] show ?thesis
    proof
      assume "Inl x \<in> snd ` set (sort_key fst ps)"
      then have "Inl x \<in> set (map snd ps)" by simp
      then have "Inl x \<in> (\<lambda>(k, v). encode v) ` set d"
        unfolding encode_keys_values [OF 2(1)] by force
      then obtain k v where "(k, v) \<in> set d" "encode v = Inl x" by auto
      then show ?thesis using "8.IH" [of "(k, v)" k v] by simp
    qed
  qed
qed (auto simp: encode_int_def value_error_def split: if_splits)

declare encode.simps [simp del]

lemma encode_caught: "py (encode v) = Inl x \<Longrightarrow> caught x"
  by (auto simp: py_Inl intro: caught_Py encode_error)


section \<open>What the parts raise\<close>

lemma compact_peer_error: "compact_peer p = Inl x \<Longrightarrow> value_error x"
  by (auto simp: compact_peer_def value_error_def split: prod.splits option.splits if_splits)

lemma compact_contact_caught: "compact_contact c = Inl x \<Longrightarrow> caught x"
  by (auto simp: compact_contact_def py_Inl compact_node_def bind_r_Inl_iff value_error_def
      intro!: caught_Py dest!: compact_peer_error split: if_splits)

lemma compact_all_caught: "compact_all cs = Inl x \<Longrightarrow> caught x"
  by (induction cs) (auto simp: bind_r_Inl_iff dest: compact_contact_caught)

lemma closest_caught: "closest_run cfg e s target = Inl x \<Longrightarrow> caught x"
  by (auto simp: closest_run_def py_Inl closest_def Let_def value_error_def intro!: caught_Py split: if_splits)

lemma trial_caught: "trial_fits s r = Inl x \<Longrightarrow> caught x"
  by (auto simp: trial_fits_def bind_r_Inl_iff dest: encode_caught)

lemma fill_values_caught: "fill_values cfg s r ps vs = Inl x \<Longrightarrow> caught x"
proof (induction cfg s r ps vs rule: fill_values.induct)
  case (2 cfg s r p ps vs)
  then show ?case
    by (auto simp: bind_r_Inl_iff py_Inl intro!: caught_Py dest: compact_peer_error trial_caught split: if_splits)
qed simp

lemma fill_nodes_caught: "fill_nodes s r cs nodes = Inl x \<Longrightarrow> caught x"
proof (induction s r cs nodes rule: fill_nodes.induct)
  case (2 s r c cs nodes)
  then show ?case
    by (auto simp: bind_r_Inl_iff dest: compact_contact_caught trial_caught split: if_splits)
qed simp

lemma trim_samples_caught: "trim_samples s r sm = Inl x \<Longrightarrow> caught x"
proof (induction s r sm rule: trim_samples.induct)
  case (1 s r sm)
  then show ?case
    by (auto simp: trim_samples.simps [of s r sm] bind_r_Inl_iff dest: trial_caught split: if_splits)
qed

lemma require_20_caught: "require_20 args k = Inl x \<Longrightarrow> caught x"
  by (auto simp: require_20_def caught_def split: option.splits pyval.splits if_splits)

lemma want_caught: "validate_want v = Inl x \<Longrightarrow> caught x"
  by (auto simp: validate_want_def caught_def split: option.splits pyval.splits if_splits)

lemma announce_port_caught: "announce_port args ep = Inl x \<Longrightarrow> caught x"
  by (auto simp: announce_port_def caught_def split: option.splits pyval.splits if_splits)

lemma derive_error: "derive sec ip = Inl x \<Longrightarrow> value_error x"
  by (auto simp: derive_def value_error_def split: option.splits)

lemmas caught_lemmas = compact_contact_caught compact_all_caught closest_caught trial_caught fill_values_caught
  fill_nodes_caught trim_samples_caught require_20_caught want_caught announce_port_caught encode_caught

section \<open>The node's invariant\<close>

definition node_config :: "config \<Rightarrow> bool" where
  "node_config cfg \<longleftrightarrow> 0 < DHT_ROUTING_BAD_AFTER_FAILURES cfg \<and> store_limits cfg
     \<and> 0 < nanos (DHT_TOKEN_ROTATION_INTERVAL cfg)"

definition node_ok :: "config \<Rightarrow> node \<Rightarrow> bool" where
  "node_ok cfg s \<longleftrightarrow> node_config cfg \<and> table_wf cfg (routing s) \<and> local_node_id (routing s) = own_id s
     \<and> store_ok cfg (peers_stored s) \<and> tm_ok cfg (secrets s) \<and> transport_up s"

lemma observe_run_safe:
  "safe (node_ok cfg) (\<lambda>_. False) (observe_run cfg clk nid ep d i ro ver)"
proof (rule safeI)
  fix s assume ok: "node_ok cfg s"
  then have "table_wf cfg (routing s)" "0 < DHT_ROUTING_BAD_AFTER_FAILURES cfg"
    by (simp_all add: node_ok_def node_config_def)
  from observe_spec [OF this, of clk nid "fst ep" "snd ep" d i ro ver] obtain t r where
    o: "observe cfg clk (routing s) nid (fst ep) (snd ep) d i ro ver = Inr (t, r)"
    "table_wf cfg t" "local_node_id t = local_node_id (routing s)"
    by blast
  then show "node_ok cfg (fst (observe_run cfg clk nid ep d i ro ver s))"
    using ok by (simp add: observe_run_def node_ok_def)
  fix x assume "snd (observe_run cfg clk nid ep d i ro ver s) = Inl x"
  with o show False by (simp add: observe_run_def)
qed

lemma safe_mono: "safe I E m \<Longrightarrow> (\<And>x. E x \<Longrightarrow> E' x) \<Longrightarrow> safe I E' m"
  by (auto simp: safe_def)

lemma observe_allowed_safe [safe_rules]:
  "safe (node_ok cfg) E (observe_allowed cfg clk nid ep d i ro ver)"
proof -
  have "safe (node_ok cfg) E (bind_run (observe_run cfg clk nid ep d i ro ver) (\<lambda>_. return_run ()))"
    by (intro safe_rules) (rule safe_mono [OF observe_run_safe], simp)
  then show ?thesis by (simp add: safe_def observe_allowed_def)
qed

lemma node_ok_frame [simp]:
  "node_ok cfg (s\<lparr>candidates := c\<rparr>) = node_ok cfg s"
  "node_ok cfg (s\<lparr>sample_cache := sc\<rparr>) = node_ok cfg s"
  "node_ok cfg (s\<lparr>outbox := ob\<rparr>) = node_ok cfg s"
  "node_ok cfg (s\<lparr>pending := pn\<rparr>) = node_ok cfg s"
  by (simp_all add: node_ok_def)

lemma submit_run_safe [safe_rules]: "safe (node_ok cfg) E (submit_run cfg now wall k source hint)"
  by (simp add: safe_def submit_run_def)

lemma submit_keys_safe [safe_rules]: "safe (node_ok cfg) E (submit_keys cfg e j ks)"
  by (induction ks arbitrary: j) (auto intro!: safe_rules)

lemma submit_samples_safe [safe_rules]: "safe (node_ok cfg) E (submit_samples cfg e q r)"
  by (auto simp: submit_samples_def intro!: safe_rules split: option.splits pyval.splits)

lemma rotate_tm_ok:
  assumes "tm_ok cfg tm"
  shows "\<exists>tm'. rotate_if_due cfg now fp fc tm = Inr tm' \<and> tm_ok cfg tm'"
proof -
  from assms have "0 < nanos (DHT_TOKEN_ROTATION_INTERVAL cfg)" by (simp add: tm_ok_def)
  from rotate_Inr [OF this] obtain tm' where "rotate_if_due cfg now fp fc tm = Inr tm'" by blast
  with rotate_ok [OF assms this] show ?thesis by blast
qed

lemma issue_run_safe: "safe (node_ok cfg) caught (issue_run cfg e ip)"
proof (rule safeI)
  fix s assume ok: "node_ok cfg s"
  then have "tm_ok cfg (secrets s)" by (simp add: node_ok_def)
  from rotate_tm_ok [OF this] obtain tm where
    tm: "rotate_if_due cfg (e_token e 0) (e_fresh_prev e) (e_fresh_cur e) (secrets s) = Inr tm" "tm_ok cfg tm" by blast
  then show "node_ok cfg (fst (issue_run cfg e ip s))"
    using ok by (simp add: issue_run_def issue_def node_ok_def)
  fix x assume "snd (issue_run cfg e ip s) = Inl x"
  with tm show "caught x"
    by (auto simp: issue_run_def issue_def py_Inl intro!: caught_Py dest: derive_error)
qed

lemma validate_run_safe: "safe (node_ok cfg) caught (validate_run cfg e ip token)"
proof (rule safeI)
  fix s assume ok: "node_ok cfg s"
  then have "tm_ok cfg (secrets s)" by (simp add: node_ok_def)
  from rotate_tm_ok [OF this] obtain tm where
    tm: "rotate_if_due cfg (e_token e 0) (e_fresh_prev e) (e_fresh_cur e) (secrets s) = Inr tm" "tm_ok cfg tm" by blast
  then show "node_ok cfg (fst (validate_run cfg e ip token s))"
    using ok by (simp add: validate_run_def validate_def node_ok_def)
  fix x assume "snd (validate_run cfg e ip token s) = Inl x"
  with tm show "caught x"
    by (auto simp: validate_run_def validate_def py_Inl bind_r_Inl_iff Let_def
        intro!: caught_Py dest: derive_error split: if_splits)
qed

lemma stored_peers_safe: "safe (node_ok cfg) E (stored_peers cfg e k)"
  by (auto simp: safe_def stored_peers_def node_ok_def get_def Let_def intro: prune_ok)

lemma store_peer_safe: "safe (node_ok cfg) E (store_peer cfg e k p)"
proof (rule safeI)
  fix s assume ok: "node_ok cfg s"
  then have "store_ok cfg (peers_stored s)" "store_limits cfg" by (simp_all add: node_ok_def node_config_def)
  from add_spec [OF this, of "e_store e" k p] obtain st where
    st: "add cfg (e_store e) (peers_stored s) k p = Inr st" "store_ok cfg st" by blast
  then show "node_ok cfg (fst (store_peer cfg e k p s))"
    using ok by (simp add: store_peer_def node_ok_def)
  fix x assume "snd (store_peer cfg e k p s) = Inl x"
  with st show "E x" by (simp add: store_peer_def)
qed

lemma refresh_samples_safe: "safe (node_ok cfg) E (refresh_samples cfg e ks)"
  by (auto simp: safe_def refresh_samples_def Let_def split: option.splits)

lemma stored_keys_safe:
  "safe (node_ok cfg) E (\<lambda>s. let (st, ks) = stored_keys cfg now (peers_stored s) in (s\<lparr>peers_stored := st\<rparr>, Inr ks))"
  by (auto simp: safe_def node_ok_def stored_keys_def Let_def intro: prune_ok)

lemma incoming_get_peers_safe: "safe (node_ok cfg) caught (incoming_get_peers cfg e args ep)"
  unfolding incoming_get_peers_def Let_def
  by (intro safe_rules issue_run_safe stored_peers_safe)
    (auto simp: bind_r_Inl_iff dest: caught_lemmas split: if_splits)

lemma incoming_announce_safe: "safe (node_ok cfg) caught (incoming_announce_peer cfg e args ep)"
proof -
  have st: "safe (node_ok cfg) caught (\<lambda>s. if endpoint_allowed cfg (local_ips s) (fst ep) port
      then bind_run (store_peer cfg e k (fst ep, port)) (\<lambda>_. submit_run cfg now wall k src hint) s
      else (s, Inr ()))" for port k now wall src hint
  proof -
    have "safe (node_ok cfg) caught (bind_run (store_peer cfg e k (fst ep, port)) (\<lambda>_. submit_run cfg now wall k src hint))"
      by (intro safe_rules store_peer_safe)
    then show ?thesis by (simp add: safe_def)
  qed
  have bad: "safe (node_ok cfg) caught (lift_run (Inl (KRPC 203 (plain ''Bad token''))))"
    by (simp add: safe_def lift_run_def caught_def plain_def scalar_value_def)
  have val: "safe (node_ok cfg) caught (case v of Some (PBytes token) \<Rightarrow> validate_run cfg e (fst ep) token | _ \<Rightarrow> return_run False)" for v
    by (auto intro!: validate_run_safe safe_rules split: option.splits pyval.splits)
  show ?thesis
    unfolding incoming_announce_peer_def
    by (auto intro!: safe_rules st bad val dest: caught_lemmas)
qed

lemma incoming_sample_safe: "safe (node_ok cfg) caught (incoming_sample_infohashes cfg e args)"
  unfolding incoming_sample_infohashes_def Let_def [of "\<lambda>sm. _ sm"]
  by (intro safe_rules refresh_samples_safe stored_keys_safe)
    (auto simp: bind_r_Inl_iff Let_def dest: caught_lemmas)

lemma dispatch_safe: "safe (node_ok cfg) caught (dispatch cfg e m args ep)"
  unfolding dispatch_def
  by (auto intro!: safe_rules incoming_get_peers_safe incoming_announce_safe incoming_sample_safe
      simp: compact_closest_def bind_r_Inl_iff dest: caught_lemmas)


section \<open>Replies\<close>

lemma scalar_plain [simp]: "list_all scalar_value (plain t)"
proof -
  have "scalar_value (of_char c)" for c :: char
  proof -
    have "(of_char c :: nat) < 256" by simp
    then have "(of_char c :: nat) < 1114112" "\<not> 55296 \<le> (of_char c :: nat)" by linarith+
    then show ?thesis by (simp add: scalar_value_def)
  qed
  then show ?thesis by (auto simp: plain_def list_all_iff)
qed

lemma utf8_encode_total: "list_all scalar_value t \<Longrightarrow> \<exists>raw. utf8_encode t = Inr raw"
  by (induction t) (auto simp: utf8_char_def scalar_value_def)

lemma encode_error_message:
  assumes "0 \<le> code" and "code < 1000"
  shows "\<exists>b. encode (PDict (error_message cfg s tid code raw)) = Inr b"
proof -
  have "nat code < 10 ^ 3" using assms by simp
  then have "length (dec_digits (nat \<bar>code\<bar>)) \<le> 3"
    using assms(1) length_dec_digits_le [of "nat code" 3] by simp
  then show ?thesis
    by (simp add: error_message_def base_def key_def encode.simps encode_int_def int_max_str_digits_def)
qed

lemma send_error_safe:
  assumes "0 \<le> code" and "code < 1000" and "list_all scalar_value msg"
  shows "safe (node_ok cfg) E (send_error cfg tid code msg ep)"
proof -
  from utf8_encode_total [OF assms(3)] obtain raw where raw: "utf8_encode msg = Inr raw" ..
  have "node_ok cfg (fst (send_error cfg tid code msg ep s)) \<and> snd (send_error cfg tid code msg ep s) = Inr ()"
    if "node_ok cfg s" for s
  proof -
    from encode_error_message [OF assms(1,2), of cfg s tid raw] obtain b where
      "encode (PDict (error_message cfg s tid code raw)) = Inr b" ..
    with that raw show ?thesis by (simp add: send_error_def send_def)
  qed
  then show ?thesis by (simp add: safe_def)
qed

lemma respond_safe: "safe (node_ok cfg) caught (respond cfg e tid m response ep)"
proof (rule safeI)
  fix s assume ok: "node_ok cfg s"
  let ?m = "PDict (base s tid ''r'' @ [(key ''r'', PDict response)])"
  have sub: "safe (node_ok cfg) caught (submit_samples cfg e m response)" by (rule submit_samples_safe)
  have up: "transport_up s" using ok by (simp add: node_ok_def)
  show "node_ok cfg (fst (respond cfg e tid m response ep s))"
    using ok up sub by (cases "encode ?m")
      (auto simp: respond_def bind_run_def lift_run_def Let_def send_def py_def safe_def)
  fix x assume x: "snd (respond cfg e tid m response ep s) = Inl x"
  show "caught x"
  proof (cases "encode ?m")
    case (Inl y)
    with x have "x = Py y" by (simp add: respond_def bind_run_def lift_run_def py_def)
    with encode_error [OF Inl] show ?thesis by (simp add: caught_Py)
  next
    case (Inr enc)
    show ?thesis
    proof (cases "MAX_DHT_RESPONSE_BYTES < length enc")
      case True
      with x Inr have "x = KRPC 202 (plain ''Response too large'')"
        by (simp add: respond_def bind_run_def lift_run_def py_def)
      then show ?thesis by (simp add: caught_def)
    next
      case False
      with x Inr up have "snd (submit_samples cfg e m response (s\<lparr>outbox := outbox s @ [(enc, ep)]\<rparr>)) = Inl x"
        by (simp add: respond_def bind_run_def lift_run_def py_def send_def)
      from safe_exn [OF sub _ this] ok show ?thesis by simp
    qed
  qed
qed

lemma try_query_safe: "safe (node_ok cfg) caught (try_query cfg e tid m args ep)"
  unfolding try_query_def
  by (rule safe_bind [OF dispatch_safe]) (auto intro: respond_safe send_error_safe split: option.splits)

lemma catch_errors_safe:
  assumes "safe (node_ok cfg) caught m"
  shows "safe (node_ok cfg) E (catch_errors cfg tid ep m)"
proof -
  have "node_ok cfg (fst (catch_errors cfg tid ep m s)) \<and> (\<forall>x. snd (catch_errors cfg tid ep m s) \<noteq> Inl x)"
    if ok: "node_ok cfg s" for s
  proof -
    obtain s1 r where r: "m s = (s1, r)" by fastforce
    have s1: "node_ok cfg s1" and c: "\<And>x. r = Inl x \<Longrightarrow> caught x"
      using safeD [OF assms ok] safe_exn [OF assms ok] r by simp_all
    have se: "node_ok cfg (fst (send_error cfg tid code t ep s1))"
        "\<And>x. snd (send_error cfg tid code t ep s1) \<noteq> Inl x"
      if "code = 202 \<or> code = 203" "list_all scalar_value t" for code t
      using send_error_safe [of code t cfg "\<lambda>_. False" tid ep] that s1 by (auto simp: safe_def)
    show ?thesis
    proof (cases r)
      case (Inl x)
      with c have "caught x" by blast
      then show ?thesis using r Inl se by (auto simp: caught_def catch_errors_def)
    qed (use r s1 in \<open>simp add: catch_errors_def\<close>)
  qed
  then show ?thesis by (simp add: safe_def)
qed

lemma handle_query_safe: "safe (node_ok cfg) E (handle_query cfg e msg tid ep)"
proof -
  have e: "safe (node_ok cfg) E (send_error cfg tid 203 (plain t) ep)" for t
    by (rule send_error_safe) simp_all
  show ?thesis
    unfolding handle_query_def
    by (auto intro!: e safe_bind [OF observe_allowed_safe] catch_errors_safe try_query_safe
        split: option.splits pyval.splits)
qed

section \<open>Responses\<close>

lemma observe_nodes_safe [safe_rules]: "safe (node_ok cfg) E (observe_nodes cfg e j ns)"
  by (induction cfg e j ns rule: observe_nodes.induct) (auto intro!: safe_rules)

lemma parse_response_contacts_safe: "safe (node_ok cfg) E (parse_response_contacts cfg e r)"
  unfolding parse_response_contacts_def
  by (auto intro!: safe_rules simp: parse_compact_nodes_def Let_def split: option.splits pyval.splits)

lemma resolve_safe: "safe (node_ok cfg) E (resolve tid r)"
  by (simp add: safe_def resolve_def)

text \<open>What a response or error does: nothing, unless it answers a pending query from its
  endpoint; then it fails the query or, when it has the expected sender and the fields of an
  answer to that query, is accepted.\<close>

lemma handle_response_cases:
  obtains (ignored) "handle_response cfg e msg tid is_error ep s = (s, Inr ())"
  | (failed) p where "map_of (pending s) tid = Some p" "pq_endpoint p = ep" "is_error"
      "handle_response cfg e msg tid is_error ep s = resolve tid (Inl (remote_error cfg msg)) s"
  | (accepted) p response remote_id where "map_of (pending s) tid = Some p" "pq_endpoint p = ep" "\<not> is_error"
      "dget msg ''r'' = Some (PDict response)" "dget response ''id'' = Some (PBytes remote_id)"
      "length remote_id = 20" "pq_expected p = None \<or> pq_expected p = Some remote_id"
      "response_matches_query (pq_query p) response"
      "handle_response cfg e msg tid is_error ep s = accept_response cfg e msg tid p response remote_id ep s"
proof (cases "map_of (pending s) tid")
  case None
  then show ?thesis by (intro ignored) (simp add: handle_response_def)
next
  case (Some p)
  show ?thesis
  proof (cases "ep = pq_endpoint p")
    case False
    with Some show ?thesis by (intro ignored) (simp add: handle_response_def)
  next
    case ep: True
    show ?thesis
    proof (cases is_error)
      case True
      with Some ep show ?thesis by (intro failed) (simp_all add: handle_response_def)
    next
      case no: False
      show ?thesis
      proof (cases "\<exists>response remote_id. dget msg ''r'' = Some (PDict response) \<and> dget response ''id'' = Some (PBytes remote_id)")
        case True
        then obtain response remote_id where r: "dget msg ''r'' = Some (PDict response)"
          "dget response ''id'' = Some (PBytes remote_id)" by blast
        show ?thesis
        proof (cases "length remote_id = 20 \<and> (pq_expected p = None \<or> pq_expected p = Some remote_id)
            \<and> response_matches_query (pq_query p) response")
          case True
          with Some ep no r show ?thesis
            by (intro accepted [of p response remote_id]) (auto simp: handle_response_def)
        next
          case False
          with Some ep no r show ?thesis by (intro ignored) (auto simp: handle_response_def)
        qed
      next
        case False
        with Some ep no show ?thesis
          by (intro ignored) (auto simp: handle_response_def split: option.splits pyval.splits)
      qed
    qed
  qed
qed

lemma handle_response_safe: "safe (node_ok cfg) E (handle_response cfg e msg tid is_error ep)"
proof -
  have "safe (node_ok cfg) E (accept_response cfg e msg tid p response remote_id ep)" for p response remote_id
    unfolding accept_response_def
    by (intro safe_rules parse_response_contacts_safe resolve_safe)
  note a = this
  have "node_ok cfg (fst (handle_response cfg e msg tid is_error ep s))
      \<and> (\<forall>x. snd (handle_response cfg e msg tid is_error ep s) = Inl x \<longrightarrow> E x)" if ok: "node_ok cfg s" for s
  proof -
    from handle_response_cases [of cfg e msg tid is_error ep s] show ?thesis
    proof cases
      case ignored
      with ok show ?thesis by simp
    next
      case (failed p)
      with ok show ?thesis by (simp add: resolve_def)
    next
      case (accepted p response remote_id)
      with safeD [OF a ok] safe_exn [OF a ok] show ?thesis by simp
    qed
  qed
  then show ?thesis by (simp add: safe_def)
qed

lemma handle_datagram_safe: "safe (node_ok cfg) E (datagram_received cfg e data ep)"
  unfolding datagram_received_def handle_datagram_def
  by (auto intro!: safe_rules handle_query_safe handle_response_safe split: option.splits)


section \<open>What methods leave alone\<close>

lemma submit_keys_result: "\<exists>c. submit_keys cfg e j ks s = (s\<lparr>candidates := c\<rparr>, Inr ())"
proof (induction ks arbitrary: j s)
  case Nil
  show ?case by (rule exI [of _ "candidates s"]) (simp add: return_run_def)
next
  case (Cons k ks)
  let ?s = "s\<lparr>candidates := fst (submit cfg (e_submit e j) (e_wall e j) (candidates s) k ''bep51'' None False)\<rparr>"
  from Cons.IH [of "Suc j" ?s] show ?case by (auto simp: bind_run_def submit_run_def)
qed

lemma submit_samples_result: "\<exists>c. submit_samples cfg e q r s = (s\<lparr>candidates := c\<rparr>, Inr ())"
proof -
  have "\<exists>c. (s, Inr ()) = (s\<lparr>candidates := c\<rparr>, Inr ())" by (rule exI [of _ "candidates s"]) simp
  then show ?thesis
    using submit_keys_result [of cfg e 0 _ s]
    by (auto simp: submit_samples_def return_run_def split: option.splits pyval.splits)
qed

lemma keeps_submit_samples: "(\<And>s c. f (s\<lparr>candidates := c\<rparr>) = f s) \<Longrightarrow> keeps f (submit_samples cfg e q r)"
  using submit_samples_result [of cfg e q r] by (intro keepsI) (metis fst_conv)

lemma keeps_observe_allowed:
  "(\<And>s t. f (s\<lparr>routing := t\<rparr>) = f s) \<Longrightarrow> keeps f (observe_allowed cfg clk nid ep d i ro ver)"
  by (intro keepsI)
    (auto simp: observe_allowed_def bind_run_def observe_run_def return_run_def split: sum.splits prod.splits)

lemma keeps_observe_nodes:
  "(\<And>s t. f (s\<lparr>routing := t\<rparr>) = f s) \<Longrightarrow> keeps f (observe_nodes cfg e j ns)"
  by (induction cfg e j ns rule: observe_nodes.induct) (auto intro!: keeps_rules keeps_observe_allowed)

lemma keeps_parse_response_contacts:
  "(\<And>s t. f (s\<lparr>routing := t\<rparr>) = f s) \<Longrightarrow> keeps f (parse_response_contacts cfg e r)"
  unfolding parse_response_contacts_def
  by (auto intro!: keeps_rules keeps_observe_nodes split: option.splits pyval.splits sum.splits pyexn.splits)

lemma keeps_get_peers:
  assumes "\<And>s c. f (s\<lparr>candidates := c\<rparr>) = f s" and "\<And>s t. f (s\<lparr>secrets := t\<rparr>) = f s"
    and "\<And>s t. f (s\<lparr>peers_stored := t\<rparr>) = f s"
  shows "keeps f (incoming_get_peers cfg e args ep)"
proof -
  have "keeps f (submit_run cfg now wall k source hint)" for now wall k source hint
    by (rule keepsI) (simp add: submit_run_def assms)
  moreover have "keeps f (issue_run cfg e ip)" for ip
    by (rule keepsI) (simp add: issue_run_def assms split: prod.split)
  moreover have "keeps f (stored_peers cfg e k)" for k
    by (rule keepsI) (simp add: stored_peers_def assms split: prod.split)
  ultimately show ?thesis
    unfolding incoming_get_peers_def Let_def by (intro keeps_rules)
qed

lemma keeps_announce:
  assumes "\<And>s c. f (s\<lparr>candidates := c\<rparr>) = f s" and "\<And>s t. f (s\<lparr>secrets := t\<rparr>) = f s"
    and "\<And>s t. f (s\<lparr>peers_stored := t\<rparr>) = f s"
  shows "keeps f (incoming_announce_peer cfg e args ep)"
proof -
  have v: "keeps f (validate_run cfg e ip token)" for ip token
    by (rule keepsI) (simp add: validate_run_def assms split: prod.split)
  have st: "keeps f (bind_run (store_peer cfg e k p) (\<lambda>_. submit_run cfg now wall k source hint))"
    for k p now wall source hint
    by (intro keeps_rules) (auto intro!: keepsI simp: store_peer_def submit_run_def assms split: sum.splits)
  have "keeps f (\<lambda>s. if endpoint_allowed cfg (local_ips s) (fst ep) port
      then bind_run (store_peer cfg e k p) (\<lambda>_. submit_run cfg now wall k source hint) s else (s, Inr ()))"
    for port k p now wall source hint
    using st by (auto simp: keeps_def)
  with v show ?thesis
    unfolding incoming_announce_peer_def
    by (auto intro!: keeps_rules split: option.splits pyval.splits)
qed

lemma keeps_samples:
  assumes "\<And>s c. f (s\<lparr>sample_cache := c\<rparr>) = f s" and "\<And>s t. f (s\<lparr>peers_stored := t\<rparr>) = f s"
  shows "keeps f (incoming_sample_infohashes cfg e args)"
proof -
  have "keeps f (refresh_samples cfg e ks)" for ks
    by (rule keepsI) (auto simp: refresh_samples_def Let_def assms split: option.splits)
  moreover have "keeps f (\<lambda>s. let (st, ks) = stored_keys cfg now (peers_stored s) in (s\<lparr>peers_stored := st\<rparr>, Inr ks))" for now
    by (rule keepsI) (simp add: stored_keys_def Let_def assms)
  ultimately show ?thesis
    unfolding incoming_sample_infohashes_def Let_def [of "\<lambda>sm. _ sm"] by (intro keeps_rules)
qed

lemma keeps_dispatch:
  assumes "\<And>s c. f (s\<lparr>candidates := c\<rparr>) = f s" and "\<And>s t. f (s\<lparr>secrets := t\<rparr>) = f s"
    and "\<And>s t. f (s\<lparr>peers_stored := t\<rparr>) = f s" and "\<And>s c. f (s\<lparr>sample_cache := c\<rparr>) = f s"
  shows "keeps f (dispatch cfg e m args ep)"
  unfolding dispatch_def
  by (intro keeps_rules keeps_get_peers keeps_announce keeps_samples assms)

section \<open>At most one reply\<close>

definition one_reply :: "endpoint \<Rightarrow> unit run \<Rightarrow> bool" where
  "one_reply ep m \<longleftrightarrow> (\<forall>s. outbox (fst (m s)) = outbox s
     \<or> (\<exists>payload. outbox (fst (m s)) = outbox s @ [(payload, ep)] \<and> length payload \<le> MAX_DHT_RESPONSE_BYTES))"

lemma one_reply_silent: "keeps outbox m \<Longrightarrow> one_reply ep m"
  by (simp add: one_reply_def keeps_def)

lemma one_reply_bind: "keeps outbox m \<Longrightarrow> (\<And>x. one_reply ep (g x)) \<Longrightarrow> one_reply ep (bind_run m g)"
  unfolding one_reply_def keeps_def bind_run_def
  by (auto split: prod.splits sum.splits) (metis fst_conv)+

lemma send_reply:
  "outbox (fst (send msg ep s)) = outbox s
   \<or> (\<exists>payload. outbox (fst (send msg ep s)) = outbox s @ [(payload, ep)] \<and> length payload \<le> MAX_DHT_RESPONSE_BYTES)"
  "snd (send msg ep s) = Inl x \<Longrightarrow> fst (send msg ep s) = s"
  by (auto simp: send_def split: sum.splits)

lemma send_error_reply: "one_reply ep (send_error cfg tid code t ep)"
proof -
  have "fst (send_error cfg tid code t ep s) = s
      \<or> (\<exists>msg. fst (send_error cfg tid code t ep s) = fst (send msg ep s))" for s
  proof (cases "utf8_encode t")
    case (Inr raw)
    obtain s1 r where r: "send (error_message cfg s tid code raw) ep s = (s1, r)" by fastforce
    then have "fst (send_error cfg tid code t ep s) = s1"
      using Inr by (auto simp: send_error_def split: sum.splits krpc_exn.splits)
    with r show ?thesis by (metis fst_conv)
  qed (simp add: send_error_def)
  then show ?thesis using send_reply(1) unfolding one_reply_def by metis
qed

lemma send_error_quiet:
  "snd (send_error cfg tid code t ep s) = Inl x \<Longrightarrow> fst (send_error cfg tid code t ep s) = s"
  by (auto simp: send_error_def send_def split: sum.splits krpc_exn.splits if_splits)

lemma respond_reply:
  "one_reply ep (respond cfg e tid m r ep)"
  "snd (respond cfg e tid m r ep s) = Inl x \<Longrightarrow> outbox (fst (respond cfg e tid m r ep s)) = outbox s"
proof -
  have *: "(\<exists>y. respond cfg e tid m r ep s = (s, Inl y))
    \<or> (\<exists>payload c. respond cfg e tid m r ep s = (s\<lparr>outbox := outbox s @ [(payload, ep)], candidates := c\<rparr>, Inr ())
        \<and> length payload \<le> MAX_DHT_RESPONSE_BYTES)" for s
  proof (cases "encode (PDict (base s tid ''r'' @ [(key ''r'', PDict r)]))")
    case (Inl y)
    then show ?thesis by (simp add: respond_def bind_run_def lift_run_def py_def)
  next
    case (Inr enc)
    from submit_samples_result [of cfg e m r "s\<lparr>outbox := outbox s @ [(enc, ep)]\<rparr>"] obtain c where
      "submit_samples cfg e m r (s\<lparr>outbox := outbox s @ [(enc, ep)]\<rparr>) =
        (s\<lparr>outbox := outbox s @ [(enc, ep)], candidates := c\<rparr>, Inr ())" by auto
    with Inr show ?thesis
      by (auto simp: respond_def bind_run_def lift_run_def py_def send_def)
  qed
  show "one_reply ep (respond cfg e tid m r ep)"
    unfolding one_reply_def
  proof
    fix s
    show "outbox (fst (respond cfg e tid m r ep s)) = outbox s \<or>
        (\<exists>payload. outbox (fst (respond cfg e tid m r ep s)) = outbox s @ [(payload, ep)]
          \<and> length payload \<le> MAX_DHT_RESPONSE_BYTES)"
      using * [of s] by auto
  qed
  show "snd (respond cfg e tid m r ep s) = Inl x \<Longrightarrow> outbox (fst (respond cfg e tid m r ep s)) = outbox s"
    using * [of s] by auto
qed


lemma try_query_reply:
  "one_reply ep (try_query cfg e tid m args ep)"
  "snd (try_query cfg e tid m args ep s) = Inl x \<Longrightarrow> outbox (fst (try_query cfg e tid m args ep s)) = outbox s"
proof -
  have d: "keeps outbox (dispatch cfg e m args ep)" by (rule keeps_dispatch) simp_all
  show "one_reply ep (try_query cfg e tid m args ep)"
    unfolding try_query_def
    by (rule one_reply_bind [OF d]) (auto intro: respond_reply(1) send_error_reply split: option.splits)
  obtain s1 r where r: "dispatch cfg e m args ep s = (s1, r)" by fastforce
  with d have o: "outbox s1 = outbox s" unfolding keeps_def by (metis fst_conv)
  assume x: "snd (try_query cfg e tid m args ep s) = Inl x"
  show "outbox (fst (try_query cfg e tid m args ep s)) = outbox s"
  proof (cases r)
    case (Inl y)
    with r o show ?thesis by (simp add: try_query_def bind_run_def)
  next
    case (Inr res)
    show ?thesis
    proof (cases res)
      case None
      with Inr r x have "snd (send_error cfg tid 204 (plain ''Method Unknown'') ep s1) = Inl x"
        by (simp add: try_query_def bind_run_def)
      with send_error_quiet [OF this] Inr None r o show ?thesis by (simp add: try_query_def bind_run_def)
    next
      case (Some response)
      with Inr r x have "snd (respond cfg e tid m response ep s1) = Inl x"
        by (simp add: try_query_def bind_run_def)
      from respond_reply(2) [OF this] Inr Some r o show ?thesis by (simp add: try_query_def bind_run_def)
    qed
  qed
qed

lemma catch_errors_reply:
  assumes "one_reply ep m" and "\<And>(s :: node) x. snd (m s) = Inl x \<Longrightarrow> outbox (fst (m s)) = outbox s"
  shows "one_reply ep (catch_errors cfg tid ep m)"
  unfolding one_reply_def
proof
  fix s :: node
  let ?P = "\<lambda>s'. outbox s' = outbox s \<or> (\<exists>payload. outbox s' = outbox s @ [(payload, ep)]
    \<and> length payload \<le> MAX_DHT_RESPONSE_BYTES)"
  obtain s1 r where r: "m s = (s1, r)" by fastforce
  show "?P (fst (catch_errors cfg tid ep m s))"
  proof (cases r)
    case (Inl x)
    with assms(2) [of s x] r have o: "outbox s1 = outbox s" by simp
    have e: "?P (fst (send_error cfg tid c t ep s1))" for c t
      using send_error_reply [of ep cfg tid c t] o unfolding one_reply_def by metis
    from Inl r o e show ?thesis
      by (auto simp: catch_errors_def split: krpc_exn.splits pyexn.splits)
  next
    case (Inr u)
    with assms(1) r show ?thesis unfolding one_reply_def catch_errors_def by (auto dest: spec [of _ s])
  qed
qed

lemma handle_query_reply: "one_reply ep (handle_query cfg e msg tid ep)"
proof -
  have "keeps outbox (observe_allowed cfg clk nid ep d i ro ver)" for clk nid d i ro ver
    by (rule keeps_observe_allowed) simp
  then show ?thesis
    unfolding handle_query_def
    by (auto intro!: send_error_reply one_reply_bind catch_errors_reply try_query_reply
        split: option.splits pyval.splits)
qed

lemma keeps_accept_response:
  assumes "\<And>s t. f (s\<lparr>routing := t\<rparr>) = f s" and "\<And>s c. f (s\<lparr>candidates := c\<rparr>) = f s"
    and "\<And>tid r. keeps f (resolve tid r)"
  shows "keeps f (accept_response cfg e msg tid p response nid ep)"
  unfolding accept_response_def
  by (intro keeps_rules keeps_observe_allowed keeps_parse_response_contacts keeps_submit_samples assms)

lemma keeps_handle_response:
  assumes "\<And>s t. f (s\<lparr>routing := t\<rparr>) = f s" and "\<And>s c. f (s\<lparr>candidates := c\<rparr>) = f s"
    and "\<And>tid r. keeps f (resolve tid r)"
  shows "keeps f (handle_response cfg e msg tid is_error ep)"
proof (rule keepsI)
  fix s
  from handle_response_cases [of cfg e msg tid is_error ep s]
  show "f (fst (handle_response cfg e msg tid is_error ep s)) = f s"
  proof cases
    case (accepted p response remote_id)
    with keeps_accept_response [OF assms] show ?thesis by (simp add: keeps_def)
  next
    case (failed p)
    with assms(3) show ?thesis by (simp add: keeps_def)
  qed simp
qed

lemma datagram_reply: "one_reply ep (datagram_received cfg e data ep)"
proof -
  have "keeps outbox (handle_response cfg e msg tid b ep)" for msg tid b
    by (rule keeps_handle_response) (simp_all add: keeps_def resolve_def)
  then show ?thesis
    unfolding datagram_received_def handle_datagram_def
    by (auto intro!: one_reply_silent [OF keeps_return] one_reply_silent handle_query_reply split: option.splits)
qed


section \<open>Announcing\<close>

text \<open>The endpoints under a key: none but the announced one are added, and that one only after
  the token was validated.\<close>

definition stored :: "node \<Rightarrow> bytes \<Rightarrow> endpoint \<Rightarrow> bool" where
  "stored s k p \<longleftrightarrow> seen_at (peers_stored s) k p \<noteq> None"

definition token_accepted :: "config \<Rightarrow> env \<Rightarrow> node \<Rightarrow> pdict \<Rightarrow> atext \<Rightarrow> bool" where
  "token_accepted cfg e s args ip \<longleftrightarrow> (\<exists>token. dget args ''token'' = Some (PBytes token)
     \<and> snd (validate cfg (e_token e) (e_fresh_prev e) (e_fresh_cur e) (secrets s) ip token) = Inr True)"

lemma prune_shrinks:
  assumes "store_ok cfg st" and "seen_at (prune cfg now st) k p \<noteq> None"
  shows "seen_at st k p \<noteq> None"
  using assms seen_at_prune by (auto split: if_splits option.splits)


lemma keeps_send_error:
  assumes "\<And>s b. f (s\<lparr>outbox := b\<rparr>) = f s"
  shows "keeps f (send_error cfg tid code t ep)"
  by (rule keepsI) (auto simp: send_error_def send_def assms split: sum.splits krpc_exn.splits if_splits)

lemma keeps_respond:
  assumes "\<And>s b. f (s\<lparr>outbox := b\<rparr>) = f s" and "\<And>s c. f (s\<lparr>candidates := c\<rparr>) = f s"
  shows "keeps f (respond cfg e tid m r ep)"
proof (rule keepsI)
  fix s
  let ?m = "base s tid ''r'' @ [(key ''r'', PDict r)]"
  have "keeps f (bind_run (lift_run (py (encode (PDict ?m)))) (\<lambda>enc.
      if MAX_DHT_RESPONSE_BYTES < length enc then lift_run (Inl (KRPC 202 (plain ''Response too large'')))
      else bind_run (send ?m ep) (\<lambda>_. submit_samples cfg e m r)))"
    by (intro keeps_rules keeps_submit_samples assms)
      (auto intro!: keepsI simp: send_def assms split: sum.splits)
  then show "f (fst (respond cfg e tid m r ep s)) = f s"
    by (simp add: respond_def keeps_def Let_def)
qed

lemma keeps_catch_errors:
  assumes "keeps f m" and "\<And>s b. f (s\<lparr>outbox := b\<rparr>) = f s"
  shows "keeps f (catch_errors cfg tid ep m)"
proof (rule keepsI)
  fix s
  obtain s1 r where r: "m s = (s1, r)" by fastforce
  with assms(1) have "f s1 = f s" unfolding keeps_def by (metis fst_conv)
  moreover have "f (fst (send_error cfg tid c t ep s1)) = f s1" for c t
    using keeps_send_error [OF assms(2)] by (simp add: keeps_def)
  ultimately show "f (fst (catch_errors cfg tid ep m s)) = f s"
    using r by (auto simp: catch_errors_def split: sum.splits krpc_exn.splits pyexn.splits)
qed

lemma keeps_try_query:
  assumes "keeps f (dispatch cfg e m args ep)"
    and "\<And>s b. f (s\<lparr>outbox := b\<rparr>) = f s" and "\<And>s c. f (s\<lparr>candidates := c\<rparr>) = f s"
  shows "keeps f (try_query cfg e tid m args ep)"
  unfolding try_query_def
  by (rule keeps_bind [OF assms(1)]) (auto intro!: keeps_respond keeps_send_error assms split: option.splits)

lemma keeps_handle_query:
  assumes "\<And>s b. f (s\<lparr>outbox := b\<rparr>) = f s" and "\<And>s c. f (s\<lparr>candidates := c\<rparr>) = f s"
    and "\<And>s t. f (s\<lparr>secrets := t\<rparr>) = f s" and "\<And>s t. f (s\<lparr>peers_stored := t\<rparr>) = f s"
    and "\<And>s c. f (s\<lparr>sample_cache := c\<rparr>) = f s" and "\<And>s t. f (s\<lparr>routing := t\<rparr>) = f s"
  shows "keeps f (handle_query cfg e msg tid ep)"
  unfolding handle_query_def
  by (auto intro!: keeps_bind keeps_send_error keeps_observe_allowed keeps_catch_errors keeps_try_query
      keeps_dispatch assms split: option.splits pyval.splits)

lemma announce_stores:
  assumes ok: "node_ok cfg s" and new: "stored (fst (incoming_announce_peer cfg e args ep s)) k p" and old: "\<not> stored s k p"
  shows "token_accepted cfg e s args (fst ep)" and "fst p = fst ep"
    and "endpoint_allowed cfg (local_ips s) (fst p) (snd p)" and "require_20 args ''info_hash'' = Inr k"
    and "\<exists>i. announce_port args ep = Inr (snd p, i)"
proof -
  have same: "stored (s\<lparr>secrets := x\<rparr>) k p = stored s k p" for x by (simp add: stored_def)
  obtain k0 port i where k: "require_20 args ''info_hash'' = Inr k0" and port: "announce_port args ep = Inr (port, i)"
    using new old by (auto simp: incoming_announce_peer_def bind_run_def lift_run_def split: sum.splits)
  let ?fin = "\<lambda>s1. if endpoint_allowed cfg (local_ips s1) (fst ep) port
       then bind_run (store_peer cfg e k0 (fst ep, port)) (\<lambda>_. submit_run cfg (e_submit e 0) (e_wall e 0) k0
          ''announce_peer'' (Some (fst ep, port, i))) s1
       else (s1, Inr ())"
  obtain token where token: "dget args ''token'' = Some (PBytes token)"
    using new old k port
    by (auto simp: incoming_announce_peer_def bind_run_def lift_run_def return_run_def split: option.splits pyval.splits)
  obtain tm r where v: "validate cfg (e_token e) (e_fresh_prev e) (e_fresh_cur e) (secrets s) (fst ep) token = (tm, r)"
    by fastforce
  let ?s = "s\<lparr>secrets := tm\<rparr>"
  have r: "r = Inr True"
  proof (rule ccontr)
    assume "r \<noteq> Inr True"
    then consider x where "r = Inl x" | "r = Inr False" by (cases r) auto
    then have "fst (incoming_announce_peer cfg e args ep s) = ?s"
      using k port token v
      by cases (simp_all add: incoming_announce_peer_def bind_run_def lift_run_def validate_run_def py_def)
    with new old same show False by simp
  qed
  have fin: "stored (fst (?fin ?s)) k p"
  proof -
    have "fst (incoming_announce_peer cfg e args ep s) = fst (?fin ?s)"
      using k port token v r
      by (auto simp: incoming_announce_peer_def bind_run_def lift_run_def validate_run_def py_def
          split: prod.splits sum.splits)
    with new show ?thesis by simp
  qed
  show "token_accepted cfg e s args (fst ep)"
    using token v r by (auto simp: token_accepted_def)
  have al: "endpoint_allowed cfg (local_ips s) (fst ep) port"
    using fin same old by (auto split: if_splits)
  have "store_ok cfg (peers_stored s)" "store_limits cfg" using ok by (simp_all add: node_ok_def node_config_def)
  from add_spec [OF this, of "e_store e" k0 "(fst ep, port)"] obtain st where
    st: "add cfg (e_store e) (peers_stored s) k0 (fst ep, port) = Inr st"
    "\<forall>k e' t. seen_at st k e' = Some t \<longrightarrow> (k = k0 \<and> e' = (fst ep, port) \<and> t = e_store e 1)
        \<or> seen_at (prune cfg (e_store e 0) (peers_stored s)) k e' = Some t"
    by blast
  have "stored (fst (?fin ?s)) k p = (seen_at st k p \<noteq> None)"
    using al st(1) by (simp add: bind_run_def store_peer_def submit_run_def stored_def)
  with fin obtain t where "seen_at st k p = Some t" by auto
  moreover have "seen_at (prune cfg (e_store e 0) (peers_stored s)) k p = None"
    using old prune_shrinks \<open>store_ok cfg (peers_stored s)\<close> unfolding stored_def by blast
  moreover from st(2) \<open>seen_at st k p = Some t\<close>
  have "(k = k0 \<and> p = (fst ep, port)) \<or> seen_at (prune cfg (e_store e 0) (peers_stored s)) k p = Some t" by blast
  ultimately have "k = k0" "p = (fst ep, port)" by auto
  with al k port show "fst p = fst ep" "endpoint_allowed cfg (local_ips s) (fst p) (snd p)"
    "require_20 args ''info_hash'' = Inr k" "\<exists>i. announce_port args ep = Inr (snd p, i)"
    by auto
qed

lemma catch_errors_peers: "peers_stored (fst (catch_errors cfg tid ep m s)) = peers_stored (fst (m s))"
proof -
  have "keeps peers_stored (send_error cfg tid c t ep)" for c t by (rule keeps_send_error) simp
  then show ?thesis
    by (auto simp: catch_errors_def keeps_def split: prod.splits sum.splits krpc_exn.splits pyexn.splits)
qed

lemma try_query_peers:
  "peers_stored (fst (try_query cfg e tid m args ep s)) = peers_stored (fst (dispatch cfg e m args ep s))"
proof -
  have "keeps peers_stored (send_error cfg tid c t ep)" for c t by (rule keeps_send_error) simp
  moreover have "keeps peers_stored (respond cfg e tid m r ep)" for r by (rule keeps_respond) simp_all
  ultimately show ?thesis
    by (auto simp: try_query_def bind_run_def keeps_def split: prod.splits sum.splits option.splits)
qed

lemma get_peers_prunes:
  "peers_stored (fst (incoming_get_peers cfg e args ep s)) \<in> {peers_stored s, prune cfg (e_store e 0) (peers_stored s)}"
  by (auto simp: incoming_get_peers_def bind_run_def lift_run_def submit_run_def issue_run_def stored_peers_def
      get_def Let_def split: prod.splits sum.splits)

lemma samples_prune:
  "peers_stored (fst (incoming_sample_infohashes cfg e args s)) \<in> {peers_stored s, prune cfg (e_store e 0) (peers_stored s)}"
  by (auto simp: incoming_sample_infohashes_def bind_run_def lift_run_def refresh_samples_def
      stored_keys_def Let_def split: prod.splits sum.splits option.splits)

lemma dispatch_stores:
  assumes ok: "node_ok cfg s" and new: "stored (fst (dispatch cfg e m args ep s)) k p" and old: "\<not> stored s k p"
  shows "m = ascii ''announce_peer'' \<and> stored (fst (incoming_announce_peer cfg e args ep s)) k p"
proof (cases "m = ascii ''announce_peer''")
  case True
  then show ?thesis
    using new by (auto simp: dispatch_def bind_run_def return_run_def split: prod.splits sum.splits)
next
  case False
  have so: "store_ok cfg (peers_stored s)" using ok by (simp add: node_ok_def)
  have "peers_stored (fst (dispatch cfg e m args ep s)) \<in> {peers_stored s, prune cfg (e_store e 0) (peers_stored s)}"
    using False get_peers_prunes [of cfg e args ep s] samples_prune [of cfg e args s]
    by (auto simp: dispatch_def bind_run_def return_run_def lift_run_def split: prod.splits sum.splits)
  with new old prune_shrinks [OF so, of "e_store e 0" k p] show ?thesis by (auto simp: stored_def)
qed

lemma handle_query_stores:
  assumes ok: "node_ok cfg s" and new: "stored (fst (handle_query cfg e msg tid ep s)) k p" and old: "\<not> stored s k p"
  shows "fst p = fst ep \<and> endpoint_allowed cfg (local_ips s) (fst p) (snd p)
    \<and> (\<exists>args. dget msg ''q'' = Some (PBytes (ascii ''announce_peer'')) \<and> dget msg ''a'' = Some (PDict args)
         \<and> require_20 args ''info_hash'' = Inr k \<and> token_accepted cfg e s args (fst ep))"
proof -
  have se: "peers_stored (fst (send_error cfg tid c t ep s)) = peers_stored s" for c t
    using keeps_send_error [of peers_stored cfg tid c t ep] by (simp add: keeps_def)
  obtain m args nid where q: "dget msg ''q'' = Some (PBytes m)" "dget msg ''a'' = Some (PDict args)"
    "dget args ''id'' = Some (PBytes nid)" "length nid = 20"
    using new old se by (fastforce simp: handle_query_def stored_def split: option.splits pyval.splits if_splits)
  let ?o = "observe_allowed cfg (e_observe e) nid ep False True (truthy (dget msg ''ro'')) (version_of msg)"
  let ?s = "fst (?o s)"
  have s1: "node_ok cfg ?s" by (rule safeD [OF observe_allowed_safe ok])
  have no: "snd (?o s) \<noteq> Inl x" for x
    using safe_exn [OF observe_allowed_safe [of cfg "\<lambda>_. False"] ok] by blast
  have same: "peers_stored ?s = peers_stored s" "secrets ?s = secrets s" "local_ips ?s = local_ips s"
    using keeps_observe_allowed [of peers_stored] keeps_observe_allowed [of secrets]
      keeps_observe_allowed [of local_ips] by (simp_all add: keeps_def)
  have "handle_query cfg e msg tid ep s = catch_errors cfg tid ep (try_query cfg e tid m args ep) ?s"
    using q no by (cases "?o s"; cases "snd (?o s)") (auto simp: handle_query_def bind_run_def)
  then have d: "stored (fst (dispatch cfg e m args ep ?s)) k p" "\<not> stored ?s k p"
    using new old same(1) by (simp_all add: stored_def catch_errors_peers try_query_peers)
  note D = dispatch_stores [OF s1 d]
  note A = announce_stores [OF s1 conjunct2 [OF D] d(2)]
  show ?thesis using A D q same by (auto simp: token_accepted_def)
qed

section \<open>Transaction identifiers\<close>

lemma next_tid_loop_fresh:
  "next_tid_loop n c pend = (c', Inr tid) \<Longrightarrow> tid \<notin> set (map fst pend) \<and> length tid = 2"
  by (induction n c pend rule: next_tid_loop.induct) (auto simp: Let_def split: if_splits)

lemma next_tid_loop_exhausted:
  "next_tid_loop n c pend = (c', Inl x) \<Longrightarrow> j < n \<Longrightarrow> to_bytes 2 ((c + 1 + j) mod 65536) \<in> set (map fst pend)"
proof (induction n c pend arbitrary: j rule: next_tid_loop.induct)
  case (2 n c pend)
  then have used: "to_bytes 2 ((c + 1) mod 65536) \<in> set (map fst pend)"
    and rest: "next_tid_loop n ((c + 1) mod 65536) pend = (c', Inl x)"
    by (auto simp: Let_def simp del: to_bytes_numeral split: if_splits)
  show ?case
  proof (cases j)
    case 0
    with used show ?thesis by simp
  next
    case (Suc i)
    with "2.prems"(2) have "i < n" by simp
    from "2.IH" [OF refl refl _ rest this] used
    have "to_bytes 2 (((c + 1) mod 65536 + 1 + i) mod 65536) \<in> set (map fst pend)" by simp
    moreover have "((c + 1) mod 65536 + 1 + i) mod 65536 = (c + 1 + j) mod 65536"
    proof -
      have "((c + 1) mod 65536 + (1 + i)) mod 65536 = (c + 1 + (1 + i)) mod 65536" by (rule mod_add_left_eq)
      then show ?thesis unfolding Suc by (simp only: add.assoc Suc_eq_plus1_left)
    qed
    ultimately show ?thesis by (simp del: to_bytes_numeral)
  qed
qed simp

lemma next_tid_exhausted:
  assumes "next_tid s = (s', Inl x)" and "length tid = 2"
  shows "tid \<in> set (map fst (pending s))"
proof -
  let ?c = "tx_counter s" and ?v = "from_bytes tid"
  have v: "?v < 65536" using from_bytes_less [of tid] assms(2) by simp
  define j where "j = (?v + 65536 * (?c + 1) - (?c + 1)) mod 65536"
  obtain c' where l: "next_tid_loop 65536 ?c (pending s) = (c', Inl x)"
    using assms(1) by (auto simp: next_tid_def split: prod.splits)
  have "j < 65536" by (simp add: j_def)
  from next_tid_loop_exhausted [OF l this]
  have "to_bytes 2 ((?c + 1 + j) mod 65536) \<in> set (map fst (pending s))" .
  moreover have "(?c + 1 + j) mod 65536 = ?v"
  proof -
    have "(?c + 1 + j) mod 65536 = (?c + 1 + (?v + 65536 * (?c + 1) - (?c + 1))) mod 65536"
      unfolding j_def by (simp only: mod_add_right_eq)
    also have "\<dots> = (?v + 65536 * (?c + 1)) mod 65536" by (rule arg_cong [of _ _ "\<lambda>x. x mod 65536"]) simp
    also have "\<dots> = ?v mod 65536" by (rule mod_mult_self2)
    also have "\<dots> = ?v" using v by simp
    finally show ?thesis .
  qed
  moreover have "to_bytes 2 ?v = tid" using to_bytes_from_bytes [of tid] assms(2) by (simp del: to_bytes_numeral)
  ultimately show ?thesis by (simp del: to_bytes_numeral)
qed


section \<open>A node in use\<close>

text \<open>A running node: datagrams arrive, queries are begun when the endpoint policy admits them
  and a slot is free, and end. \<open>iterative_get_peers\<close> and the schedulers begin queries only for
  contacts, so an expected identifier has 20 bytes.\<close>

datatype node_event = Datagram bytes endpoint | Begin endpoint bytes | Finish bytes

inductive node_step :: "config \<Rightarrow> node \<Rightarrow> node_event \<Rightarrow> node \<Rightarrow> bool" for cfg where
  datagram: "node_step cfg s (Datagram data ep) (fst (datagram_received cfg e data ep s))"
| begun: "query_allowed cfg ep s = (s, Inr ()) \<Longrightarrow> 0 < free_slots s \<Longrightarrow>
    (\<forall>nid. expected = Some nid \<longrightarrow> length nid = 20) \<Longrightarrow>
    node_step cfg s (Begin ep m) (fst (begin_query cfg ep m args expected s))"
| ended: "tid \<in> set (map fst (pending s)) \<Longrightarrow>
    node_step cfg s (Finish tid) (fst (finish_query cfg clk tid s))"

definition node_init :: "config \<Rightarrow> node \<Rightarrow> bool" where
  "node_init cfg s \<longleftrightarrow> node_config cfg \<and> 0 < DHT_MAX_PENDING_REQUESTS cfg \<and> DHT_MAX_PENDING_REQUESTS cfg \<le> 65536
     \<and> (\<exists>now. new_table (own_id s) now = Inr (routing s)) \<and> (\<exists>now cur prev. secrets s = new_token_manager now cur prev)
     \<and> peers_stored s = [] \<and> pending s = [] \<and> free_slots s = nat (DHT_MAX_PENDING_REQUESTS cfg) \<and> transport_up s"

definition slots_ok :: "config \<Rightarrow> node \<Rightarrow> bool" where
  "slots_ok cfg s \<longleftrightarrow> DHT_MAX_PENDING_REQUESTS cfg \<le> 65536 \<and> distinct (map fst (pending s))
     \<and> int (length (pending s) + free_slots s) = DHT_MAX_PENDING_REQUESTS cfg
     \<and> (\<forall>(tid, p) \<in> set (pending s). length tid = 2 \<and> (\<forall>nid. pq_expected p = Some nid \<longrightarrow> length nid = 20))"

abbreviation query_table :: "node \<Rightarrow> (bytes \<times> bytes option) list \<times> nat" where
  "query_table s \<equiv> (map (\<lambda>(tid, p). (tid, pq_expected p)) (pending s), free_slots s)"

lemma slots_ok_table:
  assumes "query_table s' = query_table s"
  shows "slots_ok cfg s' = slots_ok cfg s"
proof -
  have m: "map (\<lambda>(tid, p). (tid, pq_expected p)) (pending s') = map (\<lambda>(tid, p). (tid, pq_expected p)) (pending s)"
    and f: "free_slots s' = free_slots s" using assms by simp_all
  have k: "map fst (pending s') = map fst (pending s)"
    using arg_cong [OF m, of "map fst"] by (simp add: comp_def case_prod_unfold)
  have l: "length (pending s') = length (pending s)" using arg_cong [OF m, of length] by simp
  have q: "(\<forall>(tid, p) \<in> set (pending s). length tid = 2 \<and> (\<forall>nid. pq_expected p = Some nid \<longrightarrow> length nid = 20))
      \<longleftrightarrow> list_all (\<lambda>(tid, x). length tid = 2 \<and> (\<forall>nid. x = Some nid \<longrightarrow> length nid = 20))
            (map (\<lambda>(tid, p). (tid, pq_expected p)) (pending s))"
    for s :: node by (auto simp: case_prod_unfold list_all_iff)
  show ?thesis by (simp only: slots_ok_def q m k l f)
qed

lemma keeps_resolve_table: "keeps query_table (resolve tid r)"
  by (rule keepsI) (auto simp: resolve_def case_prod_unfold)

lemma datagram_slots: "slots_ok cfg (fst (datagram_received cfg e data ep s)) = slots_ok cfg s"
proof -
  have "keeps query_table (handle_query cfg e msg tid ep)" for msg tid
    by (rule keeps_handle_query) simp_all
  moreover have "keeps query_table (handle_response cfg e msg tid b ep)" for msg tid b
    by (rule keeps_handle_response) (simp_all add: keeps_resolve_table)
  ultimately have "keeps query_table (datagram_received cfg e data ep)"
    unfolding datagram_received_def handle_datagram_def by (auto intro!: keeps_rules split: option.splits)
  then have "query_table (fst (datagram_received cfg e data ep s)) = query_table s" unfolding keeps_def by blast
  then show ?thesis by (rule slots_ok_table)
qed

lemma next_tid_succeeds:
  assumes "slots_ok cfg s" and "0 < free_slots s"
  shows "\<exists>c tid. next_tid s = (s\<lparr>tx_counter := c\<rparr>, Inr tid) \<and> tid \<notin> set (map fst (pending s)) \<and> length tid = 2"
proof -
  obtain c r where l: "next_tid_loop 65536 (tx_counter s) (pending s) = (c, r)" by fastforce
  then have n: "next_tid s = (s\<lparr>tx_counter := c\<rparr>, r)" by (simp add: next_tid_def)
  show ?thesis
  proof (cases r)
    case (Inl x)
    have "(\<lambda>v. to_bytes 2 v) ` {0..<65536} \<subseteq> set (map fst (pending s))"
      using next_tid_exhausted [of s _ x] n Inl by auto
    moreover have "inj_on (\<lambda>v. to_bytes 2 v) {0..<65536 :: nat}"
      by (rule inj_on_inverseI [of _ from_bytes]) (simp add: from_bytes_to_bytes del: to_bytes_numeral)
    ultimately have "65536 \<le> card (set (map fst (pending s)))"
      by (metis card_image card_mono card_atLeastLessThan diff_zero finite_set)
    also have "\<dots> \<le> length (pending s)" using card_length [of "map fst (pending s)"] by simp
    finally have False using assms by (simp add: slots_ok_def)
    then show ?thesis ..
  next
    case (Inr tid)
    from next_tid_loop_fresh [OF l [unfolded Inr]] n Inr show ?thesis by blast
  qed
qed

lemma end_query_slots:
  assumes "distinct (map fst (pending s))" and "tid \<in> set (map fst (pending s))"
    and "int (length (pending s) + free_slots s) = DHT_MAX_PENDING_REQUESTS cfg" and "DHT_MAX_PENDING_REQUESTS cfg \<le> 65536"
    and "\<forall>(tid, p) \<in> set (pending s). length tid = 2 \<and> (\<forall>nid. pq_expected p = Some nid \<longrightarrow> length nid = 20)"
  shows "slots_ok cfg (fst (end_query tid s))"
proof -
  let ?p = "filter (\<lambda>(t, p). t \<noteq> tid) (pending s)"
  have "Suc (length ?p) = length (pending s)"
    using assms(1,2)
  proof (induction "pending s" arbitrary: s)
    case (Cons x xs)
    obtain t p where x: "x = (t, p)" by fastforce
    show ?case
    proof (cases "t = tid")
      case True
      have "filter (\<lambda>(t, p). t \<noteq> tid) xs = xs"
        using Cons.hyps(2) [symmetric] Cons.prems(1) x True by (force simp: filter_id_conv)
      with Cons.hyps(2) [symmetric] x True show ?thesis by simp
    next
      case False
      with Cons.hyps(1) [of "s\<lparr>pending := xs\<rparr>"] Cons.hyps(2) [symmetric] Cons.prems x show ?thesis by auto
    qed
  qed simp
  moreover have "distinct (map fst ?p)" using assms(1) by (rule distinct_map_filter)
  ultimately show ?thesis using assms(3-5) by (auto simp: slots_ok_def end_query_def)
qed


lemma slots_ok_outbox [simp]: "slots_ok cfg (s\<lparr>outbox := b\<rparr>) = slots_ok cfg s"
  by (simp add: slots_ok_def)

lemma end_query_ok:
  assumes "slots_ok cfg s" and "tid \<in> set (map fst (pending s))"
  shows "slots_ok cfg (fst (end_query tid s))"
  using assms by (intro end_query_slots) (auto simp: slots_ok_def)

lemma end_query_node_ok: "node_ok cfg s \<Longrightarrow> node_ok cfg (fst (end_query tid s))"
  by (simp add: end_query_def node_ok_def)

lemma finish_query_ok:
  assumes ok: "node_ok cfg s" and sl: "slots_ok cfg s" and tid: "tid \<in> set (map fst (pending s))"
  shows "node_ok cfg (fst (finish_query cfg clk tid s)) \<and> slots_ok cfg (fst (finish_query cfg clk tid s))"
proof -
  from tid obtain p where p: "map_of (pending s) tid = Some p" by (metis map_of_eq_None_iff not_None_eq set_map)
  have out: "node_ok cfg (fst (end_query tid s)) \<and> slots_ok cfg (fst (end_query tid s))"
    using end_query_node_ok [OF ok] end_query_ok [OF sl tid] by blast
  show ?thesis
  proof (cases "\<exists>nid. pq_future p = None \<and> pq_expected p = Some nid \<and> nid \<noteq> []")
    case True
    then obtain nid where n: "pq_future p = None" "pq_expected p = Some nid" "nid \<noteq> []" by blast
    have "length nid = 20" using sl map_of_SomeD [OF p] n(2) by (auto simp: slots_ok_def)
    moreover have "table_wf cfg (routing s)" "0 < DHT_ROUTING_BAD_AFTER_FAILURES cfg"
      using ok by (simp_all add: node_ok_def node_config_def)
    ultimately obtain t where t: "mark_failure cfg clk (routing s) nid = Inr t" "table_wf cfg t"
      "local_node_id t = local_node_id (routing s)"
      using mark_failure_spec [of cfg "routing s" nid clk] by blast
    then have "node_ok cfg (s\<lparr>routing := t\<rparr>)" using ok by (simp add: node_ok_def)
    moreover have "slots_ok cfg (s\<lparr>routing := t\<rparr>)" using sl by (simp add: slots_ok_def)
    ultimately show ?thesis
      using p n t(1) end_query_node_ok end_query_ok [of cfg "s\<lparr>routing := t\<rparr>" tid] tid
      by (simp add: finish_query_def)
  next
    case False
    then have "fst (finish_query cfg clk tid s) = fst (end_query tid s)"
      using p by (auto simp: finish_query_def split: option.splits sum.splits)
    with out show ?thesis by simp
  qed
qed

lemma begin_query_ok:
  assumes ok: "node_ok cfg s" and sl: "slots_ok cfg s" and free: "0 < free_slots s"
    and nid: "\<forall>nid. expected = Some nid \<longrightarrow> length nid = 20"
  shows "node_ok cfg (fst (begin_query cfg ep m args expected s)) \<and> slots_ok cfg (fst (begin_query cfg ep m args expected s))"
proof -
  let ?s0 = "s\<lparr>free_slots := free_slots s - 1\<rparr>"
  from next_tid_succeeds [OF sl free] obtain c tid where
    "next_tid s = (s\<lparr>tx_counter := c\<rparr>, Inr tid)" and tid: "tid \<notin> set (map fst (pending s))" "length tid = 2" by blast
  then have n: "next_tid ?s0 = (?s0\<lparr>tx_counter := c\<rparr>, Inr tid)"
    by (auto simp: next_tid_def split: prod.splits dest!: arg_cong [of _ _ tx_counter])
  let ?s1 = "?s0\<lparr>tx_counter := c, pending := pending s @ [(tid,
      \<lparr>pq_query = m, pq_endpoint = ep, pq_expected = expected, pq_future = None\<rparr>)]\<rparr>"
  have s1: "node_ok cfg ?s1" "slots_ok cfg ?s1" "tid \<in> set (map fst (pending ?s1))"
    using ok sl free tid nid by (auto simp: node_ok_def slots_ok_def)
  obtain s2 r where r: "send (query_message cfg (?s0\<lparr>tx_counter := c\<rparr>) tid m args) ep ?s1 = (s2, r)" by fastforce
  then have s2: "s2 = ?s1 \<or> (\<exists>b. s2 = ?s1\<lparr>outbox := b\<rparr>)"
    by (auto simp: send_def split: if_splits sum.splits)
  then have s2': "node_ok cfg s2 \<and> slots_ok cfg s2 \<and> tid \<in> set (map fst (pending s2))"
  proof
    assume "s2 = ?s1"
    then show ?thesis using s1 by blast
  next
    assume "\<exists>b. s2 = ?s1\<lparr>outbox := b\<rparr>"
    then obtain b where "s2 = ?s1\<lparr>outbox := b\<rparr>" ..
    then show ?thesis using s1 by (simp only: node_ok_frame slots_ok_outbox) simp
  qed
  have "fst (begin_query cfg ep m args expected s) = (case r of Inl x \<Rightarrow> fst (end_query tid s2) | Inr u \<Rightarrow> s2)"
    using n r by (auto simp: begin_query_def bind_run_def Let_def split: sum.splits)
  with s2' end_query_node_ok [of cfg s2 tid] end_query_ok [of cfg s2 tid] show ?thesis
    by (auto split: sum.splits)
qed

lemma datagram_node_ok: "node_ok cfg s \<Longrightarrow> node_ok cfg (fst (datagram_received cfg e data ep s))"
  by (rule safeD [OF handle_datagram_safe])

interpretation nodes: machine_invariant "node_init cfg" "node_step cfg" "\<lambda>s. node_ok cfg s \<and> slots_ok cfg s" for cfg
proof unfold_locales
  fix s e s'
  assume i: "node_init cfg s"
  then obtain now where t: "new_table (own_id s) now = Inr (routing s)" by (auto simp: node_init_def)
  then have "routing s = \<lparr>local_node_id = own_id s, buckets = [new_bucket 0 DHT_ID_SPACE now], events = []\<rparr>"
    by (simp add: new_table_def split: if_splits)
  with new_table_wf [OF t] have "table_wf cfg (routing s)" "local_node_id (routing s) = own_id s"
    by simp_all
  moreover have "tm_ok cfg (secrets s)"
    using i by (auto simp: node_init_def node_config_def tm_ok_def new_token_manager_def)
  moreover have "store_ok cfg []"
    using i by (auto simp: node_init_def node_config_def store_ok_def store_limits_def)
  ultimately show "node_ok cfg s \<and> slots_ok cfg s"
    using i by (auto simp: node_init_def node_ok_def slots_ok_def)
next
  fix s e s'
  assume ok: "node_ok cfg s \<and> slots_ok cfg s" and st: "node_step cfg s e s'"
  from st show "node_ok cfg s' \<and> slots_ok cfg s'"
  proof cases
    case (datagram data ep ev)
    with ok show ?thesis by (simp add: datagram_node_ok datagram_slots)
  next
    case (begun ep expected m args)
    with ok show ?thesis using begin_query_ok by blast
  next
    case (ended tid clk)
    with ok show ?thesis using finish_query_ok by blast
  qed
qed


section \<open>Announcing with a token\<close>

lemma announce_accepted:
  assumes ok: "node_ok cfg s" and tok: "token_accepted cfg e s args (fst ep)"
    and k: "require_20 args ''info_hash'' = Inr k" and port: "announce_port args ep = Inr (port, i)"
    and al: "endpoint_allowed cfg (local_ips s) (fst ep) port"
  shows "stored (fst (incoming_announce_peer cfg e args ep s)) k (fst ep, port)"
    and "snd (incoming_announce_peer cfg e args ep s) = Inr [(key ''id'', PBytes (own_id s))]"
proof -
  obtain token tm where t: "dget args ''token'' = Some (PBytes token)"
    "validate cfg (e_token e) (e_fresh_prev e) (e_fresh_cur e) (secrets s) (fst ep) token = (tm, Inr True)"
    using tok unfolding token_accepted_def by (metis prod.collapse)
  have "store_ok cfg (peers_stored s)" "store_limits cfg" using ok by (simp_all add: node_ok_def node_config_def)
  from add_spec [OF this, of "e_store e" k "(fst ep, port)"] obtain st where
    st: "add cfg (e_store e) (peers_stored s) k (fst ep, port) = Inr st"
    "seen_at st k (fst ep, port) = Some (e_store e 1)" by blast
  have "\<exists>c. incoming_announce_peer cfg e args ep s =
      (s\<lparr>secrets := tm, peers_stored := st, candidates := c\<rparr>, Inr [(key ''id'', PBytes (own_id s))])"
    using t k port al st(1)
    by (simp add: incoming_announce_peer_def bind_run_def lift_run_def validate_run_def py_def store_peer_def
        submit_run_def) (rule exI, rule refl)
  then show "stored (fst (incoming_announce_peer cfg e args ep s)) k (fst ep, port)"
    "snd (incoming_announce_peer cfg e args ep s) = Inr [(key ''id'', PBytes (own_id s))]"
    using st(2) by (auto simp: stored_def)
qed

lemma announce_datagram_stores:
  assumes ok: "node_ok cfg s" and ro: "\<not> DHT_READ_ONLY cfg" and len: "int (length data) \<le> DHT_RECEIVE_MAX_BYTES cfg"
    and env: "envelope cfg data = Some (msg, tid, ascii ''q'')"
    and q: "dget msg ''q'' = Some (PBytes (ascii ''announce_peer''))" "dget msg ''a'' = Some (PDict args)"
      "require_20 args ''id'' = Inr nid" "require_20 args ''info_hash'' = Inr k"
    and port: "announce_port args ep = Inr (port, i)" and al: "endpoint_allowed cfg (local_ips s) (fst ep) port"
    and tok: "token_accepted cfg e s args (fst ep)"
  shows "stored (fst (datagram_received cfg e data ep s)) k (fst ep, port)"
proof -
  let ?o = "observe_allowed cfg (e_observe e) nid ep False True (truthy (dget msg ''ro'')) (version_of msg)"
  let ?s = "fst (?o s)" and ?m = "ascii ''announce_peer''"
  have s1: "node_ok cfg ?s" by (rule safeD [OF observe_allowed_safe ok])
  have no: "snd (?o s) \<noteq> Inl x" for x
    using safe_exn [OF observe_allowed_safe [of cfg "\<lambda>_. False"] ok] by blast
  have same: "secrets ?s = secrets s" "local_ips ?s = local_ips s"
    using keeps_observe_allowed [of secrets] keeps_observe_allowed [of local_ips] by (simp_all add: keeps_def)
  have nid: "dget args ''id'' = Some (PBytes nid)" "length nid = 20"
    using q(3) by (auto simp: require_20_def split: option.splits pyval.splits if_splits)
  have "fst (datagram_received cfg e data ep s) = fst (handle_query cfg e msg tid ep s)"
    using ro len by (simp add: datagram_received_def handle_datagram_def env)
  also have "handle_query cfg e msg tid ep s = catch_errors cfg tid ep (try_query cfg e tid ?m args ep) ?s"
    using q(1,2) nid no by (cases "?o s"; cases "snd (?o s)") (auto simp: handle_query_def bind_run_def)
  finally have p: "peers_stored (fst (datagram_received cfg e data ep s)) = peers_stored (fst (dispatch cfg e ?m args ep ?s))"
    by (simp add: catch_errors_peers try_query_peers)
  have "token_accepted cfg e ?s args (fst ep)" "endpoint_allowed cfg (local_ips ?s) (fst ep) port"
    using tok al same by (simp_all add: token_accepted_def)
  from announce_accepted [OF s1 this(1) q(4) port this(2)]
  have "stored (fst (dispatch cfg e ?m args ep ?s)) k (fst ep, port)"
    by (auto simp: dispatch_def bind_run_def return_run_def split: prod.splits sum.splits)
  with p show ?thesis by (simp add: stored_def)
qed

section \<open>A node to try things on\<close>

definition demo_node :: node where
  "demo_node = \<lparr>own_id = replicate 20 0, own_version = ascii ''qB7K'', routing = demo_start,
     secrets = new_token_manager 0 [5] [6], peers_stored = [], candidates = new_manager 5000, pending = [],
     tx_counter = 65535, free_slots = 200, local_ips = {ascii ''127.0.0.1''}, sample_cache = None,
     transport_up = True, closing = False, outbox = []\<rparr>"

definition demo_env :: env where
  "demo_env = \<lparr>e_observe = (\<lambda>_. 7), e_child = (\<lambda>_ _. 7), e_closest = (\<lambda>_. 7), e_token = (\<lambda>_. 7), e_store = (\<lambda>_. 7),
     e_submit = (\<lambda>_. 7), e_wall = (\<lambda>_. 7), e_now = 7, e_fresh_prev = [1], e_fresh_cur = [2], e_pick = (\<lambda>ks n. take n ks)\<rparr>"

lemma demo_node_init: "node_init default_config demo_node"
proof -
  have "new_table (replicate 20 0) 0 = Inr demo_start" by (simp add: new_table_def demo_start_def)
  moreover have "0 < nanos (DHT_TOKEN_ROTATION_INTERVAL default_config)" by (simp only: default_intervals)
  moreover have "0 < DHT_ROUTING_BAD_AFTER_FAILURES default_config" "DHT_MAX_PENDING_REQUESTS default_config = 200"
    by (simp_all add: default_config_def)
  ultimately show ?thesis
    by (auto simp: node_init_def node_config_def demo_node_def default_store_limits)
qed

lemma demo_node_reachable: "reachable (node_init default_config) (node_step default_config) demo_node"
  by (rule reachable.start) (rule demo_node_init)

lemma demo_endpoint: "endpoint_allowed default_config {ascii ''127.0.0.1''} (ascii ''9.8.7.6'') 6881"
proof -
  have "is_global 151521030"
    by (simp add: is_global_def is_private_def private_networks_def private_networks_exceptions_def
        in_network_def quad_def mask_eq_exp_minus_1)
  moreover have "show_ipv4 151521030 = ascii ''9.8.7.6''"
    by (simp add: show_ipv4_def ipv4_packed_def dec_digits_eval ascii_def)
  ultimately show ?thesis
    using demo_ip by (simp add: endpoint_allowed_def valid_port_def default_config_def)
qed

definition demo_args :: pdict where
  "demo_args = [(key ''id'', PBytes (replicate 20 1)), (key ''info_hash'', PBytes (replicate 20 2)),
     (key ''port'', PInt 6881), (key ''token'', PBytes demo_token)]"

definition demo_msg :: pdict where
  "demo_msg = [(key ''a'', PDict demo_args), (key ''q'', PBytes (ascii ''announce_peer'')),
     (key ''t'', PBytes [1, 2]), (key ''y'', PBytes (ascii ''q''))]"

lemma demo_token_length: "length demo_token = 8"
  by (simp add: demo_token_def length_sha1)

lemma demo_envelope: "envelope default_config (wire_enc (PDict demo_msg)) = Some (demo_msg, [1, 2], ascii ''q'')"
proof -
  note l = demo_token_length
  have "decode (krpc_limits default_config) True (wire_enc (PDict demo_msg)) = Inr (PDict demo_msg)"
    unfolding decode_iff using l
    by (simp add: demo_msg_def demo_args_def key_def krpc_limits_def default_config_def keys_ok_def is_bytes_key_def
        string_fits_def int_max_str_digits_def dec_digits_eval ascii_def)
  then show ?thesis by (simp add: envelope_def demo_msg_def dget_def key_def)
qed

text \<open>What accepting a response does before the query's future is resolved.\<close>

definition take_response :: "config \<Rightarrow> env \<Rightarrow> pdict \<Rightarrow> pending_query \<Rightarrow> pdict \<Rightarrow> bytes \<Rightarrow> endpoint \<Rightarrow> unit run" where
  "take_response cfg e msg p response nid ep =
     bind_run (observe_allowed cfg (e_observe e) nid ep True False False (version_of msg)) (\<lambda>_.
     bind_run (parse_response_contacts cfg e response) (\<lambda>_. submit_samples cfg e (pq_query p) response))"

lemma accept_response_split:
  "accept_response cfg e msg tid p response nid ep s =
     bind_run (take_response cfg e msg p response nid ep) (\<lambda>_. resolve tid (Inr response)) s"
  by (auto simp: accept_response_def take_response_def bind_run_def split: prod.splits sum.splits)

lemma take_response_pending: "pending (fst (take_response cfg e msg p response nid ep s)) = pending s"
proof -
  have "keeps pending (take_response cfg e msg p response nid ep)"
    unfolding take_response_def
    by (intro keeps_rules keeps_observe_allowed keeps_parse_response_contacts keeps_submit_samples) simp_all
  then show ?thesis by (simp add: keeps_def)
qed

lemma accept_resolves:
  assumes "node_ok cfg s"
  shows "pending (fst (accept_response cfg e msg tid p response nid ep s)) =
    map (\<lambda>(u, p). if u = tid \<and> pq_future p = None then (u, p\<lparr>pq_future := Some (Inr response)\<rparr>) else (u, p)) (pending s)"
proof -
  have "safe (node_ok cfg) (\<lambda>_. False) (take_response cfg e msg p response nid ep)"
    unfolding take_response_def by (intro safe_rules parse_response_contacts_safe)
  then have "snd (take_response cfg e msg p response nid ep s) \<noteq> Inl x" for x
    using safe_exn assms by blast
  then show ?thesis
    using take_response_pending [of cfg e msg p response nid ep s]
    by (cases "take_response cfg e msg p response nid ep s"; cases "snd (take_response cfg e msg p response nid ep s)")
      (auto simp: accept_response_split bind_run_def resolve_def)
qed

lemma map_of_resolve:
  assumes "map_of (map (\<lambda>(u, p). if u = t \<and> pq_future p = None then (u, p\<lparr>pq_future := Some x\<rparr>) else (u, p)) ps) tid = Some p'"
    and "map_of ps tid = Some p" and "pq_future p = None" and "pq_future p' = Some r"
  shows "tid = t \<and> p' = p\<lparr>pq_future := Some x\<rparr> \<and> r = x"
  using assms
proof (induction ps)
  case (Cons a ps)
  then show ?case by (cases a) (auto split: if_splits)
qed simp

lemma default_not_read_only: "\<not> DHT_READ_ONLY default_config"
  by (simp add: default_config_def)

lemma demo_len: "int (length (wire_enc (PDict demo_msg))) \<le> DHT_RECEIVE_MAX_BYTES default_config"
  using demo_token_length
  by (simp add: demo_msg_def demo_args_def key_def dict_enc_def pair_enc_def enc_bytes_def enc_int_def int_text_def
      dec_digits_eval default_config_def)

section \<open>Properties\<close>

text \<open>C19. No datagram brings the node down: whatever bytes arrive from whatever endpoint, in every
  state a running node reaches, they are handled without an exception.\<close>

theorem datagram_handled:
  assumes "reachable (node_init cfg) (node_step cfg) s"
  shows "\<exists>s'. datagram_received cfg e data ep s = (s', Inr ())"
proof -
  have "node_ok cfg s" using nodes.reachable_inv [OF assms] by blast
  then have "snd (datagram_received cfg e data ep s) \<noteq> Inl x" for x
    using safe_exn [OF handle_datagram_safe [of cfg "\<lambda>_. False"]] by blast
  then show ?thesis
    by (cases "datagram_received cfg e data ep s"; cases "snd (datagram_received cfg e data ep s)") auto
qed

text \<open>C20. A datagram is answered by at most one datagram, of at most 1024 bytes, and only to the
  endpoint it came from.\<close>

theorem one_reply_to_sender:
  "outbox (fst (datagram_received cfg e data ep s)) = outbox s
   \<or> (\<exists>payload. outbox (fst (datagram_received cfg e data ep s)) = outbox s @ [(payload, ep)]
        \<and> length payload \<le> 1024)"
  using datagram_reply [of ep cfg e data] by (simp add: one_reply_def MAX_DHT_RESPONSE_BYTES_def)

text \<open>C21. Transaction identifiers and pending slots: in every state a running node reaches the
  pending queries have distinct two-byte identifiers, they and the free slots add up to the
  configured number, and a query that finds a free slot gets an identifier no pending query
  has. Sending or ending a query never loses a slot.\<close>

theorem query_slots_conserved:
  assumes "reachable (node_init cfg) (node_step cfg) s"
  shows "distinct (map fst (pending s)) \<and> (\<forall>tid \<in> set (map fst (pending s)). length tid = 2)
    \<and> int (length (pending s)) + int (free_slots s) = DHT_MAX_PENDING_REQUESTS cfg
    \<and> (0 < free_slots s \<longrightarrow> (\<exists>c tid. next_tid s = (s\<lparr>tx_counter := c\<rparr>, Inr tid) \<and> tid \<notin> set (map fst (pending s))))"
proof -
  have ok: "slots_ok cfg s" using nodes.reachable_inv [OF assms] by blast
  then show ?thesis using next_tid_succeeds [OF ok] by (auto simp: slots_ok_def)
qed

text \<open>C22. A response or error resolves a pending query only if it comes from the endpoint the query
  went to; a response moreover only if it carries a node identifier, the expected one where one
  was expected, and the fields an answer to that query must have.\<close>

theorem response_must_match:
  assumes before: "map_of (pending s) tid = Some p" "pq_future p = None"
    and after: "map_of (pending (fst (datagram_received cfg e data ep s))) tid = Some p'" "pq_future p' = Some r"
  shows "ep = pq_endpoint p \<and> pq_endpoint p' = pq_endpoint p
    \<and> (\<forall>response. r = Inr response \<longrightarrow> (\<exists>nid. dget response ''id'' = Some (PBytes nid) \<and> length nid = 20
         \<and> (pq_expected p = None \<or> pq_expected p = Some nid)) \<and> response_matches_query (pq_query p) response)"
proof -
  have q: "pending (fst (handle_query cfg e msg tid ep s)) = pending s" for msg tid
    using keeps_handle_query [of pending cfg e msg tid ep] by (simp add: keeps_def)
  have changed: "pending (fst (datagram_received cfg e data ep s)) \<noteq> pending s" using before after by auto
  then obtain msg t y where env: "envelope cfg data = Some (msg, t, y)" and "y \<noteq> ascii ''q''"
    and d: "fst (datagram_received cfg e data ep s) = fst (handle_response cfg e msg t (y = ascii ''e'') ep s)"
    using q by (auto simp: datagram_received_def handle_datagram_def return_run_def split: option.splits if_splits)
  have res: "pending (fst (resolve t x s)) = map (\<lambda>(u, p). if u = t \<and> pq_future p = None
      then (u, p\<lparr>pq_future := Some x\<rparr>) else (u, p)) (pending s)" for x and s :: node
    by (simp add: resolve_def)
  from handle_response_cases [of cfg e msg t "y = ascii ''e''" ep s] show ?thesis
  proof cases
    case ignored
    with changed d show ?thesis by simp
  next
    case (failed p0)
    with d have m: "map_of (pending (fst (resolve t (Inl (remote_error cfg msg)) s))) tid = Some p'" using after by simp
    from map_of_resolve [OF m [unfolded res] before after(2)] failed(1,2) before(1) show ?thesis by auto
  next
    case (accepted p0 response nid)
    let ?m = "take_response cfg e msg p0 response nid ep"
    have k: "pending (fst (?m s)) = pending s" by (rule take_response_pending)
    have "fst (accept_response cfg e msg t p0 response nid ep s) = fst (?m s)
        \<or> fst (accept_response cfg e msg t p0 response nid ep s) = fst (resolve t (Inr response) (fst (?m s)))"
      by (auto simp: accept_response_split bind_run_def split: prod.splits sum.splits)
    then have "pending (fst (accept_response cfg e msg t p0 response nid ep s)) = pending s
        \<or> map_of (pending (fst (resolve t (Inr response) (fst (?m s))))) tid = Some p'"
      using k accepted d after by auto
    with changed d accepted(9) have m: "map_of (pending (fst (resolve t (Inr response) (fst (?m s))))) tid = Some p'" by auto
    from map_of_resolve [OF m [unfolded res k] before after(2)] accepted before(1) show ?thesis by auto
  qed
qed

text \<open>C23. A peer is stored only for the address it announced itself from, at an allowed endpoint,
  and against a token the token manager accepts from that address: whatever datagram arrives,
  every endpoint it adds to the peer store has the sender's address.\<close>

theorem announce_needs_token:
  assumes reach: "reachable (node_init cfg) (node_step cfg) s"
    and new: "stored (fst (datagram_received cfg e data ep s)) k p" and old: "\<not> stored s k p"
  shows "fst p = fst ep \<and> endpoint_allowed cfg (local_ips s) (fst p) (snd p)
    \<and> (\<exists>msg tid args. envelope cfg data = Some (msg, tid, ascii ''q'')
         \<and> dget msg ''q'' = Some (PBytes (ascii ''announce_peer'')) \<and> dget msg ''a'' = Some (PDict args)
         \<and> dget args ''info_hash'' = Some (PBytes k) \<and> token_accepted cfg e s args (fst ep))"
proof -
  have ok: "node_ok cfg s" using nodes.reachable_inv [OF reach] by blast
  have hr: "peers_stored (fst (handle_response cfg e msg tid b ep s)) = peers_stored s" for msg tid b
    using keeps_handle_response [of peers_stored cfg e msg tid b ep] by (simp add: keeps_def resolve_def)
  have changed: "fst (datagram_received cfg e data ep s) \<noteq> s" using new old by auto
  then obtain msg tid y where env0: "envelope cfg data = Some (msg, tid, y)"
    by (auto simp: datagram_received_def handle_datagram_def return_run_def split: option.splits if_splits)
  have y: "y = ascii ''q''"
  proof (rule ccontr)
    assume "y \<noteq> ascii ''q''"
    with env0 hr have "peers_stored (fst (datagram_received cfg e data ep s)) = peers_stored s"
      by (simp add: datagram_received_def handle_datagram_def return_run_def)
    with new old show False by (simp add: stored_def)
  qed
  note env = env0 [unfolded y]
  have q: "fst (datagram_received cfg e data ep s) = fst (handle_query cfg e msg tid ep s)"
  proof -
    have "fst (datagram_received cfg e data ep s) = (if DHT_RECEIVE_MAX_BYTES cfg < int (length data) \<or> DHT_READ_ONLY cfg
        then s else fst (handle_query cfg e msg tid ep s))"
      by (simp add: datagram_received_def handle_datagram_def return_run_def env)
    with changed show ?thesis by presburger
  qed
  have r: "require_20 args k0 = Inr k \<Longrightarrow> dget args k0 = Some (PBytes k)" for args k0
    by (simp add: require_20_def split: option.splits pyval.splits if_splits)
  from handle_query_stores [OF ok new [unfolded q] old] env r show ?thesis by blast
qed


text \<open>C24. A token does what it is for: when the node issued a token to an address, an announcement
  with that token that arrives from the address within the validity less one rotation interval
  is stored, whatever token requests came in between and whatever else the datagram holds.\<close>

theorem announce_with_token_stored:
  assumes reach: "reachable (node_init cfg) (node_step cfg) s" and mgr: "tm_ok cfg tm"
    and issued: "issue cfg clk0 fp0 fc0 tm (fst ep) = (tm0, Inr token)"
    and secrets: "secrets s = fold (serve_call cfg) calls tm0"
    and times: "list_all (\<lambda>k. call_time k \<le> e_token e 0) calls" "e_token e 0 \<le> e_token e 1"
      "nanos (DHT_TOKEN_VALIDITY cfg) \<le> 2 * nanos (DHT_TOKEN_ROTATION_INTERVAL cfg)"
      "e_token e 1 - clk0 0 \<le> nanos (DHT_TOKEN_VALIDITY cfg) - nanos (DHT_TOKEN_ROTATION_INTERVAL cfg)"
    and datagram: "\<not> DHT_READ_ONLY cfg" "int (length data) \<le> DHT_RECEIVE_MAX_BYTES cfg"
      "envelope cfg data = Some (msg, tid, ascii ''q'')"
    and query: "dget msg ''q'' = Some (PBytes (ascii ''announce_peer''))" "dget msg ''a'' = Some (PDict args)"
      "require_20 args ''id'' = Inr nid" "require_20 args ''info_hash'' = Inr k"
      "announce_port args ep = Inr (port, i)" "dget args ''token'' = Some (PBytes token)"
    and allowed: "endpoint_allowed cfg (local_ips s) (fst ep) port"
  shows "stored (fst (datagram_received cfg e data ep s)) k (fst ep, port)"
proof (rule announce_datagram_stores [OF _ datagram query(1-5) allowed])
  show "node_ok cfg s" using nodes.reachable_inv [OF reach] by blast
  from issued_accepted [OF mgr issued times] secrets query(6)
  show "token_accepted cfg e s args (fst ep)" by (simp add: token_accepted_def)
qed

lemma demo_fields:
  "dget demo_msg ''q'' = Some (PBytes (ascii ''announce_peer''))" "dget demo_msg ''a'' = Some (PDict demo_args)"
  "require_20 demo_args ''id'' = Inr (replicate 20 1)" "require_20 demo_args ''info_hash'' = Inr (replicate 20 2)"
  "announce_port demo_args (ascii ''9.8.7.6'', 9) = Inr (6881, False)"
  "dget demo_args ''token'' = Some (PBytes demo_token)"
  by (simp_all add: demo_msg_def demo_args_def dget_def key_def require_20_def announce_port_def)

lemma demo_issue: "issue default_config (\<lambda>_. 7) [1] [2] (new_token_manager 0 [5] [6]) (ascii ''9.8.7.6'') =
    (new_token_manager 0 [5] [6], Inr demo_token)"
  using demo_derive by (simp add: issue_def demo_rotate) (simp add: new_token_manager_def)

lemma announce_with_token_stored_witness:
  "stored (fst (datagram_received default_config demo_env (wire_enc (PDict demo_msg)) (ascii ''9.8.7.6'', 9) demo_node))
     (replicate 20 2) (ascii ''9.8.7.6'', 6881)"
proof -
  have tm: "tm_ok default_config (new_token_manager 0 [5] [6])"
    by (rule manager_ok [OF demo_manager])
  show ?thesis
    by (rule announce_with_token_stored [where calls = "[]" and ep = "(ascii ''9.8.7.6'', 9)" and port = 6881, simplified,
          OF demo_node_reachable tm demo_issue _ _ _ _ _ demo_len demo_envelope demo_fields(1-6)])
      (simp_all add: default_intervals demo_env_def demo_node_def demo_endpoint default_not_read_only)
qed


lemma datagram_handled_witness:
  "\<exists>s'. datagram_received default_config demo_env (wire_enc (PDict demo_msg)) (ascii ''9.8.7.6'', 9) demo_node = (s', Inr ())"
  by (rule datagram_handled [OF demo_node_reachable])

lemma query_slots_conserved_witness:
  "int (length (pending demo_node)) + int (free_slots demo_node) = DHT_MAX_PENDING_REQUESTS default_config
   \<and> (\<exists>c tid. next_tid demo_node = (demo_node\<lparr>tx_counter := c\<rparr>, Inr tid))"
  using query_slots_conserved [OF demo_node_reachable] by (auto simp: demo_node_def)

lemma demo_stored:
  "stored (fst (datagram_received default_config demo_env (wire_enc (PDict demo_msg)) (ascii ''9.8.7.6'', 9) demo_node))
     (replicate 20 2) (ascii ''9.8.7.6'', 6881)"
proof -
  have "node_ok default_config demo_node" using nodes.reachable_inv [OF demo_node_reachable] by blast
  moreover have "token_accepted default_config demo_env demo_node demo_args (fst (ascii ''9.8.7.6'', 9 :: int))"
    using demo_fields(6) issued_accepted [OF manager_ok [OF demo_manager] demo_issue, where calls = "[]" and clk = "e_token demo_env"]
    by (simp add: token_accepted_def demo_node_def demo_env_def default_intervals)
  moreover have "endpoint_allowed default_config (local_ips demo_node) (fst (ascii ''9.8.7.6'', 9 :: int)) 6881"
    by (simp add: demo_node_def demo_endpoint)
  ultimately show ?thesis
    using announce_datagram_stores [OF _ default_not_read_only demo_len demo_envelope demo_fields(1-5)] by simp
qed

lemma announce_needs_token_witness:
  "stored (fst (datagram_received default_config demo_env (wire_enc (PDict demo_msg)) (ascii ''9.8.7.6'', 9) demo_node))
     (replicate 20 2) (ascii ''9.8.7.6'', 6881)
   \<and> (\<exists>args. token_accepted default_config demo_env demo_node args (ascii ''9.8.7.6''))"
proof -
  have "\<not> stored demo_node (replicate 20 2) (ascii ''9.8.7.6'', 6881)"
    by (simp add: stored_def demo_node_def seen_at_def)
  from announce_needs_token [OF demo_node_reachable demo_stored this] demo_stored show ?thesis by auto
qed

text \<open>A node with a ping pending, and the response that resolves it.\<close>

definition waiting_node :: node where
  "waiting_node = demo_node\<lparr>pending := [([0, 0], \<lparr>pq_query = ascii ''ping'', pq_endpoint = (ascii ''9.8.7.6'', 9),
     pq_expected = Some (replicate 20 1), pq_future = None\<rparr>)], free_slots := 199\<rparr>"

definition pong :: pdict where
  "pong = [(key ''r'', PDict [(key ''id'', PBytes (replicate 20 1))]), (key ''t'', PBytes [0, 0]), (key ''y'', PBytes (ascii ''r''))]"

lemma response_must_match_witness:
  "\<exists>p'. map_of (pending (fst (datagram_received default_config demo_env (wire_enc (PDict pong)) (ascii ''9.8.7.6'', 9) waiting_node))) [0, 0]
      = Some p' \<and> pq_future p' \<noteq> None \<and> pq_endpoint p' = (ascii ''9.8.7.6'', 9)"
proof -
  have ok: "node_ok default_config waiting_node"
    using nodes.reachable_inv [OF demo_node_reachable] by (simp add: waiting_node_def node_ok_def)
  have "decode (krpc_limits default_config) True (wire_enc (PDict pong)) = Inr (PDict pong)"
    unfolding decode_iff
    by (simp add: pong_def key_def krpc_limits_def default_config_def keys_ok_def is_bytes_key_def
        string_fits_def int_max_str_digits_def dec_digits_eval ascii_def)
  then have env: "envelope default_config (wire_enc (PDict pong)) = Some (pong, [0, 0], ascii ''r'')"
    by (simp add: envelope_def pong_def dget_def key_def)
  let ?p = "\<lparr>pq_query = ascii ''ping'', pq_endpoint = (ascii ''9.8.7.6'', 9), pq_expected = Some (replicate 20 1), pq_future = None\<rparr>"
  have len: "int (length (wire_enc (PDict pong))) \<le> DHT_RECEIVE_MAX_BYTES default_config"
    by (simp add: pong_def key_def dict_enc_def pair_enc_def enc_bytes_def dec_digits_eval default_config_def)
  have p: "map_of (pending waiting_node) [0, 0] = Some ?p" by (simp add: waiting_node_def)
  have "handle_response default_config demo_env pong [0, 0] False (ascii ''9.8.7.6'', 9) waiting_node =
      accept_response default_config demo_env pong [0, 0] ?p [(key ''id'', PBytes (replicate 20 1))] (replicate 20 1)
        (ascii ''9.8.7.6'', 9) waiting_node"
    using p by (simp add: handle_response_def pong_def dget_def key_def response_matches_query_def)
  then have d: "fst (datagram_received default_config demo_env (wire_enc (PDict pong)) (ascii ''9.8.7.6'', 9) waiting_node) =
      fst (accept_response default_config demo_env pong [0, 0] ?p [(key ''id'', PBytes (replicate 20 1))] (replicate 20 1)
        (ascii ''9.8.7.6'', 9) waiting_node)"
    using len env by (simp add: datagram_received_def handle_datagram_def)
  have after: "map_of (pending (fst (datagram_received default_config demo_env (wire_enc (PDict pong)) (ascii ''9.8.7.6'', 9) waiting_node))) [0, 0]
      = Some (?p\<lparr>pq_future := Some (Inr [(key ''id'', PBytes (replicate 20 1))])\<rparr>)"
    unfolding d accept_resolves [OF ok] by (simp add: waiting_node_def)
  from response_must_match [OF p _ after] show ?thesis using after by auto
qed

end
