(* ===== verification/Lookup.thy ===== *)
theory Lookup
  imports Krpc_Correct
begin

text \<open>
  \<open>DHTNode.iterative_get_peers\<close>: the lookup of the peers of a key. A round queries the closest
  known contacts that were not queried yet, up to the parallelism, and puts the nodes and
  peers of the answers into the shortlist and the result. The answers are an argument (what
  \<open>query\<close> returned for a contact in a round, \<open>None\<close> for an exception), as are the clock tests
  and what the other tasks did to the node and to the contacts while the round awaited them.
  The theorems: the lookup ends, asks nobody twice, stays within its bounds, returns allowed
  peers only, and does not stop early.
\<close>

section \<open>The lookup\<close>

record lookup_env =
  lk_in_time :: "nat \<Rightarrow> bool"
  lk_answer :: "nat \<Rightarrow> contact \<Rightarrow> pdict option"
  lk_others :: "nat \<Rightarrow> node \<Rightarrow> node"
  lk_refresh :: "nat \<Rightarrow> contact \<Rightarrow> contact"
  lk_clock :: "nat \<Rightarrow> nat \<Rightarrow> nat \<Rightarrow> nat \<Rightarrow> int"
  lk_closest :: "nat \<Rightarrow> int"

record lookup =
  shortlist :: "(bytes \<times> contact) list"
  queried :: "bytes list"
  peers :: "endpoint list"
  query_count :: int
  last_frontier :: "bytes list option"

definition ordered :: "bytes \<Rightarrow> lookup \<Rightarrow> pyexn + contact list" where
  "ordered target l =
     (let cs = map snd (shortlist l) in
      if list_ex (\<lambda>c. length (node_id c) \<noteq> 20 \<or> length target \<noteq> 20) cs
      then Inl (ValueError ''node IDs must be 20 bytes'')
      else Inr (sort_key (distance_key target) cs))"

definition next_batch :: "config \<Rightarrow> atext set \<Rightarrow> lookup \<Rightarrow> contact list \<Rightarrow> contact list" where
  "next_batch cfg loc l cs =
     take (nat (DHT_LOOKUP_PARALLELISM cfg))
       (filter (\<lambda>c. node_id c \<notin> set (queried l) \<and> endpoint_allowed cfg loc (ct_ip c) (ct_port c)) cs)"

text \<open>The peers of an answer; the loop over the values ends when the result is full.\<close>

fun absorb_values :: "config \<Rightarrow> atext set \<Rightarrow> pyval list \<Rightarrow> endpoint list \<Rightarrow> endpoint list" where
  "absorb_values cfg loc [] ps = ps"
| "absorb_values cfg loc (v # vs) ps =
     (case v of
        PBytes raw \<Rightarrow>
          (case parse_compact_peer raw of
             Inl x \<Rightarrow> absorb_values cfg loc vs ps
           | Inr ep \<Rightarrow>
               if endpoint_allowed cfg loc (fst ep) (snd ep) \<and> ep \<notin> set ps
               then (if MAX_PEERS_PER_TORRENT cfg \<le> int (length (ps @ [ep])) then ps @ [ep]
                     else absorb_values cfg loc vs (ps @ [ep]))
               else absorb_values cfg loc vs ps)
      | _ \<Rightarrow> absorb_values cfg loc vs ps)"

fun absorb_nodes :: "config \<Rightarrow> (nat \<Rightarrow> nat \<Rightarrow> int) \<Rightarrow> nat \<Rightarrow> (bytes \<times> atext \<times> int) list \<Rightarrow>
    (bytes \<times> contact) list \<Rightarrow> (bytes \<times> contact) list run" where
  "absorb_nodes cfg clk j [] sl = return_run sl"
| "absorb_nodes cfg clk j ((nid, ip, port) # ns) sl =
     (\<lambda>s. if endpoint_allowed cfg (local_ips s) ip port
          then bind_run (observe_run cfg (clk j) nid (ip, port) False False False None)
                 (\<lambda>c. absorb_nodes cfg clk (Suc j) ns (case c of None \<Rightarrow> sl | Some c' \<Rightarrow> AList.update nid c' sl)) s
          else absorb_nodes cfg clk (Suc j) ns sl s)"

definition absorb_response :: "config \<Rightarrow> (nat \<Rightarrow> nat \<Rightarrow> int) \<Rightarrow> pdict \<Rightarrow> lookup \<Rightarrow> lookup run" where
  "absorb_response cfg clk r l =
     (\<lambda>s. let l1 = (case dget r ''values'' of
                      Some (PList vs) \<Rightarrow> l\<lparr>peers := absorb_values cfg (local_ips s) vs (peers l)\<rparr>
                    | _ \<Rightarrow> l)
          in case dget r ''nodes'' of
               Some (PBytes raw) \<Rightarrow>
                 bind_run (absorb_nodes cfg clk 0 (case parse_compact_nodes raw 4 of Inl x \<Rightarrow> [] | Inr ns \<Rightarrow> ns) (shortlist l1))
                   (\<lambda>sl. return_run (l1\<lparr>shortlist := sl\<rparr>)) s
             | _ \<Rightarrow> (s, Inr l1))"

fun absorb_results :: "config \<Rightarrow> (nat \<Rightarrow> nat \<Rightarrow> nat \<Rightarrow> int) \<Rightarrow> nat \<Rightarrow> pdict option list \<Rightarrow> lookup \<Rightarrow> lookup run" where
  "absorb_results cfg clk i [] l = return_run l"
| "absorb_results cfg clk i (None # rs) l = absorb_results cfg clk (Suc i) rs l"
| "absorb_results cfg clk i (Some r # rs) l =
     bind_run (absorb_response cfg (clk i) r l) (\<lambda>l'. absorb_results cfg clk (Suc i) rs l')"

text \<open>One round; \<open>None\<close> is a \<open>break\<close>. Contacts keep their identifier for life.\<close>

definition await_round :: "lookup_env \<Rightarrow> nat \<Rightarrow> lookup \<Rightarrow> lookup" where
  "await_round e n l = l\<lparr>shortlist := map (\<lambda>(i, c). (i, (lk_refresh e n c)\<lparr>node_id := node_id c\<rparr>)) (shortlist l)\<rparr>"

definition lookup_round :: "config \<Rightarrow> lookup_env \<Rightarrow> bytes \<Rightarrow> nat \<Rightarrow> lookup \<Rightarrow> lookup option run" where
  "lookup_round cfg e target n l =
     (\<lambda>s. case ordered target l of
            Inl x \<Rightarrow> (s, Inl (Py x))
          | Inr cs \<Rightarrow>
              (let frontier = map node_id (take DHT_K cs);
                   batch = next_batch cfg (local_ips s) l cs
               in if batch = [] then (s, Inr None)
                  else if last_frontier l = Some frontier \<and> set frontier \<subseteq> set (queried l) then (s, Inr None)
                  else
                    bind_run (absorb_results cfg (lk_clock e n) 0 (map (lk_answer e n) batch)
                        (await_round e n (l\<lparr>last_frontier := Some frontier, queried := queried l @ map node_id batch,
                                            query_count := query_count l + int (length batch)\<rparr>)))
                      (\<lambda>l'. return_run (Some l')) (lk_others e n s)))"

lemma absorb_response_fields:
  "snd (absorb_response cfg clk r l s) = Inr l' \<Longrightarrow>
     queried l' = queried l \<and> query_count l' = query_count l \<and> last_frontier l' = last_frontier l"
  by (auto simp: absorb_response_def bind_run_def return_run_def Let_def
      split: option.splits pyval.splits prod.splits sum.splits)

lemma absorb_results_fields:
  "snd (absorb_results cfg clk i rs l s) = Inr l' \<Longrightarrow>
     queried l' = queried l \<and> query_count l' = query_count l \<and> last_frontier l' = last_frontier l"
proof (induction cfg clk i rs l arbitrary: s rule: absorb_results.induct)
  case (3 cfg clk i r rs l)
  obtain s1 q where q: "absorb_response cfg (clk i) r l s = (s1, q)" by fastforce
  with 3 obtain l1 where l1: "q = Inr l1" "snd (absorb_results cfg clk (Suc i) rs l1 s1) = Inr l'"
    by (cases q) (auto simp: bind_run_def)
  with 3(1) [OF l1(2)] q absorb_response_fields [of cfg "clk i" r l s l1] show ?case by simp
qed (auto simp: return_run_def)

lemma round_fields:
  assumes "lookup_round cfg e target n l s = (s', Inr (Some l'))"
  obtains cs where "ordered target l = Inr cs" and "next_batch cfg (local_ips s) l cs \<noteq> []"
    and "queried l' = queried l @ map node_id (next_batch cfg (local_ips s) l cs)"
    and "query_count l' = query_count l + int (length (next_batch cfg (local_ips s) l cs))"
    and "last_frontier l' = Some (map node_id (take DHT_K cs))"
proof -
  from assms obtain cs where cs: "ordered target l = Inr cs" by (auto simp: lookup_round_def split: sum.splits)
  let ?b = "next_batch cfg (local_ips s) l cs"
  let ?l = "await_round e n (l\<lparr>last_frontier := Some (map node_id (take DHT_K cs)), queried := queried l @ map node_id ?b,
      query_count := query_count l + int (length ?b)\<rparr>)"
  from assms cs have b: "?b \<noteq> []" and a: "snd (absorb_results cfg (lk_clock e n) 0 (map (lk_answer e n) ?b) ?l (lk_others e n s)) = Inr l'"
    by (auto simp: lookup_round_def Let_def bind_run_def return_run_def split: if_splits prod.splits sum.splits)
  from absorb_results_fields [OF a] that [OF cs b] show thesis by (simp add: await_round_def)
qed

lemma round_progress: "lookup_round cfg e target n l s = (s', Inr (Some l')) \<Longrightarrow> query_count l < query_count l'"
  by (erule round_fields) simp

function lookup_loop :: "config \<Rightarrow> lookup_env \<Rightarrow> bytes \<Rightarrow> nat \<Rightarrow> lookup \<Rightarrow> node \<Rightarrow> node \<times> (krpc_exn + lookup)" where
  "lookup_loop cfg e target n l s =
     (if lk_in_time e n \<and> query_count l < MAX_DHT_QUERIES_PER_TORRENT cfg
         \<and> int (length (peers l)) < MAX_PEERS_PER_TORRENT cfg
      then (case lookup_round cfg e target n l s of
              (s', Inl x) \<Rightarrow> (s', Inl x)
            | (s', Inr None) \<Rightarrow> (s', Inr l)
            | (s', Inr (Some l')) \<Rightarrow> lookup_loop cfg e target (Suc n) l' s')
      else (s, Inr l))"
  by pat_completeness auto
termination
  by (relation "measure (\<lambda>(cfg, e, target, n, l, s). nat (MAX_DHT_QUERIES_PER_TORRENT cfg - query_count l))")
    (auto dest: round_progress [OF sym])

declare lookup_loop.simps [simp del]

definition start_lookup :: "contact list \<Rightarrow> lookup" where
  "start_lookup cs =
     \<lparr>shortlist = fold (\<lambda>c. AList.update (node_id c) c) cs [], queried = [], peers = [], query_count = 0, last_frontier = None\<rparr>"

definition iterative_lookup :: "config \<Rightarrow> lookup_env \<Rightarrow> bytes \<Rightarrow> lookup run" where
  "iterative_lookup cfg e target =
     (\<lambda>s. if length target \<noteq> 20 then (s, Inl (Py (ValueError ''target key must be 20 bytes'')))
          else case closest cfg (lk_closest e) (routing s) target (nat (max (int DHT_K) (DHT_LOOKUP_PARALLELISM cfg))) False of
                 Inl x \<Rightarrow> (s, Inl (Py x))
               | Inr cs \<Rightarrow> lookup_loop cfg e target 0 (start_lookup cs) s)"

definition iterative_get_peers :: "config \<Rightarrow> lookup_env \<Rightarrow> bytes \<Rightarrow> endpoint list run" where
  "iterative_get_peers cfg e target =
     bind_run (iterative_lookup cfg e target) (\<lambda>l. return_run (take (nat (MAX_PEERS_PER_TORRENT cfg)) (peers l)))"

section \<open>Methods that deliver a result\<close>

text \<open>\<open>delivers I m Q\<close>: from a state in \<open>I\<close> the method returns, in a state in \<open>I\<close>, a result in \<open>Q\<close>.\<close>

definition delivers :: "(node \<Rightarrow> bool) \<Rightarrow> 'a run \<Rightarrow> ('a \<Rightarrow> bool) \<Rightarrow> bool" where
  "delivers I m Q \<longleftrightarrow> (\<forall>s. I s \<longrightarrow> (\<exists>s' x. m s = (s', Inr x) \<and> I s' \<and> Q x))"

lemma deliversD: "delivers I m Q \<Longrightarrow> I s \<Longrightarrow> \<exists>s' x. m s = (s', Inr x) \<and> I s' \<and> Q x"
  by (simp add: delivers_def)

lemma delivers_return: "Q x \<Longrightarrow> delivers I (return_run x) Q"
  by (simp add: delivers_def return_run_def)

lemma delivers_bind:
  assumes "delivers I m P" and "\<And>x. P x \<Longrightarrow> delivers I (g x) Q"
  shows "delivers I (bind_run m g) Q"
  using assms unfolding delivers_def bind_run_def by fastforce

text \<open>A running node with its addresses.\<close>

definition running :: "config \<Rightarrow> atext set \<Rightarrow> node \<Rightarrow> bool" where
  "running cfg loc s \<longleftrightarrow> node_ok cfg s \<and> local_ips s = loc"

lemma observe_delivers:
  "delivers (running cfg loc) (observe_run cfg clk nid ep d i ro ver)
     (\<lambda>c. \<forall>c'. c = Some c' \<longrightarrow> node_id c' = nid \<and> length nid = 20)"
  unfolding delivers_def
proof (intro allI impI)
  fix s assume r: "running cfg loc s"
  then have wf: "table_wf cfg (routing s)" and pos: "0 < DHT_ROUTING_BAD_AFTER_FAILURES cfg"
    by (simp_all add: running_def node_ok_def node_config_def)
  from observe_spec [OF wf pos, of clk nid "fst ep" "snd ep" d i ro ver] obtain t c where
    o: "observe cfg clk (routing s) nid (fst ep) (snd ep) d i ro ver = Inr (t, c)"
    "c = sighting_result cfg clk (routing s) nid (fst ep) (snd ep) d i ro ver"
    "table_wf cfg t" "local_node_id t = local_node_id (routing s)" by blast
  have "node_id old = nid" if "length nid = 20" "find (routing s) nid = Inr (Some old)" for old
  proof -
    from find_wf [OF wf that(1)] that(2)
    obtain i where "List.find (\<lambda>c. node_id c = nid) (contacts (buckets (routing s) ! i)) = Some old" by (metis sum.inject(2))
    then show ?thesis by (auto simp: List.find_Some_iff)
  qed
  then have "node_id c' = nid \<and> length nid = 20" if "c = Some c'" for c'
    using that o(2) by (auto simp: sighting_result_def split: if_splits sum.splits option.splits)
  with o r show "\<exists>s' x. observe_run cfg clk nid ep d i ro ver s = (s', Inr x) \<and> running cfg loc s'
      \<and> (\<forall>c'. x = Some c' \<longrightarrow> node_id c' = nid \<and> length nid = 20)"
    by (simp add: observe_run_def running_def node_ok_def)
qed

section \<open>The invariant of a lookup\<close>

definition shortlist_ok :: "(bytes \<times> contact) list \<Rightarrow> bool" where
  "shortlist_ok sl \<longleftrightarrow> distinct (map fst sl) \<and> (\<forall>(i, c) \<in> set sl. node_id c = i \<and> length i = 20)"

definition result_ok :: "config \<Rightarrow> atext set \<Rightarrow> endpoint list \<Rightarrow> bool" where
  "result_ok cfg loc ps \<longleftrightarrow> distinct ps \<and> (\<forall>ep \<in> set ps. endpoint_allowed cfg loc (fst ep) (snd ep))"

definition lookup_ok :: "config \<Rightarrow> atext set \<Rightarrow> lookup \<Rightarrow> bool" where
  "lookup_ok cfg loc l \<longleftrightarrow> shortlist_ok (shortlist l) \<and> result_ok cfg loc (peers l)
     \<and> distinct (queried l) \<and> query_count l = int (length (queried l))"

lemma shortlist_ok_update:
  "shortlist_ok sl \<Longrightarrow> node_id c = i \<Longrightarrow> length i = 20 \<Longrightarrow> shortlist_ok (AList.update i c sl)"
  using od.put_distinct [of sl i c] by (auto simp: shortlist_ok_def dest!: set_update_alist)

lemma absorb_nodes_delivers:
  "shortlist_ok sl \<Longrightarrow> delivers (running cfg loc) (absorb_nodes cfg clk j ns sl) shortlist_ok"
proof (induction ns arbitrary: j sl)
  case Nil
  then show ?case by (simp add: delivers_return)
next
  case (Cons n ns)
  obtain nid ip port where n: "n = (nid, ip, port)" by (cases n) auto
  have "delivers (running cfg loc) (bind_run (observe_run cfg (clk j) nid (ip, port) False False False None)
      (\<lambda>c. absorb_nodes cfg clk (Suc j) ns (case c of None \<Rightarrow> sl | Some c' \<Rightarrow> AList.update nid c' sl))) shortlist_ok"
    by (rule delivers_bind [OF observe_delivers])
      (auto intro!: Cons.IH shortlist_ok_update Cons.prems split: option.split)
  moreover have "delivers (running cfg loc) (absorb_nodes cfg clk (Suc j) ns sl) shortlist_ok"
    by (rule Cons.IH [OF Cons.prems])
  ultimately show ?case by (simp add: n delivers_def)
qed

lemma result_ok_snoc: "result_ok cfg loc ps \<Longrightarrow> endpoint_allowed cfg loc (fst ep) (snd ep) \<Longrightarrow> ep \<notin> set ps \<Longrightarrow>
    result_ok cfg loc (ps @ [ep])"
  by (auto simp: result_ok_def)

lemma absorb_values_ok: "result_ok cfg loc ps \<Longrightarrow> result_ok cfg loc (absorb_values cfg loc vs ps)"
  by (induction vs arbitrary: ps) (simp_all add: result_ok_snoc split: pyval.split sum.split)

lemma absorb_response_delivers:
  assumes "lookup_ok cfg loc l"
  shows "delivers (running cfg loc) (absorb_response cfg clk r l) (lookup_ok cfg loc)"
  unfolding delivers_def
proof (intro allI impI)
  fix s assume r: "running cfg loc s"
  define l1 where "l1 = (case dget r ''values'' of
      Some (PList vs) \<Rightarrow> l\<lparr>peers := absorb_values cfg (local_ips s) vs (peers l)\<rparr> | _ \<Rightarrow> l)"
  have l1: "lookup_ok cfg loc l1"
    using assms r by (auto simp: l1_def lookup_ok_def running_def absorb_values_ok split: option.split pyval.split)
  then have "shortlist_ok (shortlist l1)" by (simp add: lookup_ok_def)
  from deliversD [OF absorb_nodes_delivers [OF this] r] l1 r
  show "\<exists>s' x. absorb_response cfg clk r l s = (s', Inr x) \<and> running cfg loc s' \<and> lookup_ok cfg loc x"
    unfolding absorb_response_def l1_def [symmetric] Let_def
    by (auto simp: bind_run_def return_run_def lookup_ok_def split: option.split pyval.split prod.splits sum.splits)
      (metis Inr_inject prod.inject sum.simps(4))+
qed

lemma absorb_results_delivers:
  "lookup_ok cfg loc l \<Longrightarrow> delivers (running cfg loc) (absorb_results cfg clk i rs l) (lookup_ok cfg loc)"
proof (induction cfg clk i rs l rule: absorb_results.induct)
  case (3 cfg clk i r rs l)
  then show ?case by (simp add: delivers_bind [OF absorb_response_delivers])
qed (simp_all add: delivers_return)

lemma await_round_ok: "lookup_ok cfg loc l \<Longrightarrow> lookup_ok cfg loc (await_round e n l)"
  by (auto simp: lookup_ok_def await_round_def shortlist_ok_def comp_def case_prod_beta)

lemma ordered_ok:
  assumes "lookup_ok cfg loc l" and "length target = 20"
  shows "ordered target l = Inr (sort_key (distance_key target) (map snd (shortlist l)))"
proof -
  have "\<forall>c \<in> snd ` set (shortlist l). length (node_id c) = 20"
    using assms(1) by (auto simp: lookup_ok_def shortlist_ok_def)
  with assms(2) show ?thesis by (auto simp: ordered_def list_ex_iff)
qed

lemma shortlist_ids: "shortlist_ok sl \<Longrightarrow> map node_id (map snd sl) = map fst sl"
  by (auto simp: shortlist_ok_def)

lemma batch_fresh:
  assumes ok: "lookup_ok cfg loc l"
  shows "distinct (queried l @ map node_id (next_batch cfg loc l (sort_key (distance_key target) (map snd (shortlist l)))))"
proof -
  let ?cs = "sort_key (distance_key target) (map snd (shortlist l))"
  have sl: "shortlist_ok (shortlist l)" using ok by (simp add: lookup_ok_def)
  then have "distinct (map node_id (map snd (shortlist l)))"
    unfolding shortlist_ids [OF sl] by (simp add: shortlist_ok_def)
  then have "distinct (map node_id ?cs)" unfolding distinct_map distinct_sort set_sort .
  then have "distinct (map node_id (next_batch cfg loc l ?cs))"
    unfolding next_batch_def by (simp add: distinct_map_filter take_map [symmetric] distinct_take)
  moreover have "node_id c \<notin> set (queried l)" if "c \<in> set (next_batch cfg loc l ?cs)" for c
    using that by (auto simp: next_batch_def dest: in_set_takeD)
  ultimately show ?thesis using ok by (auto simp: lookup_ok_def)
qed

definition closest_asked :: "config \<Rightarrow> atext set \<Rightarrow> bytes \<Rightarrow> lookup \<Rightarrow> bool" where
  "closest_asked cfg loc target l \<longleftrightarrow>
     (\<forall>c \<in> set (take DHT_K (sort_key (distance_key target) (map snd (shortlist l)))).
        endpoint_allowed cfg loc (ct_ip c) (ct_port c) \<longrightarrow> node_id c \<in> set (queried l))"

definition steady :: "config \<Rightarrow> atext set \<Rightarrow> lookup_env \<Rightarrow> bool" where
  "steady cfg loc e \<longleftrightarrow> (\<forall>n s. running cfg loc s \<longrightarrow> running cfg loc (lk_others e n s))"

lemma round_delivers:
  assumes ok: "lookup_ok cfg loc l" and t: "length target = 20" and st: "steady cfg loc e"
    and par: "1 \<le> DHT_LOOKUP_PARALLELISM cfg"
  shows "delivers (running cfg loc) (lookup_round cfg e target n l)
    (\<lambda>r. case r of None \<Rightarrow> closest_asked cfg loc target l | Some l' \<Rightarrow> lookup_ok cfg loc l'
       \<and> query_count l' \<le> query_count l + DHT_LOOKUP_PARALLELISM cfg)"
  unfolding delivers_def
proof (intro allI impI)
  fix s assume r: "running cfg loc s"
  let ?cs = "sort_key (distance_key target) (map snd (shortlist l))"
  let ?b = "next_batch cfg loc l ?cs"
  let ?frontier = "map node_id (take DHT_K ?cs)"
  let ?l = "await_round e n (l\<lparr>last_frontier := Some ?frontier, queried := queried l @ map node_id ?b,
      query_count := query_count l + int (length ?b)\<rparr>)"
  have loc: "local_ips s = loc" using r by (simp add: running_def)
  have "lookup_ok cfg loc (l\<lparr>last_frontier := Some ?frontier, queried := queried l @ map node_id ?b,
      query_count := query_count l + int (length ?b)\<rparr>)"
    using ok batch_fresh [OF ok, of target] by (simp add: lookup_ok_def)
  then have l: "lookup_ok cfg loc ?l" by (rule await_round_ok)
  have r': "running cfg loc (lk_others e n s)" using st r by (simp add: steady_def)
  from deliversD [OF absorb_results_delivers [OF l, of "lk_clock e n" 0 "map (lk_answer e n) ?b"] r']
  obtain s' l' where a: "absorb_results cfg (lk_clock e n) 0 (map (lk_answer e n) ?b) ?l (lk_others e n s) = (s', Inr l')"
    "running cfg loc s'" "lookup_ok cfg loc l'" by blast
  have "query_count l' = query_count l + int (length ?b)"
    using absorb_results_fields [of cfg "lk_clock e n" 0 "map (lk_answer e n) ?b" ?l "lk_others e n s" l'] a(1)
    by (simp add: await_round_def)
  moreover have "int (length ?b) \<le> DHT_LOOKUP_PARALLELISM cfg" using par by (simp add: next_batch_def)
  ultimately have bound: "query_count l' \<le> query_count l + DHT_LOOKUP_PARALLELISM cfg" by simp
  have none: "closest_asked cfg loc target l" if "?b = []"
    unfolding closest_asked_def
  proof (intro ballI impI)
    fix c assume "c \<in> set (take DHT_K ?cs)" and al: "endpoint_allowed cfg loc (ct_ip c) (ct_port c)"
    from in_set_takeD [OF this(1)] have "c \<in> set ?cs" .
    with that par al show "node_id c \<in> set (queried l)" by (auto simp: next_batch_def filter_empty_conv)
  qed
  have same: "closest_asked cfg loc target l" if "set ?frontier \<subseteq> set (queried l)"
    using that by (auto simp: closest_asked_def)
  show "\<exists>s' x. lookup_round cfg e target n l s = (s', Inr x) \<and> running cfg loc s'
      \<and> (case x of None \<Rightarrow> closest_asked cfg loc target l | Some l' \<Rightarrow> lookup_ok cfg loc l'
         \<and> query_count l' \<le> query_count l + DHT_LOOKUP_PARALLELISM cfg)"
  proof (cases "?b = [] \<or> (last_frontier l = Some ?frontier \<and> set ?frontier \<subseteq> set (queried l))")
    case True
    then have "lookup_round cfg e target n l s = (s, Inr None)"
      unfolding lookup_round_def ordered_ok [OF ok t] by (auto simp: Let_def loc)
    with True none same r show ?thesis by auto
  next
    case False
    then have "lookup_round cfg e target n l s = (s', Inr (Some l'))"
      unfolding lookup_round_def ordered_ok [OF ok t] using a(1) by (auto simp: Let_def loc bind_run_def return_run_def)
    with a bound show ?thesis by auto
  qed
qed

lemma loop_delivers:
  assumes "length target = 20" and "steady cfg loc e" and "1 \<le> DHT_LOOKUP_PARALLELISM cfg"
  shows "lookup_ok cfg loc l \<Longrightarrow> running cfg loc s \<Longrightarrow>
    \<exists>s' l'. lookup_loop cfg e target n l s = (s', Inr l') \<and> running cfg loc s' \<and> lookup_ok cfg loc l'
      \<and> query_count l' \<le> max (query_count l) (MAX_DHT_QUERIES_PER_TORRENT cfg + DHT_LOOKUP_PARALLELISM cfg - 1)
      \<and> ((\<forall>i. lk_in_time e i) \<and> query_count l' < MAX_DHT_QUERIES_PER_TORRENT cfg
           \<and> int (length (peers l')) < MAX_PEERS_PER_TORRENT cfg \<longrightarrow> closest_asked cfg loc target l')"
  using assms
proof (induction cfg e target n l s rule: lookup_loop.induct)
  case (1 cfg e target n l s)
  show ?case
  proof (cases "lk_in_time e n \<and> query_count l < MAX_DHT_QUERIES_PER_TORRENT cfg
         \<and> int (length (peers l)) < MAX_PEERS_PER_TORRENT cfg")
    case False
    then show ?thesis using "1.prems" by (subst lookup_loop.simps) auto
  next
    case True
    from deliversD [OF round_delivers [OF "1.prems"(1,3,4,5), of n] "1.prems"(2)] obtain s1 r where
      r: "lookup_round cfg e target n l s = (s1, Inr r)" "running cfg loc s1"
      "case r of None \<Rightarrow> closest_asked cfg loc target l | Some l' \<Rightarrow> lookup_ok cfg loc l'
         \<and> query_count l' \<le> query_count l + DHT_LOOKUP_PARALLELISM cfg" by blast
    show ?thesis
    proof (cases r)
      case None
      with r True "1.prems" show ?thesis by (subst lookup_loop.simps) auto
    next
      case (Some l1)
      have "lookup_loop cfg e target n l s = lookup_loop cfg e target (Suc n) l1 s1"
        using True r Some by (subst lookup_loop.simps) simp
      moreover note "1.IH" [OF True r(1) [symmetric] refl Some _ r(2) "1.prems"(3-5)]
      ultimately show ?thesis using r(3) Some True by fastforce
    qed
  qed
qed

section \<open>The lookup as a whole\<close>

lemma start_lookup_ok:
  assumes "\<forall>c \<in> set cs. length (node_id c) = 20"
  shows "lookup_ok cfg loc (start_lookup cs)"
proof -
  have "shortlist_ok sl \<Longrightarrow> shortlist_ok (fold (\<lambda>c. AList.update (node_id c) c) cs sl)" for sl
    using assms by (induction cs arbitrary: sl) (simp_all add: shortlist_ok_update)
  moreover have "shortlist_ok []" by (simp add: shortlist_ok_def)
  ultimately show ?thesis by (simp add: lookup_ok_def start_lookup_def result_ok_def)
qed

lemma closest_returns:
  assumes r: "running cfg loc s" and t: "length target = 20"
  obtains cs where "closest cfg clk (routing s) target n g = Inr cs" and "\<forall>c \<in> set cs. length (node_id c) = 20"
proof -
  let ?nr = "filter (\<lambda>c. \<not> read_only c) (all_contacts (routing s))"
  let ?cs = "if g then good_contacts cfg clk 0 ?nr else ?nr"
  have wf: "table_wf cfg (routing s)" using r by (simp add: running_def node_ok_def)
  have "set ?cs \<subseteq> set ?nr" using set_good_contacts [of cfg clk 0 ?nr] by simp
  then have len: "\<forall>c \<in> set ?cs. length (node_id c) = 20" using member_length [OF wf] by (meson filter_is_subset subsetD)
  then have "closest cfg clk (routing s) target n g = Inr (take n (sort_key (distance_key target) ?cs))"
    using t unfolding closest_def Let_def by (auto simp: list_ex_iff)
  moreover have "\<forall>c \<in> set (take n (sort_key (distance_key target) ?cs)). length (node_id c) = 20"
    using len by (metis in_set_takeD set_sort)
  ultimately show thesis by (rule that)
qed

lemma lookup_start:
  assumes r: "running cfg loc s" and t: "length target = 20"
  obtains cs where "closest cfg (lk_closest e) (routing s) target (nat (max (int DHT_K) (DHT_LOOKUP_PARALLELISM cfg))) False = Inr cs"
    and "lookup_ok cfg loc (start_lookup cs)"
  using closest_returns [OF assms] start_lookup_ok by metis

text \<open>C32. A lookup always ends with a result: whatever the answers and whatever other tasks do to the
  node meanwhile, it raises nothing, asks no node twice and at most one batch less one more
  nodes than its limit, and returns at most the configured number of different peers, all of
  them allowed endpoints. Unless its time, its queries or its room for peers ran out, it has
  asked every allowed node among the closest eight it knows of.\<close>

theorem lookup_complete:
  assumes r: "running cfg loc s" and t: "length target = 20" and st: "steady cfg loc e"
    and par: "1 \<le> DHT_LOOKUP_PARALLELISM cfg" and lim: "0 \<le> MAX_DHT_QUERIES_PER_TORRENT cfg" "0 \<le> MAX_PEERS_PER_TORRENT cfg"
  shows "\<exists>s' l ps. iterative_lookup cfg e target s = (s', Inr l) \<and> iterative_get_peers cfg e target s = (s', Inr ps)
    \<and> running cfg loc s' \<and> distinct (queried l)
    \<and> int (length (queried l)) \<le> MAX_DHT_QUERIES_PER_TORRENT cfg + DHT_LOOKUP_PARALLELISM cfg - 1
    \<and> distinct ps \<and> int (length ps) \<le> MAX_PEERS_PER_TORRENT cfg
    \<and> (\<forall>ep \<in> set ps. endpoint_allowed cfg loc (fst ep) (snd ep))
    \<and> ((\<forall>i. lk_in_time e i) \<and> int (length (queried l)) < MAX_DHT_QUERIES_PER_TORRENT cfg
         \<and> int (length ps) < MAX_PEERS_PER_TORRENT cfg \<longrightarrow> closest_asked cfg loc target l)"
proof -
  from lookup_start [OF r t] obtain cs where
    c: "closest cfg (lk_closest e) (routing s) target (nat (max (int DHT_K) (DHT_LOOKUP_PARALLELISM cfg))) False = Inr cs"
    and ok: "lookup_ok cfg loc (start_lookup cs)" by blast
  from loop_delivers [OF t st par ok r] obtain s' l where
    run: "lookup_loop cfg e target 0 (start_lookup cs) s = (s', Inr l)" and s': "running cfg loc s'"
    and l: "lookup_ok cfg loc l"
    and count: "query_count l \<le> max (query_count (start_lookup cs)) (MAX_DHT_QUERIES_PER_TORRENT cfg + DHT_LOOKUP_PARALLELISM cfg - 1)"
    and finished: "(\<forall>i. lk_in_time e i) \<and> query_count l < MAX_DHT_QUERIES_PER_TORRENT cfg
      \<and> int (length (peers l)) < MAX_PEERS_PER_TORRENT cfg \<longrightarrow> closest_asked cfg loc target l" by blast
  have i: "iterative_lookup cfg e target s = (s', Inr l)" using run c t by (simp add: iterative_lookup_def)
  let ?ps = "take (nat (MAX_PEERS_PER_TORRENT cfg)) (peers l)"
  have q: "query_count l = int (length (queried l))" "distinct (queried l)" using l by (simp_all add: lookup_ok_def)
  have z: "query_count (start_lookup cs) = 0" by (simp add: start_lookup_def)
  have ps: "distinct ?ps" "\<forall>ep \<in> set ?ps. endpoint_allowed cfg loc (fst ep) (snd ep)" "int (length ?ps) \<le> MAX_PEERS_PER_TORRENT cfg"
    "int (length ?ps) < MAX_PEERS_PER_TORRENT cfg \<longrightarrow> int (length (peers l)) < MAX_PEERS_PER_TORRENT cfg"
    using l lim by (auto simp: lookup_ok_def result_ok_def dest: in_set_takeD)
  have g: "iterative_get_peers cfg e target s = (s', Inr ?ps)" using i by (simp add: iterative_get_peers_def bind_run_def return_run_def)
  have n: "int (length (queried l)) \<le> MAX_DHT_QUERIES_PER_TORRENT cfg + DHT_LOOKUP_PARALLELISM cfg - 1"
    using count z q(1) par lim by linarith
  have f: "(\<forall>i. lk_in_time e i) \<and> int (length (queried l)) < MAX_DHT_QUERIES_PER_TORRENT cfg
      \<and> int (length ?ps) < MAX_PEERS_PER_TORRENT cfg \<longrightarrow> closest_asked cfg loc target l"
    using finished ps(4) q(1) by metis
  from i g s' q(2) n ps(1-3) f show ?thesis by blast
qed

text \<open>A node that knows one contact, which answers with a peer.\<close>

definition calm_env :: lookup_env where
  "calm_env = \<lparr>lk_in_time = (\<lambda>n. True),
     lk_answer = (\<lambda>n c. Some [(key ''values'', PList [PBytes [9, 8, 7, 6, 26, 225]])]),
     lk_others = (\<lambda>n s. s), lk_refresh = (\<lambda>n c. c), lk_clock = (\<lambda>n i j k. 0), lk_closest = (\<lambda>k. 0)\<rparr>"

lemma demo_peer_node:
  "\<exists>t c. observe default_config (\<lambda>k. 0) (routing demo_node) (replicate 20 9) (ascii ''9.8.7.6'') 6881 True False False None = Inr (t, Some c)
     \<and> running default_config {ascii ''127.0.0.1''} (demo_node\<lparr>routing := t\<rparr>)"
proof -
  have ok: "node_ok default_config demo_node" using nodes.reachable_inv [OF demo_node_reachable] by blast
  then have wf: "table_wf default_config (routing demo_node)" and pos: "0 < DHT_ROUTING_BAD_AFTER_FAILURES default_config"
    by (simp_all add: node_ok_def node_config_def)
  have own: "replicate 20 (9 :: byte) \<noteq> local_node_id (routing demo_node)" using ok by (simp add: node_ok_def demo_node_def)
  from observe_spec [OF wf pos, of "\<lambda>k. 0" "replicate 20 9" "ascii ''9.8.7.6''" 6881 True False False None] obtain t r where
    o: "observe default_config (\<lambda>k. 0) (routing demo_node) (replicate 20 9) (ascii ''9.8.7.6'') 6881 True False False None = Inr (t, r)"
    "r = sighting_result default_config (\<lambda>k. 0) (routing demo_node) (replicate 20 9) (ascii ''9.8.7.6'') 6881 True False False None"
    "table_wf default_config t" "local_node_id t = local_node_id (routing demo_node)" by blast
  have "r \<noteq> None" unfolding o(2) sighting_result_def using own by (auto split: sum.split option.split)
  then obtain c where c: "r = Some c" by blast
  have "running default_config {ascii ''127.0.0.1''} (demo_node\<lparr>routing := t\<rparr>)"
    using ok o(3,4) by (simp add: running_def node_ok_def) (simp add: demo_node_def)
  with o(1) c show ?thesis by blast
qed

lemma lookup_complete_witness:
  "\<exists>t c s' l ps. observe default_config (\<lambda>k. 0) (routing demo_node) (replicate 20 9) (ascii ''9.8.7.6'') 6881 True False False None = Inr (t, Some c)
     \<and> iterative_lookup default_config calm_env (replicate 20 3) (demo_node\<lparr>routing := t\<rparr>) = (s', Inr l)
     \<and> iterative_get_peers default_config calm_env (replicate 20 3) (demo_node\<lparr>routing := t\<rparr>) = (s', Inr ps)
     \<and> (int (length (queried l)) < 100 \<and> int (length ps) < 20 \<longrightarrow> closest_asked default_config {ascii ''127.0.0.1''} (replicate 20 3) l)"
proof -
  obtain t c where o: "observe default_config (\<lambda>k. 0) (routing demo_node) (replicate 20 9) (ascii ''9.8.7.6'') 6881 True False False None = Inr (t, Some c)"
    and run: "running default_config {ascii ''127.0.0.1''} (demo_node\<lparr>routing := t\<rparr>)" using demo_peer_node by blast
  have st: "steady default_config {ascii ''127.0.0.1''} calm_env" by (simp add: steady_def calm_env_def)
  have cfg: "1 \<le> DHT_LOOKUP_PARALLELISM default_config" "MAX_DHT_QUERIES_PER_TORRENT default_config = 100"
    "MAX_PEERS_PER_TORRENT default_config = 20" by (simp_all add: default_config_def)
  from lookup_complete [OF run, of "replicate 20 3" calm_env] st cfg o
  show ?thesis by (auto simp: calm_env_def)
qed

end
