(* ===== verification/Storage.thy ===== *)
theory Storage
  imports Indexer Monitoring Ordered_Dict
begin

text \<open>
  The catalogue of \<open>includes/storage.py\<close>: the four SQLite tables as lists of rows by primary
  key, and the operations of \<open>DatabaseWorker\<close> as functions on them. One worker thread owns the
  connection, so each operation runs alone; the state an operation leaves is what it
  committed. The worker around them is \<open>Db_Worker\<close>, the search is \<open>Search\<close>. SQLite itself is
  read off the statements: \<open>UPDATE ... WHERE\<close>, \<open>INSERT ... ON CONFLICT\<close>, \<open>DELETE\<close> and the
  ordered \<open>SELECT\<close> with a limit. \<open>zlib.compress\<close> is a parameter.
\<close>

section \<open>Tables\<close>

datatype fetch_state = New | Fetching | Fetch_failed | Complete | Unsupported

record candidate_row =
  row_state :: fetch_state
  first_seen :: int
  last_seen :: int
  attempts :: int
  last_attempt :: "int option"
  next_attempt_at :: "int option"
  last_error :: "ustr option"
  row_uid :: "string option"

record torrent_row =
  tr_name :: "ustr option"
  tr_total_size :: int
  tr_file_count :: int
  tr_piece_length :: "int option"
  tr_metadata_size :: int
  tr_raw_info :: "bytes option"
  tr_encoding :: string
  tr_first_seen :: int
  tr_last_seen :: int

datatype notice_state = Pending | Sent | Failed

record notice_row =
  nt_keywords :: "ustr list"
  nt_matches :: "ustr list"
  nt_status :: notice_state
  nt_created :: int
  nt_last_attempt :: "int option"
  nt_next_attempt :: "int option"
  nt_sent_at :: "int option"
  nt_attempts :: int
  nt_last_error :: "ustr option"

record database =
  candidate_rows :: "(string \<times> candidate_row) list"
  torrent_rows :: "(string \<times> torrent_row) list"
  file_rows :: "((string \<times> nat) \<times> ustr \<times> int) list"
  notice_rows :: "(string \<times> notice_row) list"

definition empty_database :: database where
  "empty_database = \<lparr>candidate_rows = [], torrent_rows = [], file_rows = [], notice_rows = []\<rparr>"

text \<open>\<open>UPDATE t SET ... WHERE key = ? AND cond\<close> with its row count, \<open>INSERT ... ON CONFLICT\<close>.\<close>

definition sql_update :: "'k \<Rightarrow> ('r \<Rightarrow> bool) \<Rightarrow> ('r \<Rightarrow> 'r) \<Rightarrow> ('k \<times> 'r) list \<Rightarrow> ('k \<times> 'r) list" where
  "sql_update k cond f tab = map (\<lambda>(j, r). (j, if j = k \<and> cond r then f r else r)) tab"

definition sql_rowcount :: "'k \<Rightarrow> ('r \<Rightarrow> bool) \<Rightarrow> ('k \<times> 'r) list \<Rightarrow> nat" where
  "sql_rowcount k cond tab = length (filter (\<lambda>(j, r). j = k \<and> cond r) tab)"

definition sql_upsert :: "'k \<Rightarrow> 'r \<Rightarrow> ('r \<Rightarrow> 'r) \<Rightarrow> ('k \<times> 'r) list \<Rightarrow> ('k \<times> 'r) list" where
  "sql_upsert k r f tab =
     (if k \<in> set (map fst tab) then sql_update k (\<lambda>_. True) f tab else tab @ [(k, r)])"

section \<open>Operations on candidates\<close>

definition upsert_candidate_seen :: "string \<Rightarrow> int \<Rightarrow> int \<Rightarrow> database \<Rightarrow> database \<times> candidate_row option" where
  "upsert_candidate_seen k first_ns last_ns db =
     (let fresh = \<lparr>row_state = New, first_seen = first_ns, last_seen = last_ns, attempts = 0, last_attempt = None,
                   next_attempt_at = None, last_error = None, row_uid = None\<rparr>;
          rows = sql_upsert k fresh (\<lambda>r. r\<lparr>last_seen := max (last_seen r) last_ns\<rparr>) (candidate_rows db);
          row = map_of rows k;
          ts = (case row of
                  Some r \<Rightarrow> (case row_uid r of
                               Some (c # uid) \<Rightarrow>
                                 sql_update (c # uid) (\<lambda>_. True) (\<lambda>t. t\<lparr>tr_last_seen := max (tr_last_seen t) last_ns\<rparr>)
                                   (torrent_rows db)
                             | _ \<Rightarrow> torrent_rows db)
                | None \<Rightarrow> torrent_rows db)
      in (db\<lparr>candidate_rows := rows, torrent_rows := ts\<rparr>, row))"

definition candidate_row_of :: "string \<Rightarrow> database \<Rightarrow> candidate_row option" where
  "candidate_row_of k db = map_of (candidate_rows db) k"

definition mark_fetching :: "string \<Rightarrow> int \<Rightarrow> database \<Rightarrow> database \<times> bool" where
  "mark_fetching k now db =
     (let cond = (\<lambda>r. row_state r \<notin> {Complete, Unsupported}) in
      (db\<lparr>candidate_rows := sql_update k cond
            (\<lambda>r. r\<lparr>row_state := Fetching, attempts := attempts r + 1, last_attempt := Some now,
                    next_attempt_at := None, last_error := None\<rparr>) (candidate_rows db)\<rparr>,
       sql_rowcount k cond (candidate_rows db) = 1))"

definition mark_fetch_failed :: "config \<Rightarrow> string \<Rightarrow> ustr \<Rightarrow> int \<Rightarrow> int option \<Rightarrow> database \<Rightarrow> database" where
  "mark_fetch_failed cfg k err now next_ns db =
     db\<lparr>candidate_rows := sql_update k (\<lambda>r. row_state r \<noteq> Complete)
          (\<lambda>r. r\<lparr>row_state := Fetch_failed, last_attempt := Some now, next_attempt_at := next_ns,
                  last_error := Some (take (nat (MAX_INDEX_TEXT_LENGTH cfg)) err)\<rparr>) (candidate_rows db)\<rparr>"

definition mark_unsupported :: "string \<Rightarrow> ustr option \<Rightarrow> database \<Rightarrow> database" where
  "mark_unsupported k err db =
     db\<lparr>candidate_rows := sql_update k (\<lambda>_. True)
          (\<lambda>r. r\<lparr>row_state := Unsupported, last_error := err, next_attempt_at := None\<rparr>) (candidate_rows db)\<rparr>"

text \<open>The rows due, soonest first; rows due at the same time stay in table order.\<close>

definition due_candidates :: "int \<Rightarrow> int \<Rightarrow> database \<Rightarrow> string list" where
  "due_candidates now limit db =
     map fst (take (nat limit) (sort_key (\<lambda>(k, r). the (next_attempt_at r))
       (filter (\<lambda>(k, r). row_state r = Fetch_failed
                  \<and> (case next_attempt_at r of None \<Rightarrow> False | Some d \<Rightarrow> d \<le> now)) (candidate_rows db))))"

text \<open>At start-up: what was being fetched when the process stopped has failed.\<close>

definition recover_interrupted :: "int \<Rightarrow> database \<Rightarrow> database" where
  "recover_interrupted now db =
     db\<lparr>candidate_rows := map (\<lambda>(k, r). (k,
          if row_state r = Fetching
          then r\<lparr>row_state := Fetch_failed,
                 next_attempt_at := (case next_attempt_at r of None \<Rightarrow> Some now | Some d \<Rightarrow> Some d),
                 last_error := (case last_error r of None \<Rightarrow> Some (map of_char ''interrupted by restart'') | Some t \<Rightarrow> Some t)\<rparr>
          else r)) (candidate_rows db)\<rparr>"

section \<open>Operations on torrents\<close>

text \<open>SQLite binds Python integers of 64 bits; a larger one raises \<open>OverflowError\<close>. A second row
  with a primary key raises \<open>IntegrityError\<close>.\<close>

datatype storage_exn = Overflow_Error | Integrity_Error

definition int64 :: "int \<Rightarrow> bool" where
  "int64 i \<longleftrightarrow> - (2 ^ 63) \<le> i \<and> i < 2 ^ 63"

definition raw_columns :: "(bytes \<Rightarrow> bytes) \<Rightarrow> config \<Rightarrow> bytes \<Rightarrow> bytes option \<times> string" where
  "raw_columns compress cfg raw =
     (if RAW_INFO_STORAGE cfg = ''off'' then (None, ''off'')
      else if RAW_INFO_STORAGE cfg = ''raw'' then (Some raw, ''raw'')
      else (Some (compress raw), ''zlib''))"

definition torrent_ints :: "indexed_torrent \<Rightarrow> int list" where
  "torrent_ints t = [total_size t, int (file_count t), int (info_size t)]
     @ (case piece_length t of None \<Rightarrow> [] | Some i \<Rightarrow> [i])"

definition write_torrent :: "(bytes \<Rightarrow> bytes) \<Rightarrow> config \<Rightarrow> indexed_torrent \<Rightarrow> int \<Rightarrow> database \<Rightarrow>
    storage_exn + database" where
  "write_torrent compress cfg t now db =
     (let first = (case map_of (torrent_rows db) (torrent_uid t) of None \<Rightarrow> now | Some r \<Rightarrow> tr_first_seen r);
          (blob, enc) = raw_columns compress cfg (raw_info t);
          row = \<lparr>tr_name = torrent_name t, tr_total_size = total_size t, tr_file_count = int (file_count t),
                 tr_piece_length = piece_length t, tr_metadata_size = int (info_size t), tr_raw_info = blob,
                 tr_encoding = enc, tr_first_seen = first, tr_last_seen = now\<rparr>
      in if \<not> list_all int64 (torrent_ints t @ [first, now]) then Inl Overflow_Error
         else Inr (db\<lparr>torrent_rows := sql_upsert (torrent_uid t) row (\<lambda>r. row\<lparr>tr_first_seen := tr_first_seen r\<rparr>)
                                       (torrent_rows db)\<rparr>))"

definition delete_files :: "string \<Rightarrow> database \<Rightarrow> database" where
  "delete_files uid db = db\<lparr>file_rows := filter (\<lambda>((u, i), r). u \<noteq> uid) (file_rows db)\<rparr>"

fun insert_files :: "string \<Rightarrow> indexed_file list \<Rightarrow> database \<Rightarrow> storage_exn + database" where
  "insert_files uid [] db = Inr db"
| "insert_files uid (f # fs) db =
     (if \<not> int64 (int (file_index f)) \<or> \<not> int64 (file_size f) then Inl Overflow_Error
      else if (uid, file_index f) \<in> set (map fst (file_rows db)) then Inl Integrity_Error
      else insert_files uid fs (db\<lparr>file_rows := file_rows db @ [((uid, file_index f), file_path f, file_size f)]\<rparr>))"

definition insert_notice :: "string \<Rightarrow> keyword_result option \<Rightarrow> int \<Rightarrow> database \<Rightarrow> database" where
  "insert_notice uid result now db =
     (case result of
        None \<Rightarrow> db
      | Some kr \<Rightarrow> db\<lparr>notice_rows := sql_upsert uid
          \<lparr>nt_keywords = found_keywords kr, nt_matches = found_values kr, nt_status = Pending, nt_created = now,
           nt_last_attempt = None, nt_next_attempt = Some now, nt_sent_at = None, nt_attempts = 0, nt_last_error = None\<rparr>
          (\<lambda>r. r) (notice_rows db)\<rparr>)"

definition complete_candidate :: "string \<Rightarrow> string \<Rightarrow> database \<Rightarrow> database" where
  "complete_candidate k uid db =
     db\<lparr>candidate_rows := sql_update k (\<lambda>_. True)
          (\<lambda>r. r\<lparr>row_state := Complete, row_uid := Some uid, next_attempt_at := None, last_error := None\<rparr>)
          (candidate_rows db)\<rparr>"

text \<open>One transaction: an exception rolls it back and is raised again.\<close>

definition persist_torrent :: "(bytes \<Rightarrow> bytes) \<Rightarrow> config \<Rightarrow> indexed_torrent \<Rightarrow> string \<Rightarrow> keyword_result option \<Rightarrow>
    int \<Rightarrow> database \<Rightarrow> database \<times> (storage_exn + unit)" where
  "persist_torrent compress cfg t k result now db =
     (case bind_r (write_torrent compress cfg t now db) (\<lambda>db1.
           bind_r (insert_files (torrent_uid t) (torrent_files t) (delete_files (torrent_uid t) db1)) (\<lambda>db2.
           Inr (complete_candidate k (torrent_uid t) (insert_notice (torrent_uid t) result now db2)))) of
        Inl e \<Rightarrow> (db, Inl e)
      | Inr db' \<Rightarrow> (db', Inr ()))"

section \<open>Notifications\<close>

text \<open>The join with \<open>torrents\<close>: a notification and the row of its torrent.\<close>

definition due_notifications :: "int \<Rightarrow> int \<Rightarrow> database \<Rightarrow> (string \<times> notice_row \<times> torrent_row) list" where
  "due_notifications now limit db =
     map (\<lambda>(u, n). (u, n, the (map_of (torrent_rows db) u)))
       (take (nat limit) (sort_key (\<lambda>(u, n). the (nt_next_attempt n))
         (filter (\<lambda>(u, n). nt_status n = Pending \<and> u \<in> set (map fst (torrent_rows db))
                    \<and> (case nt_next_attempt n of None \<Rightarrow> False | Some d \<Rightarrow> d \<le> now)) (notice_rows db))))"

definition mark_notification_result :: "config \<Rightarrow> string \<Rightarrow> bool \<Rightarrow> int \<Rightarrow> int option \<Rightarrow> ustr option \<Rightarrow>
    database \<Rightarrow> database" where
  "mark_notification_result cfg uid success now next_ns err db =
     db\<lparr>notice_rows := sql_update uid (\<lambda>_. True)
          (\<lambda>n. if success
                then n\<lparr>nt_status := Sent, nt_attempts := nt_attempts n + 1, nt_last_attempt := Some now,
                       nt_sent_at := Some now, nt_next_attempt := None, nt_last_error := None\<rparr>
                else n\<lparr>nt_status := (if next_ns \<noteq> None then Pending else Failed), nt_attempts := nt_attempts n + 1,
                       nt_last_attempt := Some now, nt_next_attempt := next_ns,
                       nt_last_error := Some (take (nat (MAX_INDEX_TEXT_LENGTH cfg)) (case err of None \<Rightarrow> [] | Some t \<Rightarrow> t))\<rparr>)
          (notice_rows db)\<rparr>"

section \<open>Tables as an interface\<close>

text \<open>What the statements promise of a table, and how a condition on all rows is kept.\<close>

locale sql_table =
  fixes row :: "'t \<Rightarrow> 'k \<Rightarrow> 'r option"
    and keys :: "'t \<Rightarrow> 'k list"
    and upd :: "'k \<Rightarrow> ('r \<Rightarrow> bool) \<Rightarrow> ('r \<Rightarrow> 'r) \<Rightarrow> 't \<Rightarrow> 't"
    and ups :: "'k \<Rightarrow> 'r \<Rightarrow> ('r \<Rightarrow> 'r) \<Rightarrow> 't \<Rightarrow> 't"
  assumes keys_row: "set (keys t) = {k. row t k \<noteq> None}"
    and keys_upd: "keys (upd k c f t) = keys t"
    and row_upd: "row (upd k c f t) j = (if j = k then map_option (\<lambda>r. if c r then f r else r) (row t k) else row t j)"
    and keys_ups: "keys (ups k r f t) = (if k \<in> set (keys t) then keys t else keys t @ [k])"
    and row_ups: "row (ups k r f t) j =
      (if j = k then Some (case row t k of None \<Rightarrow> r | Some r0 \<Rightarrow> f r0) else row t j)"
begin

lemma upd_all:
  assumes "\<And>j r. row t j = Some r \<Longrightarrow> P j r" and "\<And>r. row t k = Some r \<Longrightarrow> P k r \<Longrightarrow> c r \<Longrightarrow> P k (f r)"
    and "row (upd k c f t) j = Some r"
  shows "P j r"
  using assms(3) assms(1) [of k] assms(1) [of j] assms(2) unfolding row_upd by (auto split: if_splits)

lemma ups_all:
  assumes "\<And>j r. row t j = Some r \<Longrightarrow> P j r" and "row t k = None \<Longrightarrow> P k r0"
    and "\<And>r. row t k = Some r \<Longrightarrow> P k r \<Longrightarrow> P k (f r)" and "row (ups k r0 f t) j = Some r"
  shows "P j r"
  using assms(4) assms(1) [of k] assms(1) [of j] assms(2,3) unfolding row_ups by (auto split: if_splits option.splits)

lemma ups_distinct: "distinct (keys t) \<Longrightarrow> distinct (keys (ups k r f t))"
  by (simp add: keys_ups)

lemma ups_keys: "set (keys (ups k r f t)) = insert k (set (keys t))"
  by (auto simp: keys_ups)

end

lemma sql_update_keys [simp]: "map fst (sql_update k c f tab) = map fst tab"
  by (simp add: sql_update_def comp_def case_prod_beta)

lemma sql_update_row:
  "map_of (sql_update k c f tab) j =
     (if j = k then map_option (\<lambda>r. if c r then f r else r) (map_of tab k) else map_of tab j)"
  by (induction tab) (auto simp: sql_update_def)

lemma sql_upsert_row:
  "map_of (sql_upsert k r f tab) j =
     (if j = k then Some (case map_of tab k of None \<Rightarrow> r | Some r0 \<Rightarrow> f r0) else map_of tab j)"
proof (cases "map_of tab k")
  case None
  then have "k \<notin> fst ` set tab" by (simp add: map_of_eq_None_iff)
  with None show ?thesis by (simp add: sql_upsert_def map_add_def split: option.splits)
next
  case (Some r0)
  then have "k \<in> fst ` set tab" by (metis fst_conv image_eqI map_of_SomeD)
  with Some show ?thesis by (simp add: sql_upsert_def sql_update_row)
qed

interpretation sql: sql_table map_of "map fst" sql_update sql_upsert
proof unfold_locales
  fix t :: "('a \<times> 'b) list" and k j c f r
  show "set (map fst t) = {k. map_of t k \<noteq> None}" by (simp add: map_of_eq_None_iff)
  show "map fst (sql_update k c f t) = map fst t" by simp
  show "map_of (sql_update k c f t) j = (if j = k then map_option (\<lambda>r. if c r then f r else r) (map_of t k) else map_of t j)"
    by (rule sql_update_row)
  show "map fst (sql_upsert k r f t) = (if k \<in> set (map fst t) then map fst t else map fst t @ [k])"
    by (simp add: sql_upsert_def)
  show "map_of (sql_upsert k r f t) j = (if j = k then Some (case map_of t k of None \<Rightarrow> r | Some r0 \<Rightarrow> f r0) else map_of t j)"
    by (rule sql_upsert_row)
qed

lemma sql_rowcount_one: "distinct (map fst tab) \<Longrightarrow>
    sql_rowcount k c tab = (case map_of tab k of None \<Rightarrow> 0 | Some r \<Rightarrow> if c r then 1 else 0)"
proof (induction tab)
  case (Cons p tab)
  have "filter (\<lambda>(j, r). j = fst p \<and> c r) tab = []" using Cons.prems by (auto simp: filter_empty_conv image_iff)
  with Cons show ?case by (cases p) (auto simp: sql_rowcount_def split: option.splits)
qed (simp add: sql_rowcount_def)

section \<open>Well-formed catalogues\<close>

text \<open>The rows of a torrent's files, in table order.\<close>

definition files_of :: "string \<Rightarrow> database \<Rightarrow> (nat \<times> ustr \<times> int) list" where
  "files_of uid db = map (\<lambda>((u, i), f). (i, f)) (filter (\<lambda>((u, i), f). u = uid) (file_rows db))"

definition row_ok :: "string set \<Rightarrow> candidate_row \<Rightarrow> bool" where
  "row_ok uids r \<longleftrightarrow>
     (next_attempt_at r \<noteq> None \<longrightarrow> row_state r = Fetch_failed)
     \<and> (row_state r = Complete \<longrightarrow> row_uid r \<noteq> None)
     \<and> (\<forall>u. row_uid r = Some u \<longrightarrow> u \<in> uids)
     \<and> 0 \<le> attempts r \<and> (row_state r = Fetching \<longrightarrow> 0 < attempts r \<and> last_attempt r \<noteq> None)
     \<and> (row_state r = New \<longrightarrow> attempts r = 0)"

definition torrent_ok :: "(nat \<times> ustr \<times> int) list \<Rightarrow> torrent_row \<Rightarrow> bool" where
  "torrent_ok fs t \<longleftrightarrow> map fst fs = [0..<length fs] \<and> tr_file_count t = int (length fs)
     \<and> tr_total_size t = sum_list (map (snd \<circ> snd) fs) \<and> (\<forall>(i, p, n) \<in> set fs. 0 \<le> n) \<and> int64 (tr_first_seen t)"

definition notice_ok :: "notice_row \<Rightarrow> bool" where
  "notice_ok n \<longleftrightarrow> (nt_status n = Pending \<longleftrightarrow> nt_next_attempt n \<noteq> None)
     \<and> (nt_status n = Sent \<longrightarrow> nt_sent_at n \<noteq> None) \<and> 0 \<le> nt_attempts n"

definition torrent_uids :: "database \<Rightarrow> string set" where
  "torrent_uids db = set (map fst (torrent_rows db))"

definition db_ok :: "database \<Rightarrow> bool" where
  "db_ok db \<longleftrightarrow>
     distinct (map fst (candidate_rows db)) \<and> distinct (map fst (torrent_rows db))
     \<and> distinct (map fst (file_rows db)) \<and> distinct (map fst (notice_rows db))
     \<and> (\<forall>k r. map_of (candidate_rows db) k = Some r \<longrightarrow> row_ok (torrent_uids db) r)
     \<and> (\<forall>u t. map_of (torrent_rows db) u = Some t \<longrightarrow> torrent_ok (files_of u db) t)
     \<and> (\<forall>((u, i), f) \<in> set (file_rows db). u \<in> torrent_uids db)
     \<and> (\<forall>u n. map_of (notice_rows db) u = Some n \<longrightarrow> u \<in> torrent_uids db \<and> notice_ok n)"

text \<open>What the indexer promises of a torrent it returns.\<close>

definition indexed_ok :: "indexed_torrent \<Rightarrow> bool" where
  "indexed_ok t \<longleftrightarrow> map file_index (torrent_files t) = [0..<length (torrent_files t)]
     \<and> file_count t = length (torrent_files t)
     \<and> total_size t = sum_list (map file_size (torrent_files t)) \<and> (\<forall>f \<in> set (torrent_files t). 0 \<le> file_size f)"

section \<open>Every operation keeps the catalogue well-formed\<close>

lemma files_of_simps [simp]:
  "files_of u (db\<lparr>candidate_rows := cs\<rparr>) = files_of u db" "files_of u (db\<lparr>torrent_rows := ts\<rparr>) = files_of u db"
  "files_of u (db\<lparr>notice_rows := ns\<rparr>) = files_of u db"
  by (simp_all add: files_of_def)

lemma torrent_uids_simps [simp]:
  "torrent_uids (db\<lparr>candidate_rows := cs\<rparr>) = torrent_uids db" "torrent_uids (db\<lparr>file_rows := fs\<rparr>) = torrent_uids db"
  "torrent_uids (db\<lparr>notice_rows := ns\<rparr>) = torrent_uids db"
  by (simp_all add: torrent_uids_def)

lemma db_ok_rows: "db_ok db \<Longrightarrow> map_of (candidate_rows db) k = Some r \<Longrightarrow> row_ok (torrent_uids db) r"
  by (simp add: db_ok_def)

lemma db_ok_candidates:
  assumes "db_ok db" and "distinct (map fst cs)" and "\<And>k r. map_of cs k = Some r \<Longrightarrow> row_ok (torrent_uids db) r"
  shows "db_ok (db\<lparr>candidate_rows := cs\<rparr>)"
  using assms by (simp add: db_ok_def)

lemma db_ok_update:
  assumes ok: "db_ok db" and f: "\<And>r. c r \<Longrightarrow> row_ok (torrent_uids db) r \<Longrightarrow> row_ok (torrent_uids db) (f r)"
  shows "db_ok (db\<lparr>candidate_rows := sql_update k c f (candidate_rows db)\<rparr>)"
proof (rule db_ok_candidates [OF ok])
  show "distinct (map fst (sql_update k c f (candidate_rows db)))" using ok by (simp add: db_ok_def)
  fix j r
  assume "map_of (sql_update k c f (candidate_rows db)) j = Some r"
  then show "row_ok (torrent_uids db) r"
    by (rule sql.upd_all [rotated 2, where P = "\<lambda>j r. row_ok (torrent_uids db) r"]) (use db_ok_rows [OF ok] f in auto)
qed

lemma db_ok_torrent_seen:
  assumes ok: "db_ok db" and f: "\<And>t fs. torrent_ok fs t \<Longrightarrow> torrent_ok fs (f t)"
  shows "db_ok (db\<lparr>torrent_rows := sql_update u c f (torrent_rows db)\<rparr>)"
proof -
  have t: "\<forall>u t. map_of (torrent_rows db) u = Some t \<longrightarrow> torrent_ok (files_of u db) t" using ok by (simp add: db_ok_def)
  have "torrent_ok (files_of j db) t" if "map_of (sql_update u c f (torrent_rows db)) j = Some t" for j t
    by (rule sql.upd_all [rotated 2, where P = "\<lambda>j t. torrent_ok (files_of j db) t", OF that]) (use t f in auto)
  with ok show ?thesis by (simp add: db_ok_def torrent_uids_def)
qed

lemma upsert_keeps_ok:
  assumes ok: "db_ok db"
  shows "db_ok (fst (upsert_candidate_seen k first_ns last_ns db))"
proof -
  let ?fresh = "\<lparr>row_state = New, first_seen = first_ns, last_seen = last_ns, attempts = 0, last_attempt = None,
    next_attempt_at = None, last_error = None, row_uid = None\<rparr>"
  let ?rows = "sql_upsert k ?fresh (\<lambda>r. r\<lparr>last_seen := max (last_seen r) last_ns\<rparr>) (candidate_rows db)"
  have ok1: "db_ok (db\<lparr>candidate_rows := ?rows\<rparr>)"
  proof (rule db_ok_candidates [OF ok])
    show "distinct (map fst ?rows)" using ok by (intro sql.ups_distinct) (simp add: db_ok_def)
    fix j r
    assume "map_of ?rows j = Some r"
    then show "row_ok (torrent_uids db) r"
      by (rule sql.ups_all [rotated 3, where P = "\<lambda>j r. row_ok (torrent_uids db) r"])
        (use db_ok_rows [OF ok] in \<open>auto simp: row_ok_def\<close>)
  qed
  have "db_ok (db\<lparr>candidate_rows := ?rows,
      torrent_rows := sql_update u (\<lambda>_. True) (\<lambda>t. t\<lparr>tr_last_seen := max (tr_last_seen t) last_ns\<rparr>) (torrent_rows db)\<rparr>)" for u
    using db_ok_torrent_seen [OF ok1, where f = "\<lambda>t. t\<lparr>tr_last_seen := max (tr_last_seen t) last_ns\<rparr>" and u = u and c = "\<lambda>_. True"]
    by (simp add: torrent_ok_def)
  with ok1 show ?thesis
    by (auto simp: upsert_candidate_seen_def Let_def split: option.splits list.splits)
qed

lemma mark_fetching_keeps_ok: "db_ok db \<Longrightarrow> db_ok (fst (mark_fetching k now db))"
  unfolding mark_fetching_def Let_def fst_conv by (erule db_ok_update) (auto simp: row_ok_def)

lemma mark_fetch_failed_keeps_ok: "db_ok db \<Longrightarrow> db_ok (mark_fetch_failed cfg k err now next_ns db)"
  unfolding mark_fetch_failed_def by (erule db_ok_update) (auto simp: row_ok_def)

lemma mark_unsupported_keeps_ok: "db_ok db \<Longrightarrow> db_ok (mark_unsupported k err db)"
  unfolding mark_unsupported_def by (erule db_ok_update) (auto simp: row_ok_def)

lemma map_of_map_snd: "map_of (map (\<lambda>(k, r). (k, g r)) tab) j = map_option g (map_of tab j)"
  by (induction tab) auto

lemma recover_row:
  "map_of (candidate_rows (recover_interrupted now db)) j =
     map_option (\<lambda>r. if row_state r = Fetching
       then r\<lparr>row_state := Fetch_failed,
              next_attempt_at := (case next_attempt_at r of None \<Rightarrow> Some now | Some d \<Rightarrow> Some d),
              last_error := (case last_error r of None \<Rightarrow> Some (map of_char ''interrupted by restart'') | Some t \<Rightarrow> Some t)\<rparr>
       else r) (map_of (candidate_rows db) j)"
  by (simp add: recover_interrupted_def map_of_map_snd)

lemma recover_keeps_ok:
  assumes ok: "db_ok db"
  shows "db_ok (recover_interrupted now db)"
proof -
  have "db_ok (db\<lparr>candidate_rows := candidate_rows (recover_interrupted now db)\<rparr>)"
  proof (rule db_ok_candidates [OF ok])
    show "distinct (map fst (candidate_rows (recover_interrupted now db)))"
      using ok by (simp add: db_ok_def recover_interrupted_def comp_def case_prod_beta)
    fix j r
    assume "map_of (candidate_rows (recover_interrupted now db)) j = Some r"
    then show "row_ok (torrent_uids db) r"
      unfolding recover_row using db_ok_rows [OF ok] by (auto simp: row_ok_def split: option.splits if_splits)
  qed
  then show ?thesis by (simp add: recover_interrupted_def)
qed

lemma notification_keeps_ok:
  assumes ok: "db_ok db"
  shows "db_ok (mark_notification_result cfg uid success now next_ns err db)"
proof -
  have n: "map_of (notice_rows db) u = Some n \<Longrightarrow> u \<in> torrent_uids db \<and> notice_ok n" for u n
    using ok by (simp add: db_ok_def)
  let ?f = "\<lambda>n. if success
    then n\<lparr>nt_status := Sent, nt_attempts := nt_attempts n + 1, nt_last_attempt := Some now, nt_sent_at := Some now,
           nt_next_attempt := None, nt_last_error := None\<rparr>
    else n\<lparr>nt_status := (if next_ns \<noteq> None then Pending else Failed), nt_attempts := nt_attempts n + 1,
           nt_last_attempt := Some now, nt_next_attempt := next_ns,
           nt_last_error := Some (take (nat (MAX_INDEX_TEXT_LENGTH cfg)) (case err of None \<Rightarrow> [] | Some t \<Rightarrow> t))\<rparr>"
  have "u \<in> torrent_uids db \<and> notice_ok r" if "map_of (sql_update uid (\<lambda>_. True) ?f (notice_rows db)) u = Some r" for u r
    by (rule sql.upd_all [rotated 2, where P = "\<lambda>u r. u \<in> torrent_uids db \<and> notice_ok r", OF that])
      (use n in \<open>auto simp: notice_ok_def\<close>)
  with ok show ?thesis by (simp add: db_ok_def mark_notification_result_def)
qed

text \<open>The transaction, split into its effects on the tables.\<close>

definition file_rows_of :: "indexed_torrent \<Rightarrow> ((string \<times> nat) \<times> ustr \<times> int) list" where
  "file_rows_of t = map (\<lambda>f. ((torrent_uid t, file_index f), file_path f, file_size f)) (torrent_files t)"

lemma insert_files_Inr:
  "insert_files uid fs db = Inr db' \<Longrightarrow>
     db' = db\<lparr>file_rows := file_rows db @ map (\<lambda>f. ((uid, file_index f), file_path f, file_size f)) fs\<rparr>"
  by (induction uid fs db rule: insert_files.induct) (auto split: if_splits)

lemma insert_files_distinct:
  "insert_files uid fs db = Inr db' \<Longrightarrow> distinct (map fst (file_rows db)) \<Longrightarrow> distinct (map fst (file_rows db'))"
  by (induction uid fs db rule: insert_files.induct) (auto split: if_splits)

lemma insert_files_fit: "insert_files uid fs db = Inr db' \<Longrightarrow> list_all (\<lambda>f. int64 (file_size f)) fs"
  by (induction uid fs db rule: insert_files.induct) (auto split: if_splits)

lemma insert_files_total:
  assumes "distinct (map file_index fs)" and "\<And>f. f \<in> set fs \<Longrightarrow> (uid, file_index f) \<notin> set (map fst (file_rows db))"
    and "list_all (\<lambda>f. int64 (int (file_index f)) \<and> int64 (file_size f)) fs"
  shows "\<exists>db'. insert_files uid fs db = Inr db'"
  using assms
proof (induction uid fs db rule: insert_files.induct)
  case (2 uid f fs db)
  let ?db = "db\<lparr>file_rows := file_rows db @ [((uid, file_index f), file_path f, file_size f)]\<rparr>"
  have new: "(uid, file_index f) \<notin> set (map fst (file_rows db))" using 2(3) by simp
  have "(uid, file_index g) \<notin> set (map fst (file_rows ?db))" if "g \<in> set fs" for g
    using 2(2) 2(3) [of g] that by (auto simp: image_iff)
  moreover have "int64 (int (file_index f)) \<and> int64 (file_size f)" using 2(4) by simp
  ultimately show ?case using 2(1) 2(2,4) new by simp
qed simp

definition torrent_row_of :: "(bytes \<Rightarrow> bytes) \<Rightarrow> config \<Rightarrow> indexed_torrent \<Rightarrow> int \<Rightarrow> int \<Rightarrow> torrent_row" where
  "torrent_row_of compress cfg t first now =
     \<lparr>tr_name = torrent_name t, tr_total_size = total_size t, tr_file_count = int (file_count t),
      tr_piece_length = piece_length t, tr_metadata_size = int (info_size t),
      tr_raw_info = fst (raw_columns compress cfg (raw_info t)), tr_encoding = snd (raw_columns compress cfg (raw_info t)),
      tr_first_seen = first, tr_last_seen = now\<rparr>"

definition stored_catalogue :: "(bytes \<Rightarrow> bytes) \<Rightarrow> config \<Rightarrow> indexed_torrent \<Rightarrow> int \<Rightarrow> database \<Rightarrow> database" where
  "stored_catalogue compress cfg t now db =
     db\<lparr>torrent_rows := sql_upsert (torrent_uid t) (torrent_row_of compress cfg t now now)
          (\<lambda>r. torrent_row_of compress cfg t (tr_first_seen r) now) (torrent_rows db),
        file_rows := filter (\<lambda>((u, i), r). u \<noteq> torrent_uid t) (file_rows db) @ file_rows_of t\<rparr>"

lemma torrent_row_of_first: "torrent_row_of compress cfg t first now\<lparr>tr_first_seen := x\<rparr> = torrent_row_of compress cfg t x now"
  by (simp add: torrent_row_of_def)

lemma write_torrent_Inr:
  assumes "write_torrent compress cfg t now db = Inr db1"
  shows "db1 = db\<lparr>torrent_rows := sql_upsert (torrent_uid t) (torrent_row_of compress cfg t now now)
      (\<lambda>r. torrent_row_of compress cfg t (tr_first_seen r) now) (torrent_rows db)\<rparr>"
proof -
  let ?first = "case map_of (torrent_rows db) (torrent_uid t) of None \<Rightarrow> now | Some r \<Rightarrow> tr_first_seen r"
  have d: "db1 = db\<lparr>torrent_rows := sql_upsert (torrent_uid t) (torrent_row_of compress cfg t ?first now)
      (\<lambda>r. (torrent_row_of compress cfg t ?first now)\<lparr>tr_first_seen := tr_first_seen r\<rparr>) (torrent_rows db)\<rparr>"
    using assms by (auto simp: write_torrent_def torrent_row_of_def Let_def case_prod_beta split: if_splits)
  show ?thesis
  proof (cases "map_of (torrent_rows db) (torrent_uid t)")
    case None
    with d show ?thesis by (simp add: torrent_row_of_first)
  next
    case (Some r)
    then have "torrent_uid t \<in> set (map fst (torrent_rows db))" by (metis map_of_eq_None_iff option.distinct(1) set_map)
    with d show ?thesis by (simp add: torrent_row_of_first sql_upsert_def)
  qed
qed

lemma persist_Inr:
  assumes "persist_torrent compress cfg t k result now db = (db', Inr ())"
  shows "db' = complete_candidate k (torrent_uid t) (insert_notice (torrent_uid t) result now (stored_catalogue compress cfg t now db))"
    and "distinct (map fst (file_rows db)) \<Longrightarrow> distinct (map fst (file_rows (stored_catalogue compress cfg t now db)))"
proof -
  from assms obtain db1 db2 where w: "write_torrent compress cfg t now db = Inr db1"
    and i: "insert_files (torrent_uid t) (torrent_files t) (delete_files (torrent_uid t) db1) = Inr db2"
    and d: "db' = complete_candidate k (torrent_uid t) (insert_notice (torrent_uid t) result now db2)"
    by (auto simp: persist_torrent_def bind_r_Inr_iff split: sum.splits)
  have s: "db2 = stored_catalogue compress cfg t now db"
    using insert_files_Inr [OF i] unfolding write_torrent_Inr [OF w]
    by (simp add: stored_catalogue_def delete_files_def file_rows_of_def)
  with d show "db' = complete_candidate k (torrent_uid t) (insert_notice (torrent_uid t) result now (stored_catalogue compress cfg t now db))"
    by simp
  assume "distinct (map fst (file_rows db))"
  then have "distinct (map fst (file_rows (delete_files (torrent_uid t) db1)))"
    unfolding write_torrent_Inr [OF w] delete_files_def by (simp add: distinct_map inj_on_def)
  from insert_files_distinct [OF i this] s show "distinct (map fst (file_rows (stored_catalogue compress cfg t now db)))" by metis
qed

lemma persist_Inl: "persist_torrent compress cfg t k result now db = (db', Inl e) \<Longrightarrow> db' = db"
  by (auto simp: persist_torrent_def split: sum.splits)

lemma files_of_stored:
  "files_of u (stored_catalogue compress cfg t now db) =
     (if u = torrent_uid t then map (\<lambda>f. (file_index f, file_path f, file_size f)) (torrent_files t) else files_of u db)"
proof -
  have "filter (\<lambda>((v, i), f). v = u) (file_rows_of t) = (if u = torrent_uid t then file_rows_of t else [])"
    by (auto simp: file_rows_of_def filter_id_conv filter_empty_conv)
  moreover have "filter (\<lambda>((v, i), f). v = u) (filter (\<lambda>((v, i), f). v \<noteq> torrent_uid t) (file_rows db)) =
      (if u = torrent_uid t then [] else filter (\<lambda>((v, i), f). v = u) (file_rows db))"
    by (auto simp: filter_empty_conv intro!: filter_cong)
  ultimately show ?thesis
    by (simp add: files_of_def stored_catalogue_def) (simp add: file_rows_of_def comp_def)
qed

lemma torrent_uids_stored: "torrent_uids (stored_catalogue compress cfg t now db) = insert (torrent_uid t) (torrent_uids db)"
  unfolding torrent_uids_def stored_catalogue_def using sql.ups_keys by simp

lemma row_ok_mono: "row_ok A r \<Longrightarrow> A \<subseteq> B \<Longrightarrow> row_ok B r"
  by (auto simp: row_ok_def)

lemma torrent_ok_indexed:
  assumes "indexed_ok t" and "int64 first"
  shows "torrent_ok (map (\<lambda>f. (file_index f, file_path f, file_size f)) (torrent_files t)) (torrent_row_of compress cfg t first now)"
  using assms by (auto simp: torrent_ok_def indexed_ok_def torrent_row_of_def comp_def)

lemma stored_catalogue_ok:
  assumes ok: "db_ok db" and t: "indexed_ok t" "int64 now"
    and d: "distinct (map fst (file_rows (stored_catalogue compress cfg t now db)))"
  shows "db_ok (stored_catalogue compress cfg t now db)"
proof -
  let ?db = "stored_catalogue compress cfg t now db"
  have rows: "\<forall>u r. map_of (torrent_rows db) u = Some r \<longrightarrow> torrent_ok (files_of u db) r" using ok by (simp add: db_ok_def)
  have "torrent_ok (files_of u ?db) r" if "map_of (torrent_rows ?db) u = Some r" for u r
  proof (cases "u = torrent_uid t")
    case True
    have "\<exists>first. int64 first \<and> r = torrent_row_of compress cfg t first now"
    proof (cases "map_of (torrent_rows db) u")
      case None
      with that True t(2) show ?thesis by (auto simp: stored_catalogue_def sql_upsert_row)
    next
      case (Some r0)
      with rows have "int64 (tr_first_seen r0)" by (auto simp: torrent_ok_def)
      moreover have "r = torrent_row_of compress cfg t (tr_first_seen r0) now"
        using that True Some by (simp add: stored_catalogue_def sql_upsert_row)
      ultimately show ?thesis by blast
    qed
    with True torrent_ok_indexed [OF t(1)] show ?thesis by (auto simp: files_of_stored)
  next
    case False
    with that rows show ?thesis by (simp add: files_of_stored) (simp add: stored_catalogue_def sql_upsert_row)
  qed
  moreover have "distinct (map fst (torrent_rows ?db))"
    using ok by (simp add: stored_catalogue_def db_ok_def sql.ups_distinct del: sql_update_keys)
  moreover have "\<forall>((u, i), f) \<in> set (file_rows ?db). u \<in> torrent_uids ?db"
    using ok by (auto simp: torrent_uids_stored db_ok_def) (auto simp: stored_catalogue_def file_rows_of_def)
  moreover have "candidate_rows ?db = candidate_rows db" "notice_rows ?db = notice_rows db"
    by (simp_all add: stored_catalogue_def)
  moreover have "row_ok (torrent_uids db) r \<Longrightarrow> row_ok (torrent_uids ?db) r" for r
    by (rule row_ok_mono) (auto simp: torrent_uids_stored)
  ultimately show ?thesis
    using ok d unfolding db_ok_def by (auto simp: torrent_uids_stored)
qed

lemma insert_notice_ok: "db_ok db \<Longrightarrow> uid \<in> torrent_uids db \<Longrightarrow> db_ok (insert_notice uid result now db)"
proof -
  assume ok: "db_ok db" and u: "uid \<in> torrent_uids db"
  then have n: "map_of (notice_rows db) v = Some n \<Longrightarrow> v \<in> torrent_uids db \<and> notice_ok n" for v n
    by (simp add: db_ok_def)
  have "v \<in> torrent_uids db \<and> notice_ok n"
    if "map_of (sql_upsert uid n0 (\<lambda>r. r) (notice_rows db)) v = Some n" "notice_ok n0" for v n n0
    using that(1) by (rule sql.ups_all [rotated 3, where P = "\<lambda>v n. v \<in> torrent_uids db \<and> notice_ok n"])
      (use n u that(2) in auto)
  moreover have "distinct (map fst (sql_upsert uid n0 (\<lambda>r. r) (notice_rows db)))" for n0
    using ok by (intro sql.ups_distinct) (simp add: db_ok_def)
  ultimately show ?thesis
    using ok by (simp add: insert_notice_def db_ok_def notice_ok_def split: option.split)
qed

lemma complete_candidate_ok: "db_ok db \<Longrightarrow> uid \<in> torrent_uids db \<Longrightarrow> db_ok (complete_candidate k uid db)"
  unfolding complete_candidate_def by (erule db_ok_update) (auto simp: row_ok_def)

lemma persist_keeps_ok:
  assumes ok: "db_ok db" and t: "indexed_ok t"
  shows "db_ok (fst (persist_torrent compress cfg t k result now db))"
proof (cases "persist_torrent compress cfg t k result now db")
  case (Pair db' r)
  show ?thesis
  proof (cases r)
    case (Inl e)
    with Pair persist_Inl ok show ?thesis by fastforce
  next
    case (Inr x)
    then have p: "persist_torrent compress cfg t k result now db = (db', Inr ())" using Pair by simp
    have "int64 now"
      using p by (auto simp: persist_torrent_def write_torrent_def bind_r_Inr_iff Let_def case_prod_beta split: sum.splits if_splits)
    with persist_Inr(2) [OF p] ok t have "db_ok (stored_catalogue compress cfg t now db)"
      by (intro stored_catalogue_ok) (simp_all add: db_ok_def)
    then have "db_ok (insert_notice (torrent_uid t) result now (stored_catalogue compress cfg t now db))"
      by (rule insert_notice_ok) (simp add: torrent_uids_stored)
    then show ?thesis
      unfolding p fst_conv persist_Inr(1) [OF p]
      by (rule complete_candidate_ok) (simp add: insert_notice_def torrent_uids_stored split: option.split)
  qed
qed

section \<open>The catalogue as a machine\<close>

datatype db_event =
    Sighting string int int
  | Fetch_start string int
  | Fetch_fail string ustr int "int option"
  | Persist indexed_torrent string "keyword_result option" int
  | Reject string "ustr option"
  | Notice string bool int "int option" "ustr option"
  | Restart int

fun db_step :: "(bytes \<Rightarrow> bytes) \<Rightarrow> config \<Rightarrow> database \<Rightarrow> db_event \<Rightarrow> database \<Rightarrow> bool" where
  "db_step compress cfg db (Sighting k f l) db' \<longleftrightarrow> db' = fst (upsert_candidate_seen k f l db)"
| "db_step compress cfg db (Fetch_start k now) db' \<longleftrightarrow> db' = fst (mark_fetching k now db)"
| "db_step compress cfg db (Fetch_fail k err now next_ns) db' \<longleftrightarrow> db' = mark_fetch_failed cfg k err now next_ns db"
| "db_step compress cfg db (Persist t k result now) db' \<longleftrightarrow>
     indexed_ok t \<and> db' = fst (persist_torrent compress cfg t k result now db)"
| "db_step compress cfg db (Reject k err) db' \<longleftrightarrow> db' = mark_unsupported k err db"
| "db_step compress cfg db (Notice uid success now next_ns err) db' \<longleftrightarrow>
     db' = mark_notification_result cfg uid success now next_ns err db"
| "db_step compress cfg db (Restart now) db' \<longleftrightarrow> db' = recover_interrupted now db"

abbreviation catalogue_init :: "database \<Rightarrow> bool" where
  "catalogue_init db \<equiv> db = empty_database"

lemma empty_ok: "db_ok empty_database"
  by (simp add: db_ok_def empty_database_def)

interpretation catalogue: machine_invariant catalogue_init "db_step compress cfg" db_ok
proof
  show "db_ok db" if "catalogue_init db" for db using that empty_ok by simp
  show "db_ok db'" if "db_ok db" "db_step compress cfg db e db'" for db e db'
    using that
    by (cases e) (auto intro: upsert_keeps_ok mark_fetching_keeps_ok mark_fetch_failed_keeps_ok persist_keeps_ok
        mark_unsupported_keeps_ok notification_keeps_ok recover_keeps_ok)
qed

section \<open>When a torrent is stored\<close>

lemma sum_list_member_le: "x \<in> set xs \<Longrightarrow> (\<And>y. y \<in> set xs \<Longrightarrow> 0 \<le> y) \<Longrightarrow> x \<le> sum_list (xs :: int list)"
  by (induction xs) (auto intro: add_increasing add_increasing2 sum_list_nonneg)

lemma indexed_sizes_fit:
  assumes t: "indexed_ok t" and fit: "list_all int64 (torrent_ints t)"
  shows "list_all (\<lambda>f. int64 (int (file_index f)) \<and> int64 (file_size f)) (torrent_files t)"
proof -
  have tot: "total_size t < 2 ^ 63" and cnt: "int (file_count t) < 2 ^ 63"
    using fit by (simp_all add: torrent_ints_def int64_def)
  have "int64 (int (file_index f)) \<and> int64 (file_size f)" if "f \<in> set (torrent_files t)" for f
  proof -
    have "file_index f \<in> set (map file_index (torrent_files t))" using that by simp
    also have "set (map file_index (torrent_files t)) = {..<file_count t}"
      using t unfolding indexed_ok_def by (metis atLeast_upt)
    finally have "file_index f < file_count t" by simp
    moreover have "0 \<le> file_size f" "file_size f \<le> total_size t"
      using that t by (auto simp: indexed_ok_def intro!: sum_list_member_le)
    ultimately show ?thesis using tot cnt by (simp add: int64_def)
  qed
  then show ?thesis by (simp add: list_all_iff)
qed

lemma first_seen_fits: "db_ok db \<Longrightarrow> map_of (torrent_rows db) u = Some r \<Longrightarrow> int64 (tr_first_seen r)"
  by (simp add: db_ok_def torrent_ok_def)

lemma persist_fits:
  assumes ok: "db_ok db" and t: "indexed_ok t" and fit: "list_all int64 (torrent_ints t @ [now])"
  shows "\<exists>db'. persist_torrent compress cfg t k result now db = (db', Inr ())"
proof -
  have "\<exists>db1. write_torrent compress cfg t now db = Inr db1"
    using fit first_seen_fits [OF ok]
    by (auto simp: write_torrent_def Let_def case_prod_beta split: option.splits)
  then obtain db1 where w: "write_torrent compress cfg t now db = Inr db1" ..
  have "\<exists>db2. insert_files (torrent_uid t) (torrent_files t) (delete_files (torrent_uid t) db1) = Inr db2"
  proof (rule insert_files_total)
    show "distinct (map file_index (torrent_files t))" using t by (simp add: indexed_ok_def)
    show "list_all (\<lambda>f. int64 (int (file_index f)) \<and> int64 (file_size f)) (torrent_files t)"
      using indexed_sizes_fit [OF t] fit by simp
  qed (auto simp: delete_files_def)
  with w show ?thesis by (auto simp: persist_torrent_def)
qed

lemma persist_overflow:
  assumes "\<not> list_all int64 (torrent_ints t @ [now])"
  shows "persist_torrent compress cfg t k result now db = (db, Inl Overflow_Error)"
  using assms by (auto simp: persist_torrent_def write_torrent_def Let_def case_prod_beta)

lemma stored_candidate_row:
  "candidate_rows (insert_notice uid result now db) = candidate_rows db"
  "candidate_rows (stored_catalogue compress cfg t now db) = candidate_rows db"
  "torrent_rows (insert_notice uid result now db) = torrent_rows db"
  "torrent_rows (complete_candidate k uid db) = torrent_rows db"
  "notice_rows (complete_candidate k uid db) = notice_rows db"
  "notice_rows (stored_catalogue compress cfg t now db) = notice_rows db"
  "files_of u (complete_candidate k uid db) = files_of u db" "files_of u (insert_notice uid result now db) = files_of u db"
  by (simp_all add: insert_notice_def stored_catalogue_def complete_candidate_def files_of_def split: option.split)

lemma notice_row_after:
  "map_of (notice_rows (insert_notice uid result now db)) u =
     (if u = uid \<and> map_of (notice_rows db) u = None
      then map_option (\<lambda>kr. \<lparr>nt_keywords = found_keywords kr, nt_matches = found_values kr, nt_status = Pending,
             nt_created = now, nt_last_attempt = None, nt_next_attempt = Some now, nt_sent_at = None, nt_attempts = 0,
             nt_last_error = None\<rparr>) result
      else map_of (notice_rows db) u)"
  by (auto simp: insert_notice_def sql_upsert_row split: option.splits)

text \<open>The catalogue after a torrent was stored, as observations of its rows.\<close>

definition stored_as :: "(bytes \<Rightarrow> bytes) \<Rightarrow> config \<Rightarrow> indexed_torrent \<Rightarrow> string \<Rightarrow> keyword_result option \<Rightarrow> int \<Rightarrow>
    database \<Rightarrow> database \<Rightarrow> bool" where
  "stored_as compress cfg t k result now db db' \<longleftrightarrow>
     map_of (torrent_rows db') (torrent_uid t) = Some (torrent_row_of compress cfg t
       (case map_of (torrent_rows db) (torrent_uid t) of None \<Rightarrow> now | Some old \<Rightarrow> tr_first_seen old) now)
     \<and> files_of (torrent_uid t) db' = map (\<lambda>f. (file_index f, file_path f, file_size f)) (torrent_files t)
     \<and> map_of (candidate_rows db') k = map_option (\<lambda>c. c\<lparr>row_state := Complete, row_uid := Some (torrent_uid t),
         next_attempt_at := None, last_error := None\<rparr>) (map_of (candidate_rows db) k)
     \<and> (case map_of (notice_rows db) (torrent_uid t) of
          Some n \<Rightarrow> map_of (notice_rows db') (torrent_uid t) = Some n
        | None \<Rightarrow>
            (case result of
               None \<Rightarrow> map_of (notice_rows db') (torrent_uid t) = None
             | Some kr \<Rightarrow> (\<exists>n. map_of (notice_rows db') (torrent_uid t) = Some n \<and> nt_status n = Pending
                 \<and> nt_next_attempt n = Some now \<and> nt_keywords n = found_keywords kr \<and> nt_matches n = found_values kr)))
     \<and> (\<forall>j. j \<noteq> k \<longrightarrow> map_of (candidate_rows db') j = map_of (candidate_rows db) j)
     \<and> (\<forall>u. u \<noteq> torrent_uid t \<longrightarrow> map_of (torrent_rows db') u = map_of (torrent_rows db) u
          \<and> files_of u db' = files_of u db \<and> map_of (notice_rows db') u = map_of (notice_rows db) u)"

lemma complete_candidate_row:
  "map_of (candidate_rows (complete_candidate k uid db)) j =
     (if j = k then map_option (\<lambda>c. c\<lparr>row_state := Complete, row_uid := Some uid, next_attempt_at := None, last_error := None\<rparr>)
        (map_of (candidate_rows db) k) else map_of (candidate_rows db) j)"
  by (simp add: complete_candidate_def sql_update_row)

lemma stored_torrent_row:
  "map_of (torrent_rows (stored_catalogue compress cfg t now db)) u =
     (if u = torrent_uid t then Some (torrent_row_of compress cfg t
        (case map_of (torrent_rows db) (torrent_uid t) of None \<Rightarrow> now | Some old \<Rightarrow> tr_first_seen old) now)
      else map_of (torrent_rows db) u)"
  by (auto simp: stored_catalogue_def sql_upsert_row split: option.splits)

lemma stored_as_intro:
  "stored_as compress cfg t k result now db
     (complete_candidate k (torrent_uid t) (insert_notice (torrent_uid t) result now (stored_catalogue compress cfg t now db)))"
  unfolding stored_as_def
  by (auto simp: stored_candidate_row complete_candidate_row stored_torrent_row files_of_stored notice_row_after split: option.splits)

text \<open>C30. Storing a torrent is one transaction. In a well-formed catalogue it succeeds exactly when
  the torrent's numbers fit the 64 bits of a column, and otherwise raises and changes
  nothing. When it succeeds the catalogue holds the torrent with exactly its files, keeps the
  time it was first seen, marks the candidate complete, and queues a notification at once,
  unless the torrent has one already; no other row changes.\<close>

theorem persist_torrent_atomic:
  assumes ok: "reachable catalogue_init (db_step compress cfg) db" and t: "indexed_ok t"
  shows "if list_all int64 (torrent_ints t @ [now])
    then \<exists>db'. persist_torrent compress cfg t k result now db = (db', Inr ()) \<and> stored_as compress cfg t k result now db db'
    else persist_torrent compress cfg t k result now db = (db, Inl Overflow_Error)"
proof (cases "list_all int64 (torrent_ints t @ [now])")
  case True
  from persist_fits [OF catalogue.reachable_inv [OF ok] t True] obtain db'
    where p: "persist_torrent compress cfg t k result now db = (db', Inr ())" by blast
  with persist_Inr(1) [OF p] stored_as_intro True show ?thesis by auto
next
  case False
  then show ?thesis using persist_overflow [OF False] by (simp del: list_all_append)
qed

definition small_torrent :: "int \<Rightarrow> indexed_torrent" where
  "small_torrent n = \<lparr>torrent_uid = ''btih:1'', torrent_name = None, total_size = n, file_count = 1, piece_length = None,
     info_size = 3, raw_info = [1, 2, 3], torrent_files = [\<lparr>file_index = 0, file_path = [97], file_size = n\<rparr>]\<rparr>"

lemma small_torrent_ok: "0 \<le> n \<Longrightarrow> indexed_ok (small_torrent n)"
  by (simp add: small_torrent_def indexed_ok_def)

lemma persist_torrent_atomic_witness:
  "(\<exists>db'. persist_torrent (\<lambda>b. b) default_config (small_torrent 5) ''dht20:1'' None 9 empty_database = (db', Inr ()))
   \<and> persist_torrent (\<lambda>b. b) default_config (small_torrent (2 ^ 63)) ''dht20:1'' None 9 empty_database =
     (empty_database, Inl Overflow_Error)"
proof
  have r: "reachable catalogue_init (db_step (\<lambda>b. b) default_config) empty_database" by (rule reachable.start) simp
  have "indexed_ok (small_torrent 5)" by (rule small_torrent_ok) simp
  from persist_torrent_atomic [OF r this, of 9 "''dht20:1''" None]
  show "\<exists>db'. persist_torrent (\<lambda>b. b) default_config (small_torrent 5) ''dht20:1'' None 9 empty_database = (db', Inr ())"
    by (auto simp: small_torrent_def torrent_ints_def int64_def)
  have "indexed_ok (small_torrent (2 ^ 63))" by (rule small_torrent_ok) simp
  from persist_torrent_atomic [OF r this, of 9 "''dht20:1''" None]
  show "persist_torrent (\<lambda>b. b) default_config (small_torrent (2 ^ 63)) ''dht20:1'' None 9 empty_database =
     (empty_database, Inl Overflow_Error)"
    by (simp add: small_torrent_def torrent_ints_def int64_def)
qed

text \<open>C29. Whatever operations run in whatever order, the catalogue stays well-formed: primary keys are
  unique; files and notifications belong to a stored torrent; the files of a torrent are
  numbered from zero and agree with its file count and total size; a candidate is complete
  only with a stored torrent, and has a next attempt only when its fetch failed; a
  notification is pending exactly when it has a next attempt.\<close>

theorem catalogue_well_formed:
  assumes "reachable catalogue_init (db_step compress cfg) db"
  shows "db_ok db"
  using catalogue.reachable_inv [OF assms] .

lemma catalogue_well_formed_witness:
  "db_ok (fst (persist_torrent (\<lambda>b. b) default_config (small_torrent 5) ''dht20:1'' None 9
     (fst (upsert_candidate_seen ''dht20:1'' 3 4 empty_database))))"
proof (rule catalogue_well_formed)
  have "reachable catalogue_init (db_step (\<lambda>b. b) default_config) (fst (upsert_candidate_seen ''dht20:1'' 3 4 empty_database))"
    by (rule reachable.step [where e = "Sighting ''dht20:1'' 3 4", OF reachable.start]) simp_all
  then show "reachable catalogue_init (db_step (\<lambda>b. b) default_config)
      (fst (persist_torrent (\<lambda>b. b) default_config (small_torrent 5) ''dht20:1'' None 9
        (fst (upsert_candidate_seen ''dht20:1'' 3 4 empty_database))))"
    by (rule reachable.step [where e = "Persist (small_torrent 5) ''dht20:1'' None 9"]) (simp add: small_torrent_ok)
qed

end
