(* ===== verification/Crawl.thy ===== *)
theory Crawl
  imports Storage Candidates Net Monitoring
begin

text \<open>
  The work on one candidate, \<open>_process_candidate\<close> of \<open>main.py\<close>, with the retry schedule around
  it: what the manager of candidates, the catalogue, the lookup of peers, the peer sessions,
  the indexer and the keyword match do together. The sessions and the lookup are arguments
  (the components that model them are separate); what the other tasks do while this one
  awaits is an argument as well, a function on the shared state for each await.
\<close>

section \<open>Keys as text\<close>

definition hex_char :: "nat \<Rightarrow> char" where
  "hex_char n = ''0123456789abcdef'' ! n"

definition hex :: "bytes \<Rightarrow> string" where
  "hex b = concat (map (\<lambda>x. [hex_char (unat x div 16), hex_char (unat x mod 16)]) b)"

definition dht_key_text :: "bytes \<Rightarrow> pyexn + string" where
  "dht_key_text k = (if length k \<noteq> 20 then Inl (ValueError ''DHT key must be 20 bytes'') else Inr (''dht20:'' @ hex k))"

text \<open>\<open>bytes.fromhex\<close>: digits of either case, ASCII white space between the bytes.\<close>

definition hex_value :: "char \<Rightarrow> nat option" where
  "hex_value c =
     (let n = of_char c :: nat in
      if 48 \<le> n \<and> n \<le> 57 then Some (n - 48)
      else if 97 \<le> n \<and> n \<le> 102 then Some (n - 87)
      else if 65 \<le> n \<and> n \<le> 70 then Some (n - 55) else None)"

definition ascii_space :: "char \<Rightarrow> bool" where
  "ascii_space c \<longleftrightarrow> (let n = of_char c :: nat in n = 32 \<or> (9 \<le> n \<and> n \<le> 13))"

fun fromhex :: "string \<Rightarrow> bytes option" where
  "fromhex [] = Some []"
| "fromhex [c] = (if ascii_space c then Some [] else None)"
| "fromhex (c # d # s) =
     (if ascii_space c then fromhex (d # s)
      else
        (case (hex_value c, hex_value d) of
           (Some h, Some l) \<Rightarrow> map_option (\<lambda>bs. of_nat (16 * h + l) # bs) (fromhex s)
         | _ \<Rightarrow> None))"

definition parse_dht_key :: "string \<Rightarrow> bytes option" where
  "parse_dht_key t =
     (if take 6 t \<noteq> ''dht20:'' then None
      else (case fromhex (drop 6 t) of
              None \<Rightarrow> None
            | Some v \<Rightarrow> if length v = 20 then Some v else None))"

section \<open>Retries\<close>

definition retry_delay :: "int \<Rightarrow> int \<Rightarrow> int \<Rightarrow> int" where
  "retry_delay attempt lo hi =
     (let e = nat (max 0 (min (attempt - 1) 30)) in min hi (lo * 2 ^ e))"

text \<open>The next attempt after a failure at \<open>now\<close>, from the candidate's row.\<close>

definition attempt_no :: "candidate_row option \<Rightarrow> int" where
  "attempt_no latest = (case latest of None \<Rightarrow> 1 | Some r \<Rightarrow> attempts r)"

definition next_attempt :: "config \<Rightarrow> candidate_row option \<Rightarrow> int \<Rightarrow> int option" where
  "next_attempt cfg latest now =
     (let n = attempt_no latest in
      if FETCH_RETRY_MAX_ATTEMPTS cfg \<le> n then None
      else Some (now + retry_delay n (FETCH_RETRY_BASE_SECONDS cfg) (FETCH_RETRY_MAX_SECONDS cfg) * 1000000000))"

text \<open>Whether a candidate is fetched now, from the row \<open>upsert_candidate_seen\<close> returned.\<close>

definition admissible :: "candidate_row option \<Rightarrow> int \<Rightarrow> bool" where
  "admissible row now \<longleftrightarrow>
     (case row of
        None \<Rightarrow> True
      | Some r \<Rightarrow>
          row_state r \<notin> {Complete, Unsupported}
          \<and> (row_state r = Fetch_failed \<longrightarrow> (case next_attempt_at r of None \<Rightarrow> False | Some d \<Rightarrow> d \<le> now)))"

section \<open>Sessions with the peers of a candidate\<close>

text \<open>How a session ends for this code: with the metadata, with a \<open>PeerError\<close> and its text, or with
  an exception of another class, which nothing here catches.\<close>

datatype fetch_outcome = Got bytes | Peer_failed ustr | Fetch_raised

text \<open>\<open>f"{ip}:{port} {category}: {exc}"\<close>; the last part is the text of the outcome.\<close>

definition peer_error_text :: "endpoint \<Rightarrow> ustr \<Rightarrow> ustr" where
  "peer_error_text ep t = map unat (fst ep) @ [58] @ map unat (int_text (snd ep)) @ [32] @ t"

text \<open>The state of the two loops: the endpoints tried in order, the error texts, the metadata.\<close>

record session_log =
  tried :: "endpoint list"
  errors :: "ustr list"
  found :: "bytes option"

definition try_endpoint :: "(endpoint \<Rightarrow> fetch_outcome) \<Rightarrow> endpoint \<Rightarrow> session_log \<Rightarrow> session_log option" where
  "try_endpoint fetch_from ep l =
     (let l1 = l\<lparr>tried := tried l @ [ep]\<rparr> in
      case fetch_from ep of
        Got raw \<Rightarrow> Some (l1\<lparr>found := Some raw\<rparr>)
      | Peer_failed t \<Rightarrow> Some (l1\<lparr>errors := errors l1 @ [peer_error_text ep t]\<rparr>)
      | Fetch_raised \<Rightarrow> None)"

text \<open>The loop over the peer hints; \<open>None\<close> when an exception leaves it.\<close>

fun try_hints :: "config \<Rightarrow> atext set \<Rightarrow> (endpoint \<Rightarrow> fetch_outcome) \<Rightarrow> peer_hint list \<Rightarrow> session_log \<Rightarrow>
    session_log option" where
  "try_hints cfg loc fetch_from [] l = Some l"
| "try_hints cfg loc fetch_from ((ip, port, implied) # hs) l =
     (if (ip, port) \<in> set (tried l) \<or> \<not> endpoint_allowed cfg loc ip port then try_hints cfg loc fetch_from hs l
      else
        (case try_endpoint fetch_from (ip, port) l of
           None \<Rightarrow> None
         | Some l' \<Rightarrow> if found l' = None then try_hints cfg loc fetch_from hs l' else Some l'))"

text \<open>The hints that arrived during the lookup come first, then the peers it found.\<close>

definition peer_order :: "candidate_state option \<Rightarrow> endpoint list \<Rightarrow> endpoint list \<Rightarrow> endpoint list" where
  "peer_order current_state tried_eps peers =
     (case current_state of
        None \<Rightarrow> peers
      | Some c \<Rightarrow>
          (let late = filter (\<lambda>ep. ep \<notin> set tried_eps) (map (\<lambda>(ip, port, implied). (ip, port)) (peer_hints c))
           in late @ filter (\<lambda>ep. ep \<notin> set late) peers))"

fun try_peers :: "int \<Rightarrow> (endpoint \<Rightarrow> fetch_outcome) \<Rightarrow> endpoint list \<Rightarrow> int \<Rightarrow> session_log \<Rightarrow> session_log option" where
  "try_peers limit fetch_from [] n l = Some l"
| "try_peers limit fetch_from (ep # eps) n l =
     (if found l \<noteq> None \<or> limit \<le> n then Some l
      else if ep \<in> set (tried l) then try_peers limit fetch_from eps n l
      else
        (case try_endpoint fetch_from ep l of
           None \<Rightarrow> None
         | Some l' \<Rightarrow> if found l' = None then try_peers limit fetch_from eps (n + 1) l' else Some l'))"

section \<open>One candidate\<close>

record world =
  w_manager :: candidate_manager
  w_db :: database

text \<open>What one run takes from outside: the clocks, the outcomes of the sessions and of the lookup,
  and \<open>others i\<close>, what the other tasks did to the shared state before the \<open>i\<close>-th operation.\<close>

record crawl_env =
  c_others :: "nat \<Rightarrow> world \<Rightarrow> world"
  c_wall :: "nat \<Rightarrow> int"
  c_stamp :: int
  c_mono :: int
  c_fetch :: "endpoint \<Rightarrow> fetch_outcome"
  c_lookup :: "ustr + endpoint list"
  c_local :: "atext set"
  c_casefold :: "ustr \<Rightarrow> ustr"
  c_compress :: "bytes \<Rightarrow> bytes"
  c_index_text :: "indexing_exn \<Rightarrow> ustr"

datatype crawl_result = Skipped | Indexed | Scheduled int | Exhausted | Crashed_run

definition finish_key :: "config \<Rightarrow> crawl_env \<Rightarrow> bytes \<Rightarrow> world \<Rightarrow> world" where
  "finish_key cfg e k w = w\<lparr>w_manager := finish cfg (c_stamp e) (c_mono e) (w_manager w) k True\<rparr>"

text \<open>The first part: the sighting is recorded and the candidate admitted or dropped.\<close>

definition admit_candidate :: "config \<Rightarrow> crawl_env \<Rightarrow> bytes \<Rightarrow> string \<Rightarrow> world \<Rightarrow> world \<times> bool" where
  "admit_candidate cfg e k kt w0 =
     (let memory = state_for (w_manager w0) k;
          first_ns = (case memory of None \<Rightarrow> c_wall e 0 | Some c \<Rightarrow> first_seen_wall_ns c);
          last_ns = (case memory of None \<Rightarrow> first_ns | Some c \<Rightarrow> last_seen_wall_ns c);
          now = c_wall e 1;
          w1 = c_others e 0 w0;
          (db1, row) = upsert_candidate_seen kt first_ns last_ns (w_db w1);
          w2 = c_others e 1 (w1\<lparr>w_db := db1\<rparr>)
      in if \<not> admissible row now then (finish_key cfg e k w2, False)
         else
           (let (db2, marked) = mark_fetching kt now (w_db w2);
                w3 = c_others e 2 (w2\<lparr>w_db := db2\<rparr>)
            in if marked then (w3, True) else (finish_key cfg e k w3, False)))"

text \<open>The sessions: the hints, the lookup when they gave nothing, then the peers. The lookup's
  exceptions are caught.\<close>

definition run_sessions :: "config \<Rightarrow> crawl_env \<Rightarrow> bytes \<Rightarrow> world \<Rightarrow> world \<times> session_log option" where
  "run_sessions cfg e k w =
     (let hints = (case state_for (w_manager w) k of None \<Rightarrow> [] | Some c \<Rightarrow> peer_hints c);
          limit = min (MAX_PEERS_PER_TORRENT cfg) (MAX_METADATA_ATTEMPTS_PER_TORRENT cfg)
      in case try_hints cfg (c_local e) (c_fetch e) (take (nat (MAX_PEER_HINTS_PER_CANDIDATE cfg)) hints)
                \<lparr>tried = [], errors = [], found = None\<rparr> of
           None \<Rightarrow> (w, None)
         | Some l \<Rightarrow>
             (let (peers, l1) =
                    (if found l \<noteq> None then ([], l)
                     else case c_lookup e of
                            Inl t \<Rightarrow> ([], l\<lparr>errors := errors l @ [t]\<rparr>)
                          | Inr ps \<Rightarrow> (ps, l));
                  w' = c_others e 3 w
              in (w', try_peers limit (c_fetch e) (peer_order (state_for (w_manager w') k) (tried l1) peers)
                        (int (length (tried l1))) l1)))"

definition index_candidate :: "config \<Rightarrow> crawl_env \<Rightarrow> bytes \<Rightarrow> bytes \<Rightarrow>
    indexing_exn + indexed_torrent \<times> keyword_result option" where
  "index_candidate cfg e k raw =
     bind_r (parse_validated_info cfg raw (''btih:'' @ hex k)) (\<lambda>t.
       Inr (t, if KEYWORD_MONITORING_ENABLED cfg
               then match_keywords (c_casefold e) t (KEYWORDS cfg) (KEYWORD_CASE_SENSITIVE cfg) else None))"

text \<open>\<open>"; ".join(errors[-8:]) or "no usable metadata peer found"\<close>.\<close>

fun join_errors :: "ustr list \<Rightarrow> ustr" where
  "join_errors [] = []"
| "join_errors [t] = t"
| "join_errors (t # ts) = t @ [59, 32] @ join_errors ts"

definition error_text :: "ustr list \<Rightarrow> ustr" where
  "error_text es =
     (let t = join_errors (drop (length es - 8) es)
      in if t = [] then map of_char ''no usable metadata peer found'' else t)"

text \<open>The failed attempt is recorded with the next one, if any.\<close>

definition record_failure :: "config \<Rightarrow> crawl_env \<Rightarrow> bytes \<Rightarrow> string \<Rightarrow> ustr list \<Rightarrow> world \<Rightarrow> world \<times> crawl_result" where
  "record_failure cfg e k kt es w =
     (let w1 = c_others e 4 w;
          latest = candidate_row_of kt (w_db w1);
          w2 = c_others e 5 w1;
          now = c_wall e 3;
          due = next_attempt cfg latest now;
          w3 = w2\<lparr>w_db := mark_fetch_failed cfg kt (error_text es) now due (w_db w2)\<rparr>
      in (finish_key cfg e k (c_others e 6 w3), case due of None \<Rightarrow> Exhausted | Some d \<Rightarrow> Scheduled d))"

definition process_candidate :: "config \<Rightarrow> crawl_env \<Rightarrow> bytes \<Rightarrow> world \<Rightarrow> world \<times> crawl_result" where
  "process_candidate cfg e k w0 =
     (case dht_key_text k of
        Inl x \<Rightarrow> (w0, Crashed_run)
      | Inr kt \<Rightarrow>
          (case admit_candidate cfg e k kt w0 of
             (w1, False) \<Rightarrow> (w1, Skipped)
           | (w1, True) \<Rightarrow>
               (case run_sessions cfg e k w1 of
                  (w2, None) \<Rightarrow> (w2, Crashed_run)
                | (w2, Some l) \<Rightarrow>
                    (case found l of
                       None \<Rightarrow> record_failure cfg e k kt (errors l) w2
                     | Some raw \<Rightarrow>
                         (case index_candidate cfg e k raw of
                            Inl x \<Rightarrow> record_failure cfg e k kt (errors l @ [c_index_text e x]) w2
                          | Inr (t, result) \<Rightarrow>
                              (let w3 = c_others e 4 w2;
                                   (db, r) = persist_torrent (c_compress e) cfg t kt result (c_wall e 2) (w_db w3)
                               in case r of
                                    Inl x \<Rightarrow> (w3\<lparr>w_db := db\<rparr>, Crashed_run)
                                  | Inr u \<Rightarrow> (finish_key cfg e k (c_others e 5 (w3\<lparr>w_db := db\<rparr>)), Indexed)))))))"

text \<open>The retry scheduler's scan: the due keys of the catalogue are submitted again.\<close>

fun resubmit :: "config \<Rightarrow> (nat \<Rightarrow> int) \<Rightarrow> (nat \<Rightarrow> int) \<Rightarrow> nat \<Rightarrow> string list \<Rightarrow> candidate_manager \<Rightarrow> candidate_manager" where
  "resubmit cfg clk wall i [] m = m"
| "resubmit cfg clk wall i (t # ts) m =
     (case parse_dht_key t of
        None \<Rightarrow> resubmit cfg clk wall (Suc i) ts m
      | Some k \<Rightarrow> resubmit cfg clk wall (Suc i) ts (fst (submit cfg (clk i) (wall i) m k ''durable_retry'' None True)))"

definition retry_scan :: "config \<Rightarrow> (nat \<Rightarrow> int) \<Rightarrow> (nat \<Rightarrow> int) \<Rightarrow> int \<Rightarrow> world \<Rightarrow> world" where
  "retry_scan cfg clk wall now w =
     w\<lparr>w_manager := resubmit cfg clk wall 0 (due_candidates now (RETRY_SCAN_BATCH_SIZE cfg) (w_db w)) (w_manager w)\<rparr>"

end
