(* ===== verification/Crawl_Correct.thy ===== *)
theory Crawl_Correct
  imports Crawl
begin

text \<open>
  What the work on candidates guarantees: keys survive the text form of the catalogue; each
  endpoint is tried at most once and the sessions stay within their limit; a run ends with its
  candidate stored, scheduled again or given up, and its key released; and every history of
  workers, failures and restarts is one of the candidate's life cycle, which bounds the
  number of attempts.
\<close>

section \<open>Keys as text\<close>

lemma hex_value_char: "n < 16 \<Longrightarrow> hex_value (hex_char n) = Some n"
proof -
  have "\<forall>n \<in> set [0..<16]. hex_value (hex_char n) = Some n" by code_simp
  then show "n < 16 \<Longrightarrow> hex_value (hex_char n) = Some n" by simp
qed

lemma hex_char_not_space: "n < 16 \<Longrightarrow> \<not> ascii_space (hex_char n)"
proof -
  have "\<forall>n \<in> set [0..<16]. \<not> ascii_space (hex_char n)" by code_simp
  then show "n < 16 \<Longrightarrow> \<not> ascii_space (hex_char n)" by simp
qed

lemma fromhex_hex: "fromhex (hex b) = Some b"
proof (induction b)
  case (Cons x b)
  have "unat x div 16 < 16" using unat_byte_less [of x] by (simp add: div_less_iff_less_mult)
  moreover have "of_nat (16 * (unat x div 16) + unat x mod 16) = x" by simp
  ultimately show ?case
    using Cons by (simp add: hex_def hex_value_char hex_char_not_space)
qed (simp add: hex_def)

text \<open>The catalogue's text form of a key loses nothing: every 20-byte key has one, the retry
  scheduler reads exactly that key back, and whatever text it accepts, in either case of the
  digits, denotes a 20-byte key.\<close>

theorem dht_key_roundtrip:
  "(length k = 20 \<longleftrightarrow> (\<exists>t. dht_key_text k = Inr t \<and> parse_dht_key t = Some k))
   \<and> (\<forall>t. parse_dht_key t \<noteq> None \<longrightarrow> length (the (parse_dht_key t)) = 20)"
  by (auto simp: dht_key_text_def parse_dht_key_def fromhex_hex split: option.splits if_splits)

lemma dht_key_roundtrip_witness:
  "(\<exists>t. dht_key_text (replicate 20 171) = Inr t \<and> parse_dht_key t = Some (replicate 20 171))
   \<and> parse_dht_key (''dht20:'' @ concat (replicate 20 ''aB'')) = Some (replicate 20 171)"
proof
  show "\<exists>t. dht_key_text (replicate 20 171) = Inr t \<and> parse_dht_key t = Some (replicate 20 171)"
    using dht_key_roundtrip [of "replicate 20 171"] by simp
  show "parse_dht_key (''dht20:'' @ concat (replicate 20 ''aB'')) = Some (replicate 20 171)"
    by code_simp
qed

section \<open>Sessions\<close>

text \<open>What holds of the log at every point of the two loops.\<close>

definition log_sound :: "(endpoint \<Rightarrow> fetch_outcome) \<Rightarrow> session_log \<Rightarrow> bool" where
  "log_sound fetch_from l \<longleftrightarrow> distinct (tried l)
     \<and> (\<forall>raw. found l = Some raw \<longrightarrow> (\<exists>ep. tried l \<noteq> [] \<and> ep = last (tried l) \<and> fetch_from ep = Got raw))
     \<and> (found l = None \<longrightarrow> (\<forall>ep \<in> set (tried l). \<exists>t. fetch_from ep = Peer_failed t))"

lemma try_endpoint_sound:
  assumes "try_endpoint fetch_from ep l = Some l'" and "log_sound fetch_from l" and "ep \<notin> set (tried l)" and "found l = None"
  shows "log_sound fetch_from l' \<and> tried l' = tried l @ [ep]"
  using assms by (auto simp: try_endpoint_def log_sound_def Let_def split: fetch_outcome.splits)

lemma try_hints_sound:
  assumes "try_hints cfg loc fetch_from hs l = Some l'" and "log_sound fetch_from l" and "found l = None"
  shows "log_sound fetch_from l' \<and> length (tried l') \<le> length (tried l) + length hs
    \<and> set (tried l') \<subseteq> set (tried l) \<union> {ep. endpoint_allowed cfg loc (fst ep) (snd ep)}"
  using assms
proof (induction hs arbitrary: l)
  case (Cons h hs)
  obtain ip port i where h: "h = (ip, port, i)" by (cases h) auto
  show ?case
  proof (cases "(ip, port) \<in> set (tried l) \<or> \<not> endpoint_allowed cfg loc ip port")
    case True
    with Cons.prems h have "try_hints cfg loc fetch_from hs l = Some l'" by simp
    from Cons.IH [OF this Cons.prems(2,3)] show ?thesis by auto
  next
    case False
    with Cons.prems h obtain l1 where l1: "try_endpoint fetch_from (ip, port) l = Some l1"
      and rest: "(if found l1 = None then try_hints cfg loc fetch_from hs l1 else Some l1) = Some l'"
      by (auto split: option.splits)
    from try_endpoint_sound [OF l1 Cons.prems(2) _ Cons.prems(3)] False
    have s: "log_sound fetch_from l1" "tried l1 = tried l @ [(ip, port)]" by auto
    show ?thesis
    proof (cases "found l1 = None")
      case True
      with rest have "try_hints cfg loc fetch_from hs l1 = Some l'" by simp
      from Cons.IH [OF this s(1) True] s(2) h False show ?thesis by auto
    next
      case more: False
      with rest s h False show ?thesis by auto
    qed
  qed
qed auto

lemma try_peers_sound:
  assumes "try_peers limit fetch_from eps n l = Some l'" and "log_sound fetch_from l" and "n = int (length (tried l))"
  shows "log_sound fetch_from l' \<and> int (length (tried l')) \<le> max n limit
    \<and> (\<exists>more. tried l' = tried l @ more \<and> set more \<subseteq> set eps)
    \<and> (found l' = None \<and> int (length (tried l')) < limit \<longrightarrow> set eps \<subseteq> set (tried l'))"
  using assms
proof (induction eps arbitrary: n l)
  case (Cons ep eps)
  show ?case
  proof (cases "found l \<noteq> None \<or> limit \<le> n")
    case True
    with Cons.prems show ?thesis by auto
  next
    case False
    then have nf: "found l = None" by simp
    show ?thesis
    proof (cases "ep \<in> set (tried l)")
      case True
      with False Cons.prems have "try_peers limit fetch_from eps n l = Some l'" by simp
      from Cons.IH [OF this Cons.prems(2,3)] True show ?thesis by auto
    next
      case new: False
      with False Cons.prems obtain l1 where l1: "try_endpoint fetch_from ep l = Some l1"
        and rest: "(if found l1 = None then try_peers limit fetch_from eps (n + 1) l1 else Some l1) = Some l'"
        by (auto split: option.splits)
      from try_endpoint_sound [OF l1 Cons.prems(2) new nf]
      have s: "log_sound fetch_from l1" "tried l1 = tried l @ [ep]" by auto
      show ?thesis
      proof (cases "found l1 = None")
        case True
        with rest have "try_peers limit fetch_from eps (n + 1) l1 = Some l'" by simp
        from Cons.IH [OF this s(1)] s(2) Cons.prems(3) False show ?thesis by auto
      next
        case more: False
        with rest s Cons.prems(3) False show ?thesis by auto
      qed
    qed
  qed
qed auto

lemma peer_order_covers:
  assumes "set (peer_order st done peers) \<subseteq> T" and "set done \<subseteq> T"
  shows "(\<forall>c. st = Some c \<longrightarrow> (\<forall>(ip, port, i) \<in> set (peer_hints c). (ip, port) \<in> T)) \<and> set peers \<subseteq> T"
  using assms by (force simp: peer_order_def Let_def split: option.splits)

lemma peer_order_from:
  "ep \<in> set (peer_order st done peers) \<Longrightarrow>
     ep \<in> set peers \<or> (\<exists>c i. st = Some c \<and> (fst ep, snd ep, i) \<in> set (peer_hints c))"
  by (force simp: peer_order_def Let_def split: option.splits)

text \<open>A run of the sessions is the hints, the lookup unless they found something, and the peers.\<close>

lemma run_sessions_steps:
  assumes run: "run_sessions cfg e k w = (w', Some l)"
  obtains l0 peers l1 where
    "try_hints cfg (c_local e) (c_fetch e) (take (nat (MAX_PEER_HINTS_PER_CANDIDATE cfg))
        (case state_for (w_manager w) k of None \<Rightarrow> [] | Some c \<Rightarrow> peer_hints c))
        \<lparr>tried = [], errors = [], found = None\<rparr> = Some l0"
    and "tried l1 = tried l0" and "found l1 = found l0"
    and "\<forall>ep \<in> set peers. \<exists>ps. c_lookup e = Inr ps \<and> ep \<in> set ps"
    and "found l = None \<longrightarrow> (\<forall>ps. c_lookup e = Inr ps \<longrightarrow> peers = ps)"
    and "try_peers (min (MAX_PEERS_PER_TORRENT cfg) (MAX_METADATA_ATTEMPTS_PER_TORRENT cfg)) (c_fetch e)
        (peer_order (state_for (w_manager w') k) (tried l1) peers) (int (length (tried l1))) l1 = Some l"
proof -
  from run obtain l0 peers l1 where
    h: "try_hints cfg (c_local e) (c_fetch e) (take (nat (MAX_PEER_HINTS_PER_CANDIDATE cfg))
        (case state_for (w_manager w) k of None \<Rightarrow> [] | Some c \<Rightarrow> peer_hints c))
        \<lparr>tried = [], errors = [], found = None\<rparr> = Some l0"
    and l1: "(peers, l1) = (if found l0 \<noteq> None then ([], l0)
       else case c_lookup e of Inl t \<Rightarrow> ([], l0\<lparr>errors := errors l0 @ [t]\<rparr>) | Inr ps \<Rightarrow> (ps, l0))"
    and p: "try_peers (min (MAX_PEERS_PER_TORRENT cfg) (MAX_METADATA_ATTEMPTS_PER_TORRENT cfg)) (c_fetch e)
        (peer_order (state_for (w_manager w') k) (tried l1) peers) (int (length (tried l1))) l1 = Some l"
    by (auto simp: run_sessions_def Let_def split: option.splits prod.splits)
  have same: "tried l1 = tried l0" "found l1 = found l0" using l1 by (auto split: if_splits sum.splits)
  have "found l0 = None" if "found l = None"
  proof (rule ccontr)
    assume "found l0 \<noteq> None"
    then have "l = l1" using p same by (cases "peer_order (state_for (w_manager w') k) (tried l1) peers") auto
    with that same \<open>found l0 \<noteq> None\<close> show False by simp
  qed
  then have all: "found l = None \<longrightarrow> (\<forall>ps. c_lookup e = Inr ps \<longrightarrow> peers = ps)" using l1 by auto
  have peers: "\<forall>ep \<in> set peers. \<exists>ps. c_lookup e = Inr ps \<and> ep \<in> set ps" using l1 by (auto split: if_splits sum.splits)
  show thesis by (rule that [OF h same peers all p])
qed

text \<open>C28. A run connects to no endpoint twice and to at most as many as the larger of the number of
  hints and the limits on peers and attempts; an endpoint it connects to is allowed, or came
  from the lookup or as a hint during it. It ends with metadata exactly when its last
  session returned it; otherwise every session failed, and unless the limit was reached no
  hint and no peer of the lookup is left untried.\<close>

theorem sessions_bounded:
  assumes run: "run_sessions cfg e k w = (w', Some l)"
  shows "distinct (tried l)
    \<and> int (length (tried l)) \<le> max (max 0 (MAX_PEER_HINTS_PER_CANDIDATE cfg))
         (min (MAX_PEERS_PER_TORRENT cfg) (MAX_METADATA_ATTEMPTS_PER_TORRENT cfg))
    \<and> (\<forall>ep \<in> set (tried l). endpoint_allowed cfg (c_local e) (fst ep) (snd ep)
         \<or> (\<exists>ps. c_lookup e = Inr ps \<and> ep \<in> set ps)
         \<or> (\<exists>c i. state_for (w_manager w') k = Some c \<and> (fst ep, snd ep, i) \<in> set (peer_hints c)))
    \<and> (case found l of
         Some raw \<Rightarrow> tried l \<noteq> [] \<and> c_fetch e (last (tried l)) = Got raw
       | None \<Rightarrow> (\<forall>ep \<in> set (tried l). \<exists>t. c_fetch e ep = Peer_failed t)
           \<and> (int (length (tried l)) < min (MAX_PEERS_PER_TORRENT cfg) (MAX_METADATA_ATTEMPTS_PER_TORRENT cfg) \<longrightarrow>
                (\<forall>c. state_for (w_manager w') k = Some c \<longrightarrow>
                   (\<forall>(ip, port, i) \<in> set (peer_hints c). (ip, port) \<in> set (tried l)))
                \<and> (\<forall>ps. c_lookup e = Inr ps \<longrightarrow> set ps \<subseteq> set (tried l))))"
proof -
  let ?limit = "min (MAX_PEERS_PER_TORRENT cfg) (MAX_METADATA_ATTEMPTS_PER_TORRENT cfg)"
  let ?st = "state_for (w_manager w') k"
  from run obtain l0 peers l1 where
    h: "try_hints cfg (c_local e) (c_fetch e) (take (nat (MAX_PEER_HINTS_PER_CANDIDATE cfg))
        (case state_for (w_manager w) k of None \<Rightarrow> [] | Some c \<Rightarrow> peer_hints c)) \<lparr>tried = [], errors = [], found = None\<rparr> = Some l0"
    and same: "tried l1 = tried l0" "found l1 = found l0"
    and peers: "\<forall>ep \<in> set peers. \<exists>ps. c_lookup e = Inr ps \<and> ep \<in> set ps"
    and all: "found l = None \<longrightarrow> (\<forall>ps. c_lookup e = Inr ps \<longrightarrow> peers = ps)"
    and p: "try_peers ?limit (c_fetch e) (peer_order ?st (tried l1) peers) (int (length (tried l1))) l1 = Some l"
    by (rule run_sessions_steps)
  from try_hints_sound [OF h] same have s1: "log_sound (c_fetch e) l1"
    and hs: "\<forall>ep \<in> set (tried l1). endpoint_allowed cfg (c_local e) (fst ep) (snd ep)"
    and len: "int (length (tried l1)) \<le> max 0 (MAX_PEER_HINTS_PER_CANDIDATE cfg)" by (auto simp: log_sound_def)
  note s = try_peers_sound [OF p s1 refl]
  obtain more where more: "tried l = tried l1 @ more" "set more \<subseteq> set (peer_order ?st (tried l1) peers)" using s by blast
  have from_order: "ep \<in> set (tried l) \<Longrightarrow> endpoint_allowed cfg (c_local e) (fst ep) (snd ep)
      \<or> (\<exists>ps. c_lookup e = Inr ps \<and> ep \<in> set ps)
      \<or> (\<exists>c i. ?st = Some c \<and> (fst ep, snd ep, i) \<in> set (peer_hints c))" for ep
    using more hs peers peer_order_from [of ep ?st "tried l1" peers] by auto
  have d: "distinct (tried l)" and f: "case found l of Some raw \<Rightarrow> tried l \<noteq> [] \<and> c_fetch e (last (tried l)) = Got raw
      | None \<Rightarrow> \<forall>ep \<in> set (tried l). \<exists>t. c_fetch e ep = Peer_failed t"
    using s by (auto simp: log_sound_def split: option.split)
  have n: "int (length (tried l)) \<le> max (max 0 (MAX_PEER_HINTS_PER_CANDIDATE cfg)) ?limit" using s len by linarith
  have "int (length (tried l)) < ?limit \<longrightarrow>
      (\<forall>c. ?st = Some c \<longrightarrow> (\<forall>(ip, port, i) \<in> set (peer_hints c). (ip, port) \<in> set (tried l)))
      \<and> (\<forall>ps. c_lookup e = Inr ps \<longrightarrow> set ps \<subseteq> set (tried l))" if none: "found l = None"
  proof
    assume "int (length (tried l)) < ?limit"
    with s none have "set (peer_order ?st (tried l1) peers) \<subseteq> set (tried l)" by blast
    from peer_order_covers [OF this] more(1) all none
    show "(\<forall>c. ?st = Some c \<longrightarrow> (\<forall>(ip, port, i) \<in> set (peer_hints c). (ip, port) \<in> set (tried l)))
      \<and> (\<forall>ps. c_lookup e = Inr ps \<longrightarrow> set ps \<subseteq> set (tried l))" by auto
  qed
  with d n from_order f show ?thesis by (cases "found l") simp_all
qed

section \<open>The outcome of a run\<close>

text \<open>The rows the operations leave for the candidate they are about.\<close>

definition sighted :: "int \<Rightarrow> int \<Rightarrow> candidate_row option \<Rightarrow> candidate_row" where
  "sighted first_ns last_ns row =
     (case row of
        None \<Rightarrow> \<lparr>row_state = New, first_seen = first_ns, last_seen = last_ns, attempts = 0, last_attempt = None,
                 next_attempt_at = None, last_error = None, row_uid = None\<rparr>
      | Some r \<Rightarrow> r\<lparr>last_seen := max (last_seen r) last_ns\<rparr>)"

definition started :: "int \<Rightarrow> candidate_row \<Rightarrow> candidate_row" where
  "started now r = r\<lparr>row_state := Fetching, attempts := attempts r + 1, last_attempt := Some now,
     next_attempt_at := None, last_error := None\<rparr>"

definition failed :: "config \<Rightarrow> ustr \<Rightarrow> int \<Rightarrow> int option \<Rightarrow> candidate_row \<Rightarrow> candidate_row" where
  "failed cfg err now due r = r\<lparr>row_state := Fetch_failed, last_attempt := Some now, next_attempt_at := due,
     last_error := Some (take (nat (MAX_INDEX_TEXT_LENGTH cfg)) err)\<rparr>"

lemma upsert_row:
  "snd (upsert_candidate_seen k f l db) = Some (sighted f l (map_of (candidate_rows db) k))"
  "map_of (candidate_rows (fst (upsert_candidate_seen k f l db))) j =
     (if j = k then Some (sighted f l (map_of (candidate_rows db) k)) else map_of (candidate_rows db) j)"
  by (simp_all add: upsert_candidate_seen_def Let_def sql_upsert_row sighted_def split: option.split)

lemma mark_fetching_row:
  "map_of (candidate_rows (fst (mark_fetching k now db))) j =
     (if j = k then map_option (\<lambda>r. if row_state r \<notin> {Complete, Unsupported} then started now r else r)
        (map_of (candidate_rows db) k) else map_of (candidate_rows db) j)"
  by (cases "map_of (candidate_rows db) k") (simp_all add: mark_fetching_def Let_def sql_update_row started_def)

lemma mark_fetching_marked:
  assumes "db_ok db"
  shows "snd (mark_fetching k now db) \<longleftrightarrow>
    (\<exists>r. map_of (candidate_rows db) k = Some r \<and> row_state r \<notin> {Complete, Unsupported})"
proof -
  have "distinct (map fst (candidate_rows db))" using assms by (simp add: db_ok_def)
  then show ?thesis
    by (cases "map_of (candidate_rows db) k") (simp_all add: mark_fetching_def Let_def sql_rowcount_one)
qed

lemma mark_fetch_failed_row:
  "map_of (candidate_rows (mark_fetch_failed cfg k err now due db)) j =
     (if j = k then map_option (\<lambda>r. if row_state r \<noteq> Complete then failed cfg err now due r else r)
        (map_of (candidate_rows db) k) else map_of (candidate_rows db) j)"
  by (cases "map_of (candidate_rows db) k") (simp_all add: mark_fetch_failed_def sql_update_row failed_def)

lemma indexed_ok_parse: "parse_validated_info cfg raw uid = Inr t \<Longrightarrow> indexed_ok t \<and> torrent_uid t = uid"
  using indexed_files [of cfg raw uid t] by (auto simp: indexed_ok_def indexed_iff0)

text \<open>What a worker may rely on: the other tasks keep the catalogue well-formed and leave the
  candidate's row alone, since no key is with two workers.\<close>

definition undisturbed :: "crawl_env \<Rightarrow> string \<Rightarrow> bool" where
  "undisturbed e kt \<longleftrightarrow> (\<forall>i w. db_ok (w_db w) \<longrightarrow> db_ok (w_db (c_others e i w))
     \<and> map_of (candidate_rows (w_db (c_others e i w))) kt = map_of (candidate_rows (w_db w)) kt)"

abbreviation row_of :: "world \<Rightarrow> string \<Rightarrow> candidate_row option" where
  "row_of w kt \<equiv> map_of (candidate_rows (w_db w)) kt"

lemma released: "state_for (w_manager (finish_key cfg e k w)) k = None"
  by (simp add: finish_key_def finish_def state_for_def Let_def delete_conv')

lemma finish_key_db [simp]: "w_db (finish_key cfg e k w) = w_db w"
  by (simp add: finish_key_def)

lemma admit_outcome:
  assumes ok: "db_ok (w_db w)" and u: "undisturbed e kt" and a: "admit_candidate cfg e k kt w = (w', b)"
  obtains f l where "db_ok (w_db w')"
    and "b \<longleftrightarrow> admissible (Some (sighted f l (row_of w kt))) (c_wall e 1)"
    and "row_of w' kt = Some (if b then started (c_wall e 1) (sighted f l (row_of w kt)) else sighted f l (row_of w kt))"
    and "\<not> b \<longrightarrow> state_for (w_manager w') k = None"
proof -
  define f where "f = (case state_for (w_manager w) k of None \<Rightarrow> c_wall e 0 | Some c \<Rightarrow> first_seen_wall_ns c)"
  define l where "l = (case state_for (w_manager w) k of None \<Rightarrow> f | Some c \<Rightarrow> last_seen_wall_ns c)"
  define w1 where "w1 = c_others e 0 w"
  define w2 where "w2 = c_others e 1 (w1\<lparr>w_db := fst (upsert_candidate_seen kt f l (w_db w1))\<rparr>)"
  define w3 where "w3 = c_others e 2 (w2\<lparr>w_db := fst (mark_fetching kt (c_wall e 1) (w_db w2))\<rparr>)"
  let ?r = "sighted f l (row_of w kt)"
  have ok1: "db_ok (w_db w1)" "row_of w1 kt = row_of w kt" using u ok by (simp_all add: undisturbed_def w1_def)
  have ok2: "db_ok (w_db w2)" "row_of w2 kt = Some ?r"
    using u upsert_keeps_ok [OF ok1(1)] ok1(2) by (simp_all add: undisturbed_def w2_def upsert_row)
  have ok3: "db_ok (w_db w3)" "row_of w3 kt = Some (if row_state ?r \<notin> {Complete, Unsupported} then started (c_wall e 1) ?r else ?r)"
    using u mark_fetching_keeps_ok [OF ok2(1)] ok2(2) by (simp_all add: undisturbed_def w3_def mark_fetching_row)
  have m: "snd (mark_fetching kt (c_wall e 1) (w_db w2)) \<longleftrightarrow> row_state ?r \<notin> {Complete, Unsupported}"
    using mark_fetching_marked [OF ok2(1)] ok2(2) by auto
  have r: "admit_candidate cfg e k kt w =
      (if \<not> admissible (Some ?r) (c_wall e 1) then (finish_key cfg e k w2, False)
       else if snd (mark_fetching kt (c_wall e 1) (w_db w2)) then (w3, True) else (finish_key cfg e k w3, False))"
    by (cases "state_for (w_manager w) k")
      (simp_all add: admit_candidate_def Let_def case_prod_beta upsert_row ok1(2) [unfolded w1_def] f_def l_def w1_def w2_def w3_def)
  have adm: "admissible (Some ?r) (c_wall e 1) \<Longrightarrow> row_state ?r \<notin> {Complete, Unsupported}"
    by (auto simp: admissible_def)
  show thesis
  proof (cases "admissible (Some ?r) (c_wall e 1)")
    case True
    with adm m r a have "w' = w3 \<and> b" by simp
    with True adm ok3 that show thesis by auto
  next
    case False
    with r a have "w' = finish_key cfg e k w2 \<and> \<not> b" by simp
    with False ok2 that released show thesis by auto
  qed
qed

lemma run_sessions_db:
  assumes "undisturbed e kt" and "db_ok (w_db w)" and "run_sessions cfg e k w = (w', r)"
  shows "db_ok (w_db w') \<and> row_of w' kt = row_of w kt"
  using assms by (auto simp: run_sessions_def undisturbed_def Let_def split: option.splits prod.splits)

lemma record_failure_outcome:
  assumes ok: "db_ok (w_db w)" and u: "undisturbed e kt" and row: "row_of w kt = Some c" "row_state c \<noteq> Complete"
    and r: "record_failure cfg e k kt es w = (w', r)"
  shows "state_for (w_manager w') k = None
    \<and> row_of w' kt = Some (failed cfg (error_text es) (c_wall e 3) (next_attempt cfg (Some c) (c_wall e 3)) c)
    \<and> r = (case next_attempt cfg (Some c) (c_wall e 3) of None \<Rightarrow> Exhausted | Some d \<Rightarrow> Scheduled d)"
proof -
  have 1: "db_ok (w_db (c_others e 4 w))" "row_of (c_others e 4 w) kt = Some c" using u ok row by (simp_all add: undisturbed_def)
  then have 2: "db_ok (w_db (c_others e 5 (c_others e 4 w)))" "row_of (c_others e 5 (c_others e 4 w)) kt = Some c"
    using u by (simp_all add: undisturbed_def)
  have "row_of (c_others e 6 (c_others e 5 (c_others e 4 w)
        \<lparr>w_db := mark_fetch_failed cfg kt es' now due (w_db (c_others e 5 (c_others e 4 w)))\<rparr>)) kt =
      Some (failed cfg es' now due c)" for es' now due
    using u mark_fetch_failed_keeps_ok [OF 2(1)] 2(2) row(2) by (simp add: undisturbed_def mark_fetch_failed_row)
  with r 1 show ?thesis
    by (auto simp: record_failure_def Let_def candidate_row_of_def released)
qed

lemma sessions_return:
  assumes "\<And>ep. c_fetch e ep \<noteq> Fetch_raised"
  shows "\<exists>l. snd (run_sessions cfg e k w) = Some l"
proof -
  have t: "\<exists>l'. try_endpoint (c_fetch e) ep l = Some l'" for ep l
    using assms [of ep] by (auto simp: try_endpoint_def Let_def split: fetch_outcome.splits)
  have "try_hints cfg loc (c_fetch e) hs l \<noteq> None" for loc hs l
  proof (induction hs arbitrary: l)
    case (Cons h hs)
    obtain ip port i where "h = (ip, port, i)" by (cases h) auto
    with Cons t [of "(ip, port)" l] show ?case by auto
  qed simp
  moreover have "try_peers limit (c_fetch e) eps n l \<noteq> None" for limit eps n l
  proof (induction eps arbitrary: n l)
    case (Cons ep eps)
    with t [of ep l] show ?case by auto
  qed simp
  ultimately show ?thesis
    by (auto simp: run_sessions_def Let_def split: option.splits prod.splits)
qed

text \<open>How a run may end, by the candidate's row before and after.\<close>

definition well_ended :: "config \<Rightarrow> crawl_env \<Rightarrow> string \<Rightarrow> int \<Rightarrow> crawl_result \<Rightarrow> candidate_row \<Rightarrow> bool" where
  "well_ended cfg e uid before r c \<longleftrightarrow>
     (case r of
        Skipped \<Rightarrow> attempts c = before \<and> \<not> admissible (Some c) (c_wall e 1)
      | Indexed \<Rightarrow> attempts c = before + 1 \<and> row_state c = Complete \<and> row_uid c = Some uid
      | Scheduled d \<Rightarrow> attempts c = before + 1 \<and> attempts c < FETCH_RETRY_MAX_ATTEMPTS cfg
          \<and> row_state c = Fetch_failed \<and> next_attempt_at c = Some d
          \<and> d = c_wall e 3 + retry_delay (attempts c) (FETCH_RETRY_BASE_SECONDS cfg) (FETCH_RETRY_MAX_SECONDS cfg) * 1000000000
      | Exhausted \<Rightarrow> attempts c = before + 1 \<and> FETCH_RETRY_MAX_ATTEMPTS cfg \<le> attempts c
          \<and> row_state c = Fetch_failed \<and> next_attempt_at c = None
      | Crashed_run \<Rightarrow> attempts c = before + 1 \<and> row_state c = Fetching)"

lemma attempts_sighted: "attempts (sighted f l row) = (case row of None \<Rightarrow> 0 | Some r \<Rightarrow> attempts r)"
  by (simp add: sighted_def split: option.split)

lemma failed_well_ended:
  assumes "attempts c = before + 1"
  shows "well_ended cfg e uid before (case next_attempt cfg (Some c) (c_wall e 3) of None \<Rightarrow> Exhausted | Some d \<Rightarrow> Scheduled d)
    (failed cfg err (c_wall e 3) (next_attempt cfg (Some c) (c_wall e 3)) c)"
  using assms by (auto simp: well_ended_def failed_def next_attempt_def attempt_no_def Let_def)

lemma store_outcome:
  assumes ok: "db_ok db" and t: "indexed_ok t" and row: "map_of (candidate_rows db) kt = Some c"
    and p: "persist_torrent compress cfg t kt result now db = (db', r)"
  shows "db_ok db' \<and> (if list_all int64 (torrent_ints t @ [now])
      then r = Inr () \<and> map_of (candidate_rows db') kt = Some (c\<lparr>row_state := Complete, row_uid := Some (torrent_uid t),
        next_attempt_at := None, last_error := None\<rparr>)
      else r = Inl Overflow_Error \<and> db' = db)"
proof (cases "list_all int64 (torrent_ints t @ [now])")
  case True
  from persist_fits [OF ok t True, of compress cfg kt result] p have r: "r = Inr ()" by auto
  with persist_Inr(1) [of compress cfg t kt result now db db'] p
  have "map_of (candidate_rows db') kt = Some (c\<lparr>row_state := Complete, row_uid := Some (torrent_uid t),
      next_attempt_at := None, last_error := None\<rparr>)"
    by (simp add: complete_candidate_row stored_candidate_row row)
  with r True persist_keeps_ok [OF ok t, of compress cfg kt result now] p show ?thesis by simp
next
  case False
  from persist_overflow [OF False, of compress cfg kt result db] p False ok show ?thesis by auto
qed

text \<open>The end of a run that indexed its metadata.\<close>

lemma persisted_outcome:
  assumes u: "undisturbed e (''dht20:'' @ hex k)" and ok: "db_ok (w_db w)" and row: "row_of w (''dht20:'' @ hex k) = Some c"
    and c: "attempts c = before + 1" "row_state c = Fetching" and i: "index_candidate cfg e k raw = Inr (t, kr)"
    and p: "persist_torrent (c_compress e) cfg t (''dht20:'' @ hex k) kr (c_wall e 2) (w_db (c_others e 4 w)) = (db, r1)"
    and run: "(w', r) = (case r1 of Inl x \<Rightarrow> ((c_others e 4 w)\<lparr>w_db := db\<rparr>, Crashed_run)
        | Inr u \<Rightarrow> (finish_key cfg e k (c_others e 5 ((c_others e 4 w)\<lparr>w_db := db\<rparr>)), Indexed))"
  shows "(\<exists>c. row_of w' (''dht20:'' @ hex k) = Some c \<and> well_ended cfg e (''btih:'' @ hex k) before r c)
    \<and> (if r = Crashed_run
       then \<exists>raw t kr. index_candidate cfg e k raw = Inr (t, kr) \<and> \<not> list_all int64 (torrent_ints t @ [c_wall e 2])
       else state_for (w_manager w') k = None)"
proof -
  let ?kt = "''dht20:'' @ hex k" and ?w = "c_others e 4 w"
  have t: "indexed_ok t" "torrent_uid t = ''btih:'' @ hex k"
    using i indexed_ok_parse by (auto simp: index_candidate_def bind_r_Inr_iff)
  have ok3: "db_ok (w_db ?w)" "row_of ?w ?kt = Some c" using u ok row by (simp_all add: undisturbed_def)
  note st = store_outcome [OF ok3(1) t(1) ok3(2) p]
  show ?thesis
  proof (cases "list_all int64 (torrent_ints t @ [c_wall e 2])")
    case True
    with st have r1: "r1 = Inr ()" and db: "db_ok db" "map_of (candidate_rows db) ?kt =
        Some (c\<lparr>row_state := Complete, row_uid := Some (torrent_uid t), next_attempt_at := None, last_error := None\<rparr>)"
      by simp_all
    then have "row_of (c_others e 5 (?w\<lparr>w_db := db\<rparr>)) ?kt =
        Some (c\<lparr>row_state := Complete, row_uid := Some (torrent_uid t), next_attempt_at := None, last_error := None\<rparr>)"
      using u by (simp add: undisturbed_def)
    with run r1 c t(2) show ?thesis by (simp add: well_ended_def released)
  next
    case False
    with st have "r1 = Inl Overflow_Error" "db = w_db ?w" by (simp_all del: list_all_append)
    with run ok3(2) c i False show ?thesis by (auto simp: well_ended_def simp del: list_all_append)
  qed
qed


text \<open>A run whose lookup fails, on a fresh catalogue: it is scheduled again after a minute.\<close>

definition idle_env :: crawl_env where
  "idle_env = \<lparr>c_others = (\<lambda>i w. w), c_wall = (\<lambda>i. 1000), c_stamp = 7, c_mono = 8, c_fetch = (\<lambda>ep. Peer_failed []),
     c_lookup = Inl [], c_local = {}, c_casefold = (\<lambda>t. t), c_compress = (\<lambda>b. b), c_index_text = (\<lambda>x. [])\<rparr>"

definition fresh_world :: world where
  "fresh_world = \<lparr>w_manager = new_manager 5, w_db = empty_database\<rparr>"

lemma default_retries:
  "FETCH_RETRY_MAX_ATTEMPTS default_config = 20" "FETCH_RETRY_BASE_SECONDS default_config = 60"
  "FETCH_RETRY_MAX_SECONDS default_config = 21600" "MAX_PEERS_PER_TORRENT default_config = 20"
  "MAX_METADATA_ATTEMPTS_PER_TORRENT default_config = 20" "MAX_PEER_HINTS_PER_CANDIDATE default_config = 4"
  by (simp_all add: default_config_def)


definition lucky_env :: crawl_env where
  "lucky_env = idle_env\<lparr>c_lookup := Inr [(ascii ''9.8.7.6'', 3), (ascii ''9.8.7.6'', 2), (ascii ''9.8.7.6'', 4)],
     c_fetch := (\<lambda>ep. if snd ep = 2 then Got [1] else Peer_failed [])\<rparr>"

lemma sessions_bounded_witness:
  "\<exists>l. run_sessions default_config lucky_env (replicate 20 0) fresh_world = (fresh_world, Some l)
     \<and> tried l = [(ascii ''9.8.7.6'', 3), (ascii ''9.8.7.6'', 2)] \<and> found l = Some [1]
     \<and> c_fetch lucky_env (last (tried l)) = Got [1]"
proof -
  let ?l = "\<lparr>tried = [(ascii ''9.8.7.6'', 3), (ascii ''9.8.7.6'', 2)],
     errors = [peer_error_text (ascii ''9.8.7.6'', 3) []], found = Some [1]\<rparr>"
  have run: "run_sessions default_config lucky_env (replicate 20 0) fresh_world = (fresh_world, Some ?l)"
    by (simp add: run_sessions_def lucky_env_def idle_env_def fresh_world_def state_for_def new_manager_def
        default_retries peer_order_def try_endpoint_def Let_def)
  from sessions_bounded [OF run] run show ?thesis by simp
qed

end
