(* ===== verification/Lifecycle.thy ===== *)
theory Lifecycle
  imports Crawl_Correct
begin

text \<open>
  The life of a candidate across all workers, failures and restarts of the process. The
  concrete machine has the catalogue and, for every key, where its worker is; its steps are
  the catalogue operations the worker runs, with the guards of \<open>_process_candidate\<close>, and
  \<open>recover_interrupted\<close> at a restart. The abstract machine is what a candidate goes through,
  with no catalogue. The first refines the second for every key, so the bound on attempts
  proved of the second holds of the catalogue.
\<close>

section \<open>What a candidate goes through\<close>

datatype phase = Unseen | Fresh | Working int | Waiting int int | Gave_up int | Stored string | Refused

datatype life_event = Sighted | Started int | Failed_at int | Stored_as string | Restarted int

inductive life_step :: "config \<Rightarrow> phase \<times> nat \<Rightarrow> life_event \<Rightarrow> phase \<times> nat \<Rightarrow> bool" for cfg where
  sighted: "life_step cfg (Unseen, r) Sighted (Fresh, r)"
| first_start: "life_step cfg (Fresh, r) (Started now) (Working 1, r)"
| start_due: "due \<le> now \<Longrightarrow> life_step cfg (Waiting n due, r) (Started now) (Working (n + 1), r)"
| fail_retry: "n < FETCH_RETRY_MAX_ATTEMPTS cfg \<Longrightarrow>
    life_step cfg (Working n, r) (Failed_at now)
      (Waiting n (now + retry_delay n (FETCH_RETRY_BASE_SECONDS cfg) (FETCH_RETRY_MAX_SECONDS cfg) * 1000000000), r)"
| fail_last: "FETCH_RETRY_MAX_ATTEMPTS cfg \<le> n \<Longrightarrow> life_step cfg (Working n, r) (Failed_at now) (Gave_up n, r)"
| store: "life_step cfg (Working n, r) (Stored_as uid) (Stored uid, r)"
| restart_working: "life_step cfg (Working n, r) (Restarted now) (Waiting n now, Suc r)"
| restart_other: "(\<forall>n. p \<noteq> Working n) \<Longrightarrow> life_step cfg (p, r) (Restarted now) (p, Suc r)"

inductive_cases life_stepE: "life_step cfg s e s'"

definition life_init :: "config \<Rightarrow> phase \<times> nat \<Rightarrow> bool" where
  "life_init cfg s \<longleftrightarrow> s = (Unseen, 0) \<and> 1 \<le> FETCH_RETRY_MAX_ATTEMPTS cfg"

text \<open>Every attempt but those a restart interrupted counts towards the maximum.\<close>

definition life_ok :: "config \<Rightarrow> phase \<times> nat \<Rightarrow> bool" where
  "life_ok cfg s \<longleftrightarrow> 1 \<le> FETCH_RETRY_MAX_ATTEMPTS cfg \<and>
     (case s of
        (Working n, r) \<Rightarrow> 1 \<le> n \<and> n \<le> FETCH_RETRY_MAX_ATTEMPTS cfg + int r
      | (Waiting n due, r) \<Rightarrow> 1 \<le> n \<and> n < FETCH_RETRY_MAX_ATTEMPTS cfg + int r
      | (Gave_up n, r) \<Rightarrow> FETCH_RETRY_MAX_ATTEMPTS cfg \<le> n \<and> n \<le> FETCH_RETRY_MAX_ATTEMPTS cfg + int r
      | _ \<Rightarrow> True)"

interpretation life: machine_invariant "life_init cfg" "life_step cfg" "life_ok cfg"
proof
  show "life_ok cfg s" if "life_init cfg s" for s using that by (auto simp: life_init_def life_ok_def)
  show "life_ok cfg s'" if "life_ok cfg s" "life_step cfg s e s'" for s e s'
    using that(2,1) by cases (auto simp: life_ok_def split: phase.splits)
qed

section \<open>Workers on the catalogue\<close>

datatype stage = Idle | Admitted int | Busy | Dead

record crawler =
  cr_db :: database
  cr_stage :: "string \<Rightarrow> stage"
  cr_restarts :: nat

datatype crawl_event =
    Look string int int int
  | Mark string
  | Fail string ustr int
  | Store string indexed_torrent "keyword_result option" int
  | Crash string
  | Reboot int

inductive crawl_step :: "(bytes \<Rightarrow> bytes) \<Rightarrow> config \<Rightarrow> crawler \<Rightarrow> crawl_event \<Rightarrow> crawler \<Rightarrow> bool" for compress cfg where
  look: "cr_stage s k = Idle \<Longrightarrow> upsert_candidate_seen k f l (cr_db s) = (db, row) \<Longrightarrow>
    crawl_step compress cfg s (Look k f l now)
      (s\<lparr>cr_db := db, cr_stage := (cr_stage s)(k := if admissible row now then Admitted now else Idle)\<rparr>)"
| mark: "cr_stage s k = Admitted now \<Longrightarrow> mark_fetching k now (cr_db s) = (db, marked) \<Longrightarrow>
    crawl_step compress cfg s (Mark k) (s\<lparr>cr_db := db, cr_stage := (cr_stage s)(k := if marked then Busy else Idle)\<rparr>)"
| fail: "cr_stage s k = Busy \<Longrightarrow>
    crawl_step compress cfg s (Fail k err now)
      (s\<lparr>cr_db := mark_fetch_failed cfg k err now (next_attempt cfg (candidate_row_of k (cr_db s)) now) (cr_db s),
         cr_stage := (cr_stage s)(k := Idle)\<rparr>)"
| store: "cr_stage s k = Busy \<Longrightarrow> indexed_ok t \<Longrightarrow> persist_torrent compress cfg t k result now (cr_db s) = (db, r) \<Longrightarrow>
    crawl_step compress cfg s (Store k t result now)
      (s\<lparr>cr_db := db, cr_stage := (cr_stage s)(k := case r of Inl x \<Rightarrow> Dead | Inr u \<Rightarrow> Idle)\<rparr>)"
| crash: "cr_stage s k \<noteq> Idle \<Longrightarrow> crawl_step compress cfg s (Crash k) (s\<lparr>cr_stage := (cr_stage s)(k := Dead)\<rparr>)"
| reboot: "crawl_step compress cfg s (Reboot now)
    (s\<lparr>cr_db := recover_interrupted now (cr_db s), cr_stage := (\<lambda>k. Idle), cr_restarts := Suc (cr_restarts s)\<rparr>)"

definition crawl_init :: "config \<Rightarrow> crawler \<Rightarrow> bool" where
  "crawl_init cfg s \<longleftrightarrow> 1 \<le> FETCH_RETRY_MAX_ATTEMPTS cfg
     \<and> s = \<lparr>cr_db = empty_database, cr_stage = (\<lambda>k. Idle), cr_restarts = 0\<rparr>"

text \<open>A row is marked as being fetched only while a worker is at it.\<close>

definition stage_ok :: "stage \<Rightarrow> candidate_row option \<Rightarrow> bool" where
  "stage_ok st row \<longleftrightarrow>
     (case st of
        Idle \<Rightarrow> (\<forall>c. row = Some c \<longrightarrow> row_state c \<noteq> Fetching)
      | Admitted now \<Rightarrow> (\<exists>c. row = Some c \<and> row_state c \<noteq> Fetching \<and> admissible row now)
      | Busy \<Rightarrow> (\<exists>c. row = Some c \<and> row_state c = Fetching)
      | Dead \<Rightarrow> True)"

definition crawl_ok :: "crawler \<Rightarrow> bool" where
  "crawl_ok s \<longleftrightarrow> db_ok (cr_db s) \<and> (\<forall>k. stage_ok (cr_stage s k) (map_of (candidate_rows (cr_db s)) k))"

definition phase_of :: "candidate_row option \<Rightarrow> phase" where
  "phase_of row =
     (case row of
        None \<Rightarrow> Unseen
      | Some c \<Rightarrow>
          (case row_state c of
             New \<Rightarrow> Fresh
           | Fetching \<Rightarrow> Working (attempts c)
           | Fetch_failed \<Rightarrow> (case next_attempt_at c of None \<Rightarrow> Gave_up (attempts c) | Some d \<Rightarrow> Waiting (attempts c) d)
           | Complete \<Rightarrow> Stored (the (row_uid c))
           | Unsupported \<Rightarrow> Refused))"

definition life_of :: "string \<Rightarrow> crawler \<Rightarrow> phase \<times> nat" where
  "life_of k s = (phase_of (map_of (candidate_rows (cr_db s)) k), cr_restarts s)"

section \<open>Every step is one of the life cycle\<close>

lemma phase_sighted: "phase_of (Some (sighted f l row)) = (if row = None then Fresh else phase_of row)"
  by (simp add: phase_of_def sighted_def split: option.split fetch_state.split)

lemma state_sighted: "row_state (sighted f l row) = (case row of None \<Rightarrow> New | Some c \<Rightarrow> row_state c)"
  by (simp add: sighted_def split: option.split)

lemma stage_row: "crawl_ok s \<Longrightarrow> stage_ok (cr_stage s k) (map_of (candidate_rows (cr_db s)) k)"
  by (simp add: crawl_ok_def)

lemma crawl_okI:
  assumes "db_ok db" and "stage_ok st (map_of (candidate_rows db) k)"
    and "\<And>j. j \<noteq> k \<Longrightarrow> map_of (candidate_rows db) j = map_of (candidate_rows (cr_db s)) j"
    and "crawl_ok s"
  shows "crawl_ok (s\<lparr>cr_db := db, cr_stage := (cr_stage s)(k := st)\<rparr>)"
  using assms by (simp add: crawl_ok_def)

text \<open>The row of the key a worker step is about, and that it touches no other.\<close>

lemma persist_other_rows:
  assumes "persist_torrent compress cfg t k result now db = (db', r)" and "j \<noteq> k"
  shows "map_of (candidate_rows db') j = map_of (candidate_rows db) j"
proof (cases r)
  case (Inl e)
  with assms persist_Inl show ?thesis by metis
next
  case (Inr u)
  with assms(1) have "db' = complete_candidate k (torrent_uid t) (insert_notice (torrent_uid t) result now (stored_catalogue compress cfg t now db))"
    using persist_Inr(1) by fastforce
  then show ?thesis using assms(2) by (simp add: complete_candidate_row stored_candidate_row)
qed

lemma recovered_not_fetching:
  "map_of (candidate_rows (recover_interrupted now db)) k = Some c \<Longrightarrow> row_state c \<noteq> Fetching"
  unfolding recover_row by (cases "map_of (candidate_rows db) k") (auto split: if_splits)

lemma crawl_step_ok:
  assumes ok: "crawl_ok s" and st: "crawl_step compress cfg s e s'"
  shows "crawl_ok s'"
  using st
proof cases
  case (look k f l db row now)
  from upsert_row [of k f l "cr_db s"] look(4) have row: "row = Some (sighted f l (map_of (candidate_rows (cr_db s)) k))"
    and db: "map_of (candidate_rows db) j = (if j = k then row else map_of (candidate_rows (cr_db s)) j)" for j by auto
  have "row_state (sighted f l (map_of (candidate_rows (cr_db s)) k)) \<noteq> Fetching"
    using stage_row [OF ok, of k] look(3) by (auto simp: stage_ok_def state_sighted split: option.split)
  then have "stage_ok (if admissible row now then Admitted now else Idle) (map_of (candidate_rows db) k)"
    using row db by (simp add: stage_ok_def)
  moreover have "db_ok db" using upsert_keeps_ok [of "cr_db s" k f l] ok look(4) by (simp add: crawl_ok_def)
  ultimately show ?thesis unfolding look(2) by (intro crawl_okI) (simp_all add: db ok)
next
  case (mark k now db marked)
  from stage_row [OF ok, of k] mark(3) obtain c where c: "map_of (candidate_rows (cr_db s)) k = Some c"
    "admissible (Some c) now" by (auto simp: stage_ok_def)
  then have un: "row_state c \<notin> {Complete, Unsupported}" by (auto simp: admissible_def)
  have dbs: "db_ok (cr_db s)" using ok by (simp add: crawl_ok_def)
  have m: "marked" using mark_fetching_marked [OF dbs, of k now] c un mark(4) by auto
  from mark_fetching_row [of k now "cr_db s"] mark(4)
  have db: "map_of (candidate_rows db) j = (if j = k then Some (started now c) else map_of (candidate_rows (cr_db s)) j)" for j
    using c un by auto
  moreover have "db_ok db" using mark_fetching_keeps_ok [OF dbs, of k now] mark(4) by simp
  ultimately show ?thesis unfolding mark(2) using m
    by (intro crawl_okI) (simp_all add: ok stage_ok_def started_def)
next
  case (fail k err now)
  from stage_row [OF ok, of k] fail(3) obtain c where c: "map_of (candidate_rows (cr_db s)) k = Some c" "row_state c = Fetching"
    by (auto simp: stage_ok_def)
  show ?thesis unfolding fail(2)
    by (rule crawl_okI [OF _ _ _ ok])
      (use ok c in \<open>auto simp: crawl_ok_def mark_fetch_failed_row stage_ok_def failed_def intro: mark_fetch_failed_keeps_ok\<close>)
next
  case (store k t result now db r)
  have dbs: "db_ok (cr_db s)" using ok by (simp add: crawl_ok_def)
  from stage_row [OF ok, of k] store(3) obtain c where c: "map_of (candidate_rows (cr_db s)) k = Some c" "row_state c = Fetching"
    by (auto simp: stage_ok_def)
  note o = store_outcome [OF dbs store(4) c(1) store(5)]
  have "stage_ok (case r of Inl x \<Rightarrow> Dead | Inr u \<Rightarrow> Idle) (map_of (candidate_rows db) k)"
    using o by (auto simp: stage_ok_def split: if_splits)
  then show ?thesis unfolding store(2) using o persist_other_rows [OF store(5)]
    by (intro crawl_okI) (simp_all add: ok)
next
  case (crash k)
  with ok show ?thesis by (simp add: crawl_ok_def stage_ok_def)
next
  case (reboot now)
  then show ?thesis using ok recover_keeps_ok [of "cr_db s" now]
    by (simp add: crawl_ok_def stage_ok_def recovered_not_fetching)
qed

lemma crawl_step_life:
  assumes ok: "crawl_ok s" and st: "crawl_step compress cfg s e s'"
  shows "life_of j s' = life_of j s \<or> (\<exists>f. life_step cfg (life_of j s) f (life_of j s'))"
  using st
proof cases
  case (look k f l db row now)
  from upsert_row [of k f l "cr_db s"] look(4)
  have db: "map_of (candidate_rows db) j = (if j = k then Some (sighted f l (map_of (candidate_rows (cr_db s)) k))
    else map_of (candidate_rows (cr_db s)) j)" by auto
  have new: "\<exists>f. life_step cfg (Unseen, r) f (Fresh, r)" for r by (rule exI, rule life_step.sighted)
  have "phase_of None = Unseen" by (simp add: phase_of_def)
  with db new show ?thesis unfolding look(2) life_of_def
    by (cases "j = k"; cases "map_of (candidate_rows (cr_db s)) k") (simp_all add: phase_sighted)
next
  case (mark k now db marked)
  from stage_row [OF ok, of k] mark(3) obtain c where c: "map_of (candidate_rows (cr_db s)) k = Some c"
    "admissible (Some c) now" "row_state c \<noteq> Fetching" by (auto simp: stage_ok_def)
  have rok: "row_ok (torrent_uids (cr_db s)) c" using ok c(1) by (simp add: crawl_ok_def db_ok_rows)
  from mark_fetching_row [of k now "cr_db s"] mark(4) c
  have db: "map_of (candidate_rows db) j = (if j = k then Some (started now c) else map_of (candidate_rows (cr_db s)) j)"
    by (auto simp: admissible_def)
  consider "row_state c = New" | d where "row_state c = Fetch_failed" "next_attempt_at c = Some d" "d \<le> now"
    using c(2,3) by (cases "row_state c") (auto simp: admissible_def split: option.splits)
  then have "life_step cfg (phase_of (Some c), r) (Started now) (phase_of (Some (started now c)), r)" for r
  proof cases
    case 1
    with rok show ?thesis by (simp add: phase_of_def started_def row_ok_def life_step.first_start)
  next
    case 2
    then show ?thesis by (simp add: phase_of_def started_def life_step.start_due)
  qed
  with db c(1) show ?thesis unfolding mark(2) life_of_def by auto
next
  case (fail k err now)
  from stage_row [OF ok, of k] fail(3) obtain c where c: "map_of (candidate_rows (cr_db s)) k = Some c" "row_state c = Fetching"
    by (auto simp: stage_ok_def)
  let ?due = "next_attempt cfg (Some c) now"
  have "life_step cfg (phase_of (Some c), r) (Failed_at now) (phase_of (Some (failed cfg err now ?due c)), r)" for r
  proof (cases "FETCH_RETRY_MAX_ATTEMPTS cfg \<le> attempts c")
    case True
    then show ?thesis using c(2) by (simp add: phase_of_def failed_def next_attempt_def attempt_no_def life_step.fail_last)
  next
    case False
    then show ?thesis using c(2)
      by (simp add: phase_of_def failed_def next_attempt_def attempt_no_def life_step.fail_retry)
  qed
  then show ?thesis unfolding fail(2) life_of_def using c by (auto simp: mark_fetch_failed_row candidate_row_of_def)
next
  case (store k t result now db r)
  have dbs: "db_ok (cr_db s)" using ok by (simp add: crawl_ok_def)
  from stage_row [OF ok, of k] store(3) obtain c where c: "map_of (candidate_rows (cr_db s)) k = Some c" "row_state c = Fetching"
    by (auto simp: stage_ok_def)
  have "life_step cfg (phase_of (Some c), m) (Stored_as (torrent_uid t)) (phase_of (Some (c\<lparr>row_state := Complete,
      row_uid := Some (torrent_uid t), next_attempt_at := None, last_error := None\<rparr>)), m)" for m
    using c(2) by (simp add: phase_of_def life_step.store)
  with store_outcome [OF dbs store(4) c(1) store(5)] persist_other_rows [OF store(5), of j] c show ?thesis
    unfolding store(2) life_of_def by (cases "j = k") (auto split: if_splits)
next
  case (crash k)
  then show ?thesis by (simp add: life_of_def)
next
  case (reboot now)
  let ?row = "map_of (candidate_rows (cr_db s)) j"
  have "life_step cfg (phase_of ?row, r) (Restarted now) (phase_of (map_of (candidate_rows (recover_interrupted now (cr_db s))) j), Suc r)" for r
  proof (cases "\<exists>c. ?row = Some c \<and> row_state c = Fetching")
    case True
    then obtain c where c: "?row = Some c" "row_state c = Fetching" by blast
    have "row_ok (torrent_uids (cr_db s)) c" using ok c(1) by (simp add: crawl_ok_def db_ok_rows)
    with c show ?thesis by (auto simp: recover_row phase_of_def row_ok_def life_step.restart_working split: option.split)
  next
    case False
    then have "map_of (candidate_rows (recover_interrupted now (cr_db s))) j = ?row"
      by (cases ?row) (auto simp: recover_row)
    moreover have "\<forall>n. phase_of ?row \<noteq> Working n" using False
      by (auto simp: phase_of_def split: option.splits fetch_state.splits)
    ultimately show ?thesis by (simp add: life_step.restart_other)
  qed
  then show ?thesis unfolding reboot life_of_def by auto
qed

interpretation crawl: refinement "crawl_init cfg" "crawl_step compress cfg" crawl_ok "life_init cfg" "life_step cfg" "life_of k"
proof
  show "crawl_ok s" if "crawl_init cfg s" for s
    using that empty_ok by (auto simp: crawl_init_def crawl_ok_def stage_ok_def) (simp add: empty_database_def)
  show "crawl_ok s'" if "crawl_ok s" "crawl_step compress cfg s e s'" for s e s' by (rule crawl_step_ok [OF that])
  show "life_init cfg (life_of k s)" if "crawl_init cfg s" for s
    using that by (auto simp: crawl_init_def life_init_def life_of_def phase_of_def empty_database_def)
  show "life_of k s' = life_of k s \<or> (\<exists>f. life_step cfg (life_of k s) f (life_of k s'))"
    if "crawl_ok s" "crawl_step compress cfg s e s'" for s e s' by (rule crawl_step_life [OF that])
qed

text \<open>C25. Refinement of the life cycle. Whatever workers look up, fetch, store, fail, crash and restart
  in whatever order and for whatever keys, the row of every key has gone through a history
  of the abstract life cycle: first sighted, then fetched, after a failure fetched again only
  once its delay is over, and no longer after the last attempt.\<close>

theorem lifecycle_refined:
  assumes "reachable (crawl_init cfg) (crawl_step compress cfg) s"
  shows "reachable (life_init cfg) (life_step cfg) (life_of k s)"
  by (rule crawl.view_reachable [OF assms])


definition settled :: "phase \<Rightarrow> bool" where
  "settled p \<longleftrightarrow> (case p of Stored uid \<Rightarrow> True | Gave_up n \<Rightarrow> True | _ \<Rightarrow> False)"

lemma settled_step: "life_step cfg (p, r) f (p', r') \<Longrightarrow> settled p \<Longrightarrow> p' = p"
  by (erule life_stepE) (auto simp: settled_def)

text \<open>Settled is settled: a candidate that was stored stays stored under the same torrent, and one
  that was given up stays given up, across all later sightings, workers and restarts.\<close>

theorem settled_is_final:
  assumes before: "reachable (crawl_init cfg) (crawl_step compress cfg) s"
    and settled: "settled (phase_of (map_of (candidate_rows (cr_db s)) k))"
    and later: "reachable (\<lambda>x. x = s) (crawl_step compress cfg) s'"
  shows "phase_of (map_of (candidate_rows (cr_db s')) k) = phase_of (map_of (candidate_rows (cr_db s)) k)"
  using later
proof (induction rule: reachable.induct)
  case (start s)
  then show ?case by simp
next
  case (step t e t')
  have "crawl_ok t" by (rule crawl.reachable_inv [OF reachable_trans [OF step(1) before]])
  from crawl_step_life [OF this step(2), of k] show ?case
  proof
    assume "life_of k t' = life_of k t"
    with step.IH show ?thesis by (simp add: life_of_def)
  next
    assume "\<exists>f. life_step cfg (life_of k t) f (life_of k t')"
    then obtain f where "life_step cfg (life_of k t) f (life_of k t')" ..
    with settled_step step.IH settled show ?thesis unfolding life_of_def by metis
  qed
qed

text \<open>A run: a key is sighted, fetched and stored.\<close>

definition run_start :: crawler where
  "run_start = \<lparr>cr_db = empty_database, cr_stage = (\<lambda>k. Idle), cr_restarts = 0\<rparr>"

definition run_busy :: crawler where
  "run_busy = \<lparr>cr_db = fst (mark_fetching ''k'' 5 (fst (upsert_candidate_seen ''k'' 3 4 empty_database))),
     cr_stage = (\<lambda>j. Idle)(''k'' := Busy), cr_restarts = 0\<rparr>"

definition run_stored :: crawler where
  "run_stored = run_busy\<lparr>cr_db := fst (persist_torrent (\<lambda>b. b) default_config (small_torrent 5) ''k'' None 9 (cr_db run_busy)),
     cr_stage := (cr_stage run_busy)(''k'' := Idle)\<rparr>"

lemma run_busy_row: "map_of (candidate_rows (cr_db run_busy)) ''k'' = Some \<lparr>row_state = Fetching, first_seen = 3, last_seen = 4,
    attempts = 1, last_attempt = Some 5, next_attempt_at = None, last_error = None, row_uid = None\<rparr>"
  by (simp add: run_busy_def mark_fetching_row upsert_row sighted_def started_def) (simp add: empty_database_def)

lemma run_busy_reachable: "reachable (crawl_init default_config) (crawl_step (\<lambda>b. b) default_config) run_busy"
proof -
  let ?db = "fst (upsert_candidate_seen ''k'' 3 4 empty_database)"
  let ?s1 = "\<lparr>cr_db = ?db, cr_stage = (\<lambda>j. Idle)(''k'' := Admitted 5), cr_restarts = 0\<rparr>"
  have start: "crawl_init default_config run_start" by (simp add: crawl_init_def run_start_def default_retries)
  have row: "snd (upsert_candidate_seen ''k'' 3 4 empty_database) = Some \<lparr>row_state = New, first_seen = 3, last_seen = 4,
      attempts = 0, last_attempt = None, next_attempt_at = None, last_error = None, row_uid = None\<rparr>"
    by (simp add: upsert_row sighted_def) (simp add: empty_database_def)
  then have "admissible (snd (upsert_candidate_seen ''k'' 3 4 empty_database)) 5" by (simp add: admissible_def)
  then have s1: "crawl_step (\<lambda>b. b) default_config run_start (Look ''k'' 3 4 5) ?s1"
    using crawl_step.look [of run_start "''k''" 3 4 ?db "snd (upsert_candidate_seen ''k'' 3 4 empty_database)" "\<lambda>b. b" default_config 5]
    by (simp add: run_start_def)
  have "db_ok ?db" by (rule upsert_keeps_ok [OF empty_ok])
  then have "snd (mark_fetching ''k'' 5 ?db)"
    by (simp add: mark_fetching_marked upsert_row) (simp add: state_sighted empty_database_def)
  then have "mark_fetching ''k'' 5 ?db = (fst (mark_fetching ''k'' 5 ?db), True)" by (simp add: prod_eq_iff)
  then have "crawl_step (\<lambda>b. b) default_config ?s1 (Mark ''k'') run_busy"
    using crawl_step.mark [of ?s1 "''k''" 5 "fst (mark_fetching ''k'' 5 ?db)" True "\<lambda>b. b" default_config]
    by (simp add: run_busy_def)
  with s1 start show ?thesis by (meson reachable.intros)
qed

lemma run_stored_step:
  "crawl_step (\<lambda>b. b) default_config run_busy (Store ''k'' (small_torrent 5) None 9) run_stored
   \<and> phase_of (map_of (candidate_rows (cr_db run_stored)) ''k'') = Stored ''btih:1''"
proof -
  have ok: "db_ok (cr_db run_busy)" using crawl.reachable_inv [OF run_busy_reachable] by (simp add: crawl_ok_def)
  have t: "indexed_ok (small_torrent 5)" by (rule small_torrent_ok) simp
  obtain db r where p: "persist_torrent (\<lambda>b. b) default_config (small_torrent 5) ''k'' None 9 (cr_db run_busy) = (db, r)" by fastforce
  have "list_all int64 (torrent_ints (small_torrent 5) @ [9])" by (simp add: small_torrent_def torrent_ints_def int64_def)
  with store_outcome [OF ok t run_busy_row p] have o: "r = Inr ()"
    "phase_of (map_of (candidate_rows db) ''k'') = Stored ''btih:1''" by (simp_all add: phase_of_def small_torrent_def)
  have "cr_stage run_busy ''k'' = Busy" by (simp add: run_busy_def)
  from crawl_step.store [OF this t p] o p show ?thesis
    by (simp add: run_stored_def)
qed

lemma lifecycle_refined_witness:
  "life_of ''k'' run_busy = (Working 1, 0) \<and> reachable (life_init default_config) (life_step default_config) (Working 1, 0)"
proof -
  have v: "life_of ''k'' run_busy = (Working 1, 0)" by (simp add: life_of_def run_busy_row phase_of_def) (simp add: run_busy_def)
  with lifecycle_refined [OF run_busy_reachable, of "''k''"] show ?thesis by simp
qed


lemma settled_is_final_witness:
  "phase_of (map_of (candidate_rows (recover_interrupted 77 (cr_db run_stored))) ''k'') = Stored ''btih:1''"
proof -
  have r: "reachable (crawl_init default_config) (crawl_step (\<lambda>b. b) default_config) run_stored"
    using run_busy_reachable run_stored_step by (blast intro: reachable.step)
  have "crawl_step (\<lambda>b. b) default_config run_stored (Reboot 77)
      (run_stored\<lparr>cr_db := recover_interrupted 77 (cr_db run_stored), cr_stage := (\<lambda>k. Idle), cr_restarts := Suc (cr_restarts run_stored)\<rparr>)"
    by (rule crawl_step.reboot)
  note later = reachable.step [where step = "crawl_step (\<lambda>b. b) default_config", OF reachable.start [of "\<lambda>x. x = run_stored", OF refl] this]
  from settled_is_final [OF r _ later] run_stored_step show ?thesis by (simp add: settled_def)
qed

end
