(* ===== verification/Startup.thy ===== *)
theory Startup
  imports Lookup Lifecycle Token_Bucket Peer_Wire_Correct
begin

text \<open>
  The start-up check of the configuration, \<open>validate_config\<close> of \<open>includes/debug.py\<close>, and what
  it gives the rest of the program. The record of \<open>Config\<close> has the types the check asks for
  with \<open>isinstance\<close>, so its checks of types are not repeated here; the bounds, the relations
  between settings and the order of the checks are. Whether a bind address that is not an IPv4
  literal is one of IPv6 is an argument; it decides the message only.
\<close>

section \<open>Checks\<close>

type_synonym check = "string \<times> bool"

fun check_all :: "check list \<Rightarrow> string + unit" where
  "check_all [] = Inr ()"
| "check_all ((msg, ok) # cs) = (if ok then check_all cs else Inl msg)"

text \<open>\<open>_integer\<close> and \<open>_number\<close> of a setting.\<close>

definition positive :: "string \<times> 'a::linordered_idom \<Rightarrow> check" where
  "positive nv = (fst nv @ '' must be positive'', 0 < snd nv)"

definition non_negative :: "string \<times> 'a::linordered_idom \<Rightarrow> check" where
  "non_negative nv = (fst nv @ '' must be non-negative'', 0 \<le> snd nv)"

definition integer_positive :: "config \<Rightarrow> (string \<times> int) list" where
  "integer_positive cfg = [
    (''DHT_BIND_PORT'', DHT_BIND_PORT cfg), (''DHT_QUERY_BURST'', DHT_QUERY_BURST cfg),
    (''DHT_MAX_PENDING_REQUESTS'', DHT_MAX_PENDING_REQUESTS cfg),
    (''DHT_LOOKUP_PARALLELISM'', DHT_LOOKUP_PARALLELISM cfg),
    (''MAX_DHT_QUERIES_PER_TORRENT'', MAX_DHT_QUERIES_PER_TORRENT cfg),
    (''DHT_RECEIVE_MAX_BYTES'', DHT_RECEIVE_MAX_BYTES cfg),
    (''DHT_ROUTING_BAD_AFTER_FAILURES'', DHT_ROUTING_BAD_AFTER_FAILURES cfg),
    (''HASH_QUEUE_SIZE'', HASH_QUEUE_SIZE cfg), (''MAX_ACTIVE_TORRENTS'', MAX_ACTIVE_TORRENTS cfg),
    (''MAX_PEER_HINTS_PER_CANDIDATE'', MAX_PEER_HINTS_PER_CANDIDATE cfg),
    (''RECENT_HASH_CACHE_SIZE'', RECENT_HASH_CACHE_SIZE cfg),
    (''MAX_METADATA_ATTEMPTS_PER_TORRENT'', MAX_METADATA_ATTEMPTS_PER_TORRENT cfg),
    (''MAX_PEER_CONNECTIONS'', MAX_PEER_CONNECTIONS cfg),
    (''MAX_PEERS_PER_TORRENT'', MAX_PEERS_PER_TORRENT cfg),
    (''METADATA_REQUEST_PIPELINE'', METADATA_REQUEST_PIPELINE cfg),
    (''MAX_METADATA_SIZE'', MAX_METADATA_SIZE cfg),
    (''MAX_PEER_MESSAGE_SIZE'', MAX_PEER_MESSAGE_SIZE cfg),
    (''MAX_BENCODE_DEPTH'', MAX_BENCODE_DEPTH cfg), (''MAX_BENCODE_ITEMS'', MAX_BENCODE_ITEMS cfg),
    (''MAX_BENCODE_STRING_LENGTH'', MAX_BENCODE_STRING_LENGTH cfg),
    (''MAX_FILES_PER_TORRENT'', MAX_FILES_PER_TORRENT cfg),
    (''MAX_PATH_COMPONENTS'', MAX_PATH_COMPONENTS cfg),
    (''MAX_INDEX_TEXT_LENGTH'', MAX_INDEX_TEXT_LENGTH cfg),
    (''MAX_EVIDENCE_TEXT_LENGTH'', MAX_EVIDENCE_TEXT_LENGTH cfg),
    (''BEP51_NODE_STATE_MAX'', BEP51_NODE_STATE_MAX cfg),
    (''BEP51_MAX_SAMPLES_PER_RESPONSE'', BEP51_MAX_SAMPLES_PER_RESPONSE cfg),
    (''DHT_PEER_STORE_MAX_INFOHASHES'', DHT_PEER_STORE_MAX_INFOHASHES cfg),
    (''DHT_PEER_STORE_MAX_PEERS_PER_HASH'', DHT_PEER_STORE_MAX_PEERS_PER_HASH cfg),
    (''DB_QUEUE_SIZE'', DB_QUEUE_SIZE cfg), (''DATABASE_MAX_BYTES'', DATABASE_MAX_BYTES cfg),
    (''RETRY_SCAN_BATCH_SIZE'', RETRY_SCAN_BATCH_SIZE cfg),
    (''FETCH_RETRY_MAX_ATTEMPTS'', FETCH_RETRY_MAX_ATTEMPTS cfg),
    (''DHT_JSONL_QUEUE_SIZE'', DHT_JSONL_QUEUE_SIZE cfg),
    (''DHT_JSONL_MAX_BYTES'', DHT_JSONL_MAX_BYTES cfg),
    (''TELEGRAM_MESSAGE_MAX_CHARS'', TELEGRAM_MESSAGE_MAX_CHARS cfg),
    (''TELEGRAM_HTTP_MAX_RESPONSE_BYTES'', TELEGRAM_HTTP_MAX_RESPONSE_BYTES cfg),
    (''TELEGRAM_MAX_MATCH_LINES'', TELEGRAM_MAX_MATCH_LINES cfg),
    (''NOTIFICATION_RETRY_MAX_ATTEMPTS'', NOTIFICATION_RETRY_MAX_ATTEMPTS cfg),
    (''NOTIFICATION_SCAN_BATCH_SIZE'', NOTIFICATION_SCAN_BATCH_SIZE cfg),
    (''SEARCH_RESULT_LIMIT'', SEARCH_RESULT_LIMIT cfg)]"

definition integer_nonnegative :: "config \<Rightarrow> (string \<times> int) list" where
  "integer_nonnegative cfg = [
    (''DB_REOPEN_RETRY_COUNT'', DB_REOPEN_RETRY_COUNT cfg),
    (''DHT_JSONL_BACKUP_COUNT'', DHT_JSONL_BACKUP_COUNT cfg),
    (''JSONL_REOPEN_RETRY_COUNT'', JSONL_REOPEN_RETRY_COUNT cfg)]"

definition numeric_positive :: "config \<Rightarrow> (string \<times> rat) list" where
  "numeric_positive cfg = [
    (''DHT_MAX_REQUESTS_PER_SECOND'', DHT_MAX_REQUESTS_PER_SECOND cfg),
    (''DHT_QUERY_TIMEOUT'', DHT_QUERY_TIMEOUT cfg), (''DHT_LOOKUP_DEADLINE'', DHT_LOOKUP_DEADLINE cfg),
    (''DHT_ROUTING_GOOD_TTL'', DHT_ROUTING_GOOD_TTL cfg),
    (''DHT_ROUTING_REFRESH_INTERVAL'', DHT_ROUTING_REFRESH_INTERVAL cfg),
    (''DHT_MAINTENANCE_INTERVAL'', DHT_MAINTENANCE_INTERVAL cfg),
    (''DHT_BOOTSTRAP_RETRY_INTERVAL'', DHT_BOOTSTRAP_RETRY_INTERVAL cfg),
    (''RECENT_HASH_TTL'', RECENT_HASH_TTL cfg), (''PEER_CONNECT_TIMEOUT'', PEER_CONNECT_TIMEOUT cfg),
    (''PEER_HANDSHAKE_TIMEOUT'', PEER_HANDSHAKE_TIMEOUT cfg),
    (''PEER_SESSION_TIMEOUT'', PEER_SESSION_TIMEOUT cfg), (''METADATA_TIMEOUT'', METADATA_TIMEOUT cfg),
    (''DHT_BEP51_GLOBAL_INTERVAL'', DHT_BEP51_GLOBAL_INTERVAL cfg),
    (''DHT_BEP51_UNSUPPORTED_BACKOFF'', DHT_BEP51_UNSUPPORTED_BACKOFF cfg),
    (''BEP51_NODE_STATE_TTL'', BEP51_NODE_STATE_TTL cfg),
    (''DHT_PEER_STORE_TTL'', DHT_PEER_STORE_TTL cfg),
    (''DHT_TOKEN_ROTATION_INTERVAL'', DHT_TOKEN_ROTATION_INTERVAL cfg),
    (''DHT_TOKEN_VALIDITY'', DHT_TOKEN_VALIDITY cfg), (''DB_BUSY_TIMEOUT'', DB_BUSY_TIMEOUT cfg),
    (''RETRY_SCAN_INTERVAL'', RETRY_SCAN_INTERVAL cfg),
    (''FETCH_RETRY_BASE_SECONDS'', of_int (FETCH_RETRY_BASE_SECONDS cfg)),
    (''FETCH_RETRY_MAX_SECONDS'', of_int (FETCH_RETRY_MAX_SECONDS cfg)),
    (''DHT_JSONL_FLUSH_INTERVAL'', DHT_JSONL_FLUSH_INTERVAL cfg),
    (''JSONL_WARNING_INTERVAL'', JSONL_WARNING_INTERVAL cfg),
    (''TELEGRAM_HTTP_TIMEOUT'', TELEGRAM_HTTP_TIMEOUT cfg),
    (''NOTIFICATION_RETRY_BASE_SECONDS'', of_int (NOTIFICATION_RETRY_BASE_SECONDS cfg)),
    (''NOTIFICATION_RETRY_MAX_SECONDS'', of_int (NOTIFICATION_RETRY_MAX_SECONDS cfg)),
    (''NOTIFICATION_SCAN_INTERVAL'', NOTIFICATION_SCAN_INTERVAL cfg)]"

definition numeric_nonnegative :: "config \<Rightarrow> (string \<times> rat) list" where
  "numeric_nonnegative cfg = [(''DB_REOPEN_RETRY_DELAY'', DB_REOPEN_RETRY_DELAY cfg),
    (''JSONL_REOPEN_RETRY_DELAY'', JSONL_REOPEN_RETRY_DELAY cfg)]"

definition is_ascii :: "string \<Rightarrow> bool" where
  "is_ascii s \<longleftrightarrow> list_all (\<lambda>c. (of_char c :: nat) < 128) s"

definition upper_char :: "char \<Rightarrow> char" where
  "upper_char c = (let n = of_char c :: nat in if 97 \<le> n \<and> n \<le> 122 then char_of (n - 32) else c)"

definition identity_checks :: "(string \<Rightarrow> bool) \<Rightarrow> config \<Rightarrow> check list" where
  "identity_checks ipv6 cfg =
     [(''DHT_CLIENT_VERSION must be ASCII text'', is_ascii (DHT_CLIENT_VERSION cfg)),
      (''DHT_CLIENT_VERSION must encode to exactly 4 ASCII bytes'', length (DHT_CLIENT_VERSION cfg) = 4),
      (''DHT_BEP51_RESPONSE_INTERVAL must be an integer in 0..21600'',
         0 \<le> DHT_BEP51_RESPONSE_INTERVAL cfg \<and> DHT_BEP51_RESPONSE_INTERVAL cfg \<le> 21600),
      (''DHT_BIND_HOST must be an IP literal'',
         parse_ipv4 (ascii (DHT_BIND_HOST cfg)) \<noteq> None \<or> ipv6 (DHT_BIND_HOST cfg)),
      (''v0.1 DHT_BIND_HOST must be IPv4'', parse_ipv4 (ascii (DHT_BIND_HOST cfg)) \<noteq> None)]"

definition bound_checks :: "config \<Rightarrow> check list" where
  "bound_checks cfg =
     [(''DHT_BIND_PORT out of range'', 1 \<le> DHT_BIND_PORT cfg \<and> DHT_BIND_PORT cfg \<le> 65535),
      (''DHT_RECEIVE_MAX_BYTES must be at least 1024'', 1024 \<le> DHT_RECEIVE_MAX_BYTES cfg),
      (''MAX_PEER_MESSAGE_SIZE is too small for BEP-9 messages'', 16 * 1024 + 1024 \<le> MAX_PEER_MESSAGE_SIZE cfg),
      (''RAW_INFO_STORAGE must be one of: off, raw, zlib'', RAW_INFO_STORAGE cfg \<in> {''off'', ''raw'', ''zlib''}),
      (''invalid DB_SYNCHRONOUS'', map upper_char (DB_SYNCHRONOUS cfg) \<in> {''OFF'', ''NORMAL'', ''FULL'', ''EXTRA''}),
      (''invalid BEP-51 queue watermarks'', 0 \<le> BEP51_QUEUE_LOW_WATERMARK cfg
         \<and> BEP51_QUEUE_LOW_WATERMARK cfg < BEP51_QUEUE_HIGH_WATERMARK cfg \<and> BEP51_QUEUE_HIGH_WATERMARK cfg \<le> 1),
      (''DHT_TOKEN_VALIDITY cannot exceed two token rotation intervals'',
         DHT_TOKEN_VALIDITY cfg \<le> 2 * DHT_TOKEN_ROTATION_INTERVAL cfg),
      (''FETCH_RETRY_BASE_SECONDS cannot exceed FETCH_RETRY_MAX_SECONDS'',
         FETCH_RETRY_BASE_SECONDS cfg \<le> FETCH_RETRY_MAX_SECONDS cfg),
      (''NOTIFICATION_RETRY_BASE_SECONDS cannot exceed NOTIFICATION_RETRY_MAX_SECONDS'',
         NOTIFICATION_RETRY_BASE_SECONDS cfg \<le> NOTIFICATION_RETRY_MAX_SECONDS cfg),
      (''TELEGRAM_MESSAGE_MAX_CHARS cannot exceed Telegram sendMessage limit'', TELEGRAM_MESSAGE_MAX_CHARS cfg \<le> 4096),
      (''PEER_ID_PREFIX must be ASCII text'', is_ascii (PEER_ID_PREFIX cfg)),
      (''PEER_ID_PREFIX too long'', length (PEER_ID_PREFIX cfg) \<le> 20),
      (''DHT_BOOTSTRAP_NODES must not be empty'', DHT_BOOTSTRAP_NODES cfg \<noteq> [])]"

definition bootstrap_checks :: "config \<Rightarrow> check list" where
  "bootstrap_checks cfg =
     concat (map (\<lambda>(host, port). [(''invalid DHT bootstrap node'', host \<noteq> []),
                                   (''invalid DHT bootstrap port'', 1 \<le> port \<and> port \<le> 65535)]) (DHT_BOOTSTRAP_NODES cfg))"

definition service_checks :: "config \<Rightarrow> check list" where
  "service_checks cfg =
     [(''KEYWORDS must contain non-empty strings'', list_all (\<lambda>k. k \<noteq> []) (KEYWORDS cfg)),
      (''Telegram is enabled but credentials are missing'',
         TELEGRAM_ENABLED cfg \<longrightarrow> TELEGRAM_BOT_TOKEN cfg \<noteq> [] \<and> TELEGRAM_CHAT_ID cfg \<noteq> [])]"

definition validate_config :: "(string \<Rightarrow> bool) \<Rightarrow> config \<Rightarrow> string + unit" where
  "validate_config ipv6 cfg =
     check_all (identity_checks ipv6 cfg @ map positive (integer_positive cfg) @ map non_negative (integer_nonnegative cfg)
       @ map positive (numeric_positive cfg) @ map non_negative (numeric_nonnegative cfg)
       @ bound_checks cfg @ bootstrap_checks cfg @ service_checks cfg)"

section \<open>What the check gives\<close>

lemma check_all_Inr: "check_all cs = Inr () \<longleftrightarrow> (\<forall>(msg, ok) \<in> set cs. ok)"
  by (induction cs) (auto split: if_splits)

lemma check_all_Inl: "check_all cs = Inl msg \<Longrightarrow> (msg, False) \<in> set cs"
  by (induction cs) (auto split: if_splits)

lemma validated_parts:
  assumes "validate_config ipv6 cfg = Inr ()"
  shows "\<forall>(msg, ok) \<in> set (identity_checks ipv6 cfg). ok" "\<forall>nv \<in> set (integer_positive cfg). 0 < snd nv"
    "\<forall>nv \<in> set (integer_nonnegative cfg). 0 \<le> snd nv" "\<forall>nv \<in> set (numeric_positive cfg). 0 < snd nv"
    "\<forall>nv \<in> set (numeric_nonnegative cfg). 0 \<le> snd nv" "\<forall>(msg, ok) \<in> set (bound_checks cfg). ok"
    "\<forall>(msg, ok) \<in> set (bootstrap_checks cfg). ok" "\<forall>(msg, ok) \<in> set (service_checks cfg). ok"
  using assms [unfolded validate_config_def check_all_Inr] by (auto simp: positive_def non_negative_def)

lemma validated_integers:
  assumes "validate_config ipv6 cfg = Inr ()"
  shows "0 < HASH_QUEUE_SIZE cfg" "0 < RECENT_HASH_CACHE_SIZE cfg" "0 < MAX_PEER_HINTS_PER_CANDIDATE cfg"
    "0 < DHT_ROUTING_BAD_AFTER_FAILURES cfg" "0 < DHT_PEER_STORE_MAX_INFOHASHES cfg"
    "0 < DHT_PEER_STORE_MAX_PEERS_PER_HASH cfg" "0 < FETCH_RETRY_MAX_ATTEMPTS cfg" "0 < DHT_LOOKUP_PARALLELISM cfg"
    "0 < MAX_DHT_QUERIES_PER_TORRENT cfg" "0 < MAX_PEERS_PER_TORRENT cfg" "0 < DHT_QUERY_BURST cfg"
    "0 < DHT_MAX_PENDING_REQUESTS cfg"
  using validated_parts(2) [OF assms] by (simp_all add: integer_positive_def)

lemma validated_numbers:
  assumes "validate_config ipv6 cfg = Inr ()"
  shows "0 < DHT_MAX_REQUESTS_PER_SECOND cfg" "0 < DHT_TOKEN_ROTATION_INTERVAL cfg" "0 < FETCH_RETRY_BASE_SECONDS cfg"
  using validated_parts(4) [OF assms] by (simp_all add: numeric_positive_def)

lemma validated_relations:
  assumes "validate_config ipv6 cfg = Inr ()"
  shows "DHT_TOKEN_VALIDITY cfg \<le> 2 * DHT_TOKEN_ROTATION_INTERVAL cfg"
    "FETCH_RETRY_BASE_SECONDS cfg \<le> FETCH_RETRY_MAX_SECONDS cfg" "1024 \<le> DHT_RECEIVE_MAX_BYTES cfg"
    "17408 \<le> MAX_PEER_MESSAGE_SIZE cfg"
  using validated_parts(6) [OF assms] by (simp_all add: bound_checks_def)

lemma validated_version: "validate_config ipv6 cfg = Inr () \<Longrightarrow> length (ascii (DHT_CLIENT_VERSION cfg)) = 4"
  using validated_parts(1) [of ipv6 cfg] by (simp add: identity_checks_def)

lemma retry_delay_bounds:
  assumes "0 < lo" and "lo \<le> hi"
  shows "lo \<le> retry_delay n lo hi \<and> retry_delay n lo hi \<le> hi \<and> (m \<le> n \<longrightarrow> retry_delay m lo hi \<le> retry_delay n lo hi)"
proof -
  have "lo \<le> lo * 2 ^ e" for e :: nat using assms(1) by simp
  moreover have "lo * 2 ^ nat (max 0 (min (m - 1) 30)) \<le> lo * 2 ^ nat (max 0 (min (n - 1) 30))" if "m \<le> n"
    using assms(1) that by (intro mult_left_mono power_increasing) auto
  ultimately show ?thesis using assms(2) by (simp add: retry_delay_def Let_def min_le_iff_disj)
qed

lemma lookup_ends:
  assumes "length target = 20" and "running cfg loc s" and "steady cfg loc e" and "1 \<le> DHT_LOOKUP_PARALLELISM cfg"
  shows "\<exists>s' l. iterative_lookup cfg e target s = (s', Inr l)"
proof -
  from lookup_start [OF assms(2,1)] obtain cs where
    "closest cfg (lk_closest e) (routing s) target (nat (max (int DHT_K) (DHT_LOOKUP_PARALLELISM cfg))) False = Inr cs"
    and ok: "lookup_ok cfg loc (start_lookup cs)" by blast
  with loop_delivers [OF assms(1,3,4) ok assms(2), of 0] assms(1) show ?thesis by (auto simp: iterative_lookup_def)
qed


lemma default_valid: "validate_config ipv6 default_config = Inr ()"
proof -
  have "parse_ipv4 (ascii ''0.0.0.0'') \<noteq> None" by code_simp
  then show ?thesis
    unfolding validate_config_def check_all_Inr
    by (simp add: identity_checks_def integer_positive_def integer_nonnegative_def numeric_positive_def
        numeric_nonnegative_def bound_checks_def bootstrap_checks_def service_checks_def positive_def non_negative_def
        is_ascii_def upper_char_def default_config_def)
qed


end
