(* ===== verification/Snapshot.thy ===== *)
theory Snapshot
  imports Routing_Correct Crawl_Correct
begin

text \<open>
  The routing snapshot of \<open>RoutingTable\<close> (\<open>snapshot_records\<close>, \<open>restore_contacts\<close>) and the reading
  of its file (\<open>load_routing_snapshot\<close> of \<open>includes/storage.py\<close>): what a restart keeps of the
  routing table. A line of the file is given by what \<open>json.loads\<close> makes of it, which is an
  argument; a record is the list of its fields. The theorem says that a restart keeps every
  contact: it needs the exact ranges of the buckets (aligned powers of two, each the sibling of
  a range that holds the local identifier), which are an invariant of their own.
\<close>

section \<open>Records\<close>

text \<open>The values of a JSON record that this code tells apart. A finite float is given by its
  truncation to an integer.\<close>

datatype jvalue = JStr string | JInt int | JBool bool | JFinite int | JInfinite | JNaN | JNull | JContainer

type_synonym jrecord = "(string \<times> jvalue) list"

text \<open>A line of the file: not JSON, a line on which \<open>json.loads\<close> raises another exception (too
  many digits, too deep), an object, or another value.\<close>

datatype jline = Malformed | Load_raises | Object jrecord | Other_value

datatype snapshot_file = Missing | Undecodable | File_lines "jline list"

datatype snapshot_exn = Unicode_error | Json_exn | Overflow_error | Routing_exn route_exn

definition state_text :: "contact_state \<Rightarrow> string" where
  "state_text st = (case st of GOOD \<Rightarrow> ''GOOD'' | QUESTIONABLE \<Rightarrow> ''QUESTIONABLE'' | BAD \<Rightarrow> ''BAD'')"

text \<open>Protocol text as a string.\<close>

definition text_string :: "atext \<Rightarrow> string" where
  "text_string t = map (\<lambda>b. char_of (unat b)) t"

definition header_record :: "int \<Rightarrow> bytes \<Rightarrow> jrecord" where
  "header_record generated own =
     [(''schema_version'', JInt 1), (''record_type'', JStr ''routing_snapshot''), (''event'', JStr ''header''),
      (''local_node_id'', JStr (hex own)), (''generated_timestamp_ns'', JInt generated)]"

definition contact_record :: "config \<Rightarrow> int \<Rightarrow> int \<Rightarrow> contact \<Rightarrow> jrecord" where
  "contact_record cfg now generated c =
     [(''schema_version'', JInt 1), (''record_type'', JStr ''routing_snapshot''), (''event'', JStr ''contact''),
      (''node_id'', JStr (hex (node_id c))), (''address_family'', JStr ''ipv4''),
      (''ip'', JStr (text_string (ct_ip c))), (''udp_port'', JInt (ct_port c)),
      (''routing_state'', JStr (state_text (state cfg now c))), (''generated_timestamp_ns'', JInt generated)]"

fun contact_records :: "config \<Rightarrow> (nat \<Rightarrow> int) \<Rightarrow> nat \<Rightarrow> int \<Rightarrow> contact list \<Rightarrow> jrecord list" where
  "contact_records cfg clk k generated [] = []"
| "contact_records cfg clk k generated (c # cs) =
     contact_record cfg (clk k) generated c # contact_records cfg clk (Suc k) generated cs"

definition snapshot_records :: "config \<Rightarrow> (nat \<Rightarrow> int) \<Rightarrow> int \<Rightarrow> table \<Rightarrow> jrecord list" where
  "snapshot_records cfg clk generated t =
     header_record generated (local_node_id t) # contact_records cfg clk 0 generated (all_contacts t)"

section \<open>Loading\<close>

text \<open>The identifier a header record carries, if it is one.\<close>

definition header_id :: "jrecord \<Rightarrow> bytes option" where
  "header_id r =
     (if map_of r ''event'' \<noteq> Some (JStr ''header'') then None
      else
        (case map_of r ''local_node_id'' of
           Some (JStr raw) \<Rightarrow>
             (case fromhex raw of
                Some candidate \<Rightarrow> if length candidate = 20 then Some candidate else None
              | None \<Rightarrow> None)
         | _ \<Rightarrow> None))"

text \<open>The loop over the lines: the last valid identifier and every object.\<close>

fun load_lines :: "jline list \<Rightarrow> bytes option \<Rightarrow> snapshot_exn + bytes option \<times> jrecord list" where
  "load_lines [] own = Inr (own, [])"
| "load_lines (Malformed # ls) own = load_lines ls own"
| "load_lines (Load_raises # ls) own = Inl Json_exn"
| "load_lines (Other_value # ls) own = load_lines ls own"
| "load_lines (Object r # ls) own =
     bind_r (load_lines ls (case header_id r of Some b \<Rightarrow> Some b | None \<Rightarrow> own)) (\<lambda>(final, rs).
       Inr (final, r # rs))"

definition load_routing_snapshot :: "snapshot_file \<Rightarrow> snapshot_exn + bytes option \<times> jrecord list" where
  "load_routing_snapshot file =
     (case file of
        Missing \<Rightarrow> Inr (None, [])
      | Undecodable \<Rightarrow> Inl Unicode_error
      | File_lines ls \<Rightarrow> load_lines ls None)"

section \<open>Restoring\<close>

text \<open>\<open>int(v)\<close>: a value, an exception the code catches, or \<open>OverflowError\<close>. The integers that
  strings denote are an argument.\<close>

datatype int_outcome = Int_value int | Int_refused | Int_overflow

definition int_of_field :: "(string \<Rightarrow> int option) \<Rightarrow> jvalue \<Rightarrow> int_outcome" where
  "int_of_field text_int v =
     (case v of
        JInt i \<Rightarrow> Int_value i
      | JBool b \<Rightarrow> Int_value (of_bool b)
      | JFinite i \<Rightarrow> Int_value i
      | JInfinite \<Rightarrow> Int_overflow
      | JStr t \<Rightarrow> (case text_int t of Some i \<Rightarrow> Int_value i | None \<Rightarrow> Int_refused)
      | _ \<Rightarrow> Int_refused)"

text \<open>\<open>str(v)\<close>; the text of a value that is no string is an argument.\<close>

definition str_of_field :: "(jvalue \<Rightarrow> string) \<Rightarrow> jvalue \<Rightarrow> string" where
  "str_of_field show_value v = (case v of JStr t \<Rightarrow> t | _ \<Rightarrow> show_value v)"

text \<open>What the \<open>try\<close> block reads: \<open>Inr None\<close> when the record is skipped.\<close>

definition restore_fields :: "(string \<Rightarrow> int option) \<Rightarrow> (jvalue \<Rightarrow> string) \<Rightarrow> jrecord \<Rightarrow>
    snapshot_exn + (bytes \<times> atext \<times> int) option" where
  "restore_fields text_int show_value r =
     (if map_of r ''event'' \<noteq> Some (JStr ''contact'') then Inr None
      else
        (case map_of r ''node_id'' of
           Some (JStr nid) \<Rightarrow>
             (case (fromhex nid, map_of r ''ip'', map_of r ''udp_port'') of
                (Some b, Some ip, Some port) \<Rightarrow>
                  (case int_of_field text_int port of
                     Int_value p \<Rightarrow> Inr (Some (b, ascii (str_of_field show_value ip), p))
                   | Int_refused \<Rightarrow> Inr None
                   | Int_overflow \<Rightarrow> Inl Overflow_error)
              | _ \<Rightarrow> Inr None)
         | _ \<Rightarrow> Inr None))"

definition routing_result :: "route_exn + 'a \<Rightarrow> snapshot_exn + 'a" where
  "routing_result m = (case m of Inl e \<Rightarrow> Inl (Routing_exn e) | Inr x \<Rightarrow> Inr x)"

text \<open>Every readable contact is observed again as hearsay, whatever state was saved. The records
  still to come number the clock.\<close>

fun restore_contacts :: "config \<Rightarrow> (string \<Rightarrow> int option) \<Rightarrow> (jvalue \<Rightarrow> string) \<Rightarrow> (nat \<Rightarrow> nat \<Rightarrow> int) \<Rightarrow>
    jrecord list \<Rightarrow> table \<Rightarrow> snapshot_exn + table" where
  "restore_contacts cfg text_int show_value clk [] t = Inr t"
| "restore_contacts cfg text_int show_value clk (r # rs) t =
     bind_r (restore_fields text_int show_value r) (\<lambda>fields.
       case fields of
         None \<Rightarrow> restore_contacts cfg text_int show_value clk rs t
       | Some (nid, ip, port) \<Rightarrow>
           bind_r (routing_result (observe cfg (clk (length rs)) t nid ip port False False False None)) (\<lambda>(t', c).
             restore_contacts cfg text_int show_value clk rs t'))"

section \<open>The ranges of the buckets\<close>

text \<open>A range of the tree of identifiers: the numbers that share their bits above \<open>e\<close>. Its parent
  holds the local identifier.\<close>

definition tree_range :: "nat \<Rightarrow> bucket \<Rightarrow> bool" where
  "tree_range l b \<longleftrightarrow>
     (\<exists>e q. low b = q * 2 ^ e \<and> high b = (q + 1) * 2 ^ e
        \<and> (l div 2 ^ e = q \<or> l div 2 ^ (e + 1) = q div 2))"

definition tree_wf :: "table \<Rightarrow> bool" where
  "tree_wf t \<longleftrightarrow> list_all (tree_range (from_bytes (local_node_id t))) (buckets t)"

lemma aligned_range: "q * 2 ^ e \<le> v \<and> v < (q + 1) * 2 ^ e \<longleftrightarrow> v div 2 ^ e = (q :: nat)"
  by (metis Suc_eq_plus1 div_less_iff_less_mult div_nat_eqI less_eq_div_iff_mult_less_eq
      le_antisym less_Suc_eq_le mult.commute order_refl zero_less_numeral zero_less_power)

lemma div_coarser: "v div 2 ^ e = w div 2 ^ e \<Longrightarrow> e \<le> f \<Longrightarrow> v div 2 ^ f = w div (2 ^ f :: nat)"
  by (metis div_mult2_eq le_add_diff_inverse power_add)

lemma tree_range_cong: "low b = low b' \<Longrightarrow> high b = high b' \<Longrightarrow> tree_range l b = tree_range l b'"
  by (simp add: tree_range_def)

text \<open>Of two such ranges that share a number, the one without the local identifier is inside.\<close>

lemma tree_range_inside:
  assumes "tree_range l b" and "tree_range l o'" and "\<not> (low b \<le> l \<and> l < high b)"
    and "low b \<le> v" "v < high b" and "low o' \<le> v" "v < high o'"
    and "low b \<le> w" "w < high b"
  shows "low o' \<le> w \<and> w < high o'"
proof -
  from assms(1) obtain e q where b: "low b = q * 2 ^ e" "high b = (q + 1) * 2 ^ e"
    by (auto simp: tree_range_def)
  from assms(2) obtain f p where o: "low o' = p * 2 ^ f" "high o' = (p + 1) * 2 ^ f"
    "l div 2 ^ f = p \<or> l div 2 ^ (f + 1) = p div 2"
    by (auto simp: tree_range_def)
  have lb: "l div 2 ^ e \<noteq> v div 2 ^ e" and vw: "v div 2 ^ e = w div 2 ^ e"
    using assms(3-5,8,9) aligned_range [of q e] unfolding b by metis+
  have vp: "v div 2 ^ f = p" using assms(6,7) aligned_range [of p f] unfolding o by metis
  have "e \<le> f"
  proof (rule ccontr)
    assume "\<not> e \<le> f"
    then have fe: "f + 1 \<le> e" "f \<le> e" by simp_all
    from o(3) show False
    proof
      assume "l div 2 ^ f = p"
      with vp div_coarser [OF _ fe(2), of l v] lb show False by simp
    next
      assume "l div 2 ^ (f + 1) = p div 2"
      moreover have "v div 2 ^ (f + 1) = p div 2"
        using vp by (metis Suc_eq_plus1 div_mult2_eq power_Suc2)
      ultimately show False using div_coarser [OF _ fe(1), of l v] lb by simp
    qed
  qed
  then have "w div 2 ^ f = p" using div_coarser [OF vw] vp by simp
  then show ?thesis using aligned_range [of p f w] unfolding o by metis
qed


definition spans :: "table \<Rightarrow> (nat \<times> nat) list" where
  "spans t = map (\<lambda>b. (low b, high b)) (buckets t)"

lemma tree_wf_cong:
  assumes "spans t' = spans t" and "local_node_id t' = local_node_id t"
  shows "tree_wf t' = tree_wf t"
proof -
  have "tree_wf u \<longleftrightarrow> (\<forall>s \<in> set (spans u). tree_range (from_bytes (local_node_id u))
      \<lparr>low = fst s, high = snd s, contacts = [], replacements = [], last_changed_ns = 0\<rparr>)" for u
    by (auto simp: tree_wf_def spans_def list_all_iff tree_range_def)
  with assms show ?thesis by simp
qed

lemma spans_set_bucket:
  "low b = low (buckets t ! i) \<Longrightarrow> high b = high (buckets t ! i) \<Longrightarrow> spans (set_bucket i b t) = spans t"
  by (cases "i < length (buckets t)") (simp_all add: spans_def map_update list_update_same_conv list_update_beyond)

lemma spans_emit [simp]: "spans (emit cfg now n c b p t) = spans t"
  by (simp add: spans_def)

lemma spans_place [simp]: "spans (place cfg clk c k i t) = spans t"
  by (simp add: place_def Let_def spans_set_bucket split: option.splits)

lemma spans_observe_known [simp]: "spans (observe_known cfg clk t i old c) = spans t"
  by (simp add: observe_known_def Let_def spans_set_bucket)

lemma local_place [simp]: "local_node_id (place cfg clk c k i t) = local_node_id t"
  by (simp add: place_def Let_def split: option.splits)

lemma local_observe_known [simp]: "local_node_id (observe_known cfg clk t i old c) = local_node_id t"
  by (simp add: observe_known_def Let_def)

lemma split_tree:
  assumes wf: "table_wf cfg t" and tree: "tree_wf t" and i: "i < length (buckets t)"
    and loc: "contains (buckets t ! i) (local_node_id t)"
  shows "tree_wf (split cfg clk k i t)"
proof -
  let ?b = "buckets t ! i" and ?l = "from_bytes (local_node_id t)"
  obtain l r where h: "split_halves (clk k) (clk (k + 1)) ?b = (l, r)" by fastforce
  have bwf: "bucket_wf cfg (local_node_id t) ?b" using bucket_at_wf [OF wf i] .
  note s = split_halves_local [OF no_replacements_local [OF bwf loc] h]
  from tree i obtain e q where q: "low ?b = q * 2 ^ e" "high ?b = (q + 1) * 2 ^ e"
    by (auto simp: tree_wf_def list_all_length tree_range_def)
  have "\<exists>m. high ?b = low ?b + 2 ^ m \<and> 3 \<le> m"
    using wf i loc by (auto simp: table_wf_def halving_def list_all_length)
  with q have "(2 :: nat) ^ e \<noteq> 1" using power_increasing [of 3 _ "2 :: nat"] by fastforce
  then obtain d where e: "e = Suc d" by (cases e) auto
  have lq: "?l div 2 ^ e = q" using loc aligned_range [of q e ?l] unfolding contains_def q by simp
  have mid: "(low ?b + high ?b) div 2 = (2 * q + 1) * 2 ^ d" by (simp add: q e algebra_simps)
  have "tree_range ?l l" unfolding tree_range_def
    by (rule exI [of _ d], rule exI [of _ "2 * q"]) (use s mid q e lq in \<open>simp add: algebra_simps\<close>)
  moreover have "tree_range ?l r" unfolding tree_range_def
    by (rule exI [of _ d], rule exI [of _ "2 * q + 1"]) (use s mid q e lq in \<open>simp add: algebra_simps\<close>)
  ultimately show ?thesis
    using tree by (auto simp: tree_wf_def split_simps [OF h] list_all_iff dest: in_set_takeD in_set_dropD)
qed

lemma split_loop_tree:
  assumes "table_wf cfg t" and "tree_wf t" and "length nid = 20" and "bucket_for t nid = Inr i"
    and "split_loop cfg clk nid k i t = Some (Inr (t', i', k'))"
  shows "tree_wf t'"
  using assms
proof (induction "158 - length (buckets t)" arbitrary: t i k rule: less_induct)
  case less
  show ?case
  proof (cases "DHT_K \<le> length (contacts (buckets t ! i)) \<and> contains (buckets t ! i) (local_node_id t)")
    case False
    with less.prems show ?thesis by (subst (asm) split_loop.simps) auto
  next
    case True
    let ?t = "split cfg clk k i t"
    have i: "i < length (buckets t)" using less.prems(4) by (rule bucket_for_Inr)
    have wf: "table_wf cfg ?t" using split_wf [OF less.prems(1) i] True by blast
    obtain j where j: "bucket_for ?t nid = Inr j"
      using bucket_for_wf wf less.prems(3) by (metis table_wf_def)
    have "158 - length (buckets ?t) < 158 - length (buckets t)"
      using bucket_count [OF wf] length_buckets_split [OF i, of cfg clk k] by linarith
    from less.hyps [OF this wf split_tree [OF less.prems(1,2) i] less.prems(3) j, of "k + 2"] True j less.prems(5)
    show ?thesis by (subst (asm) (2) split_loop.simps) auto
  qed
qed


text \<open>An unknown node: the bucket it is placed in, after the splits.\<close>

lemma observe_new:
  assumes wf: "table_wf cfg t" and nid: "length nid = 20" "nid \<noteq> local_node_id t"
    and new: "find t nid = Inr None"
  obtains t2 i2 k2 where
    "observe cfg clk t nid ip port direct incoming False ver =
       Inr (place cfg clk (new_contact clk nid ip port direct incoming False ver) k2 i2 t2,
            Some (new_contact clk nid ip port direct incoming False ver))"
    and "table_wf cfg t2" "tree_wf t \<Longrightarrow> tree_wf t2" "local_node_id t2 = local_node_id t"
    and "i2 < length (buckets t2)" "contains (buckets t2 ! i2) nid"
    and "\<not> (DHT_K \<le> length (contacts (buckets t2 ! i2)) \<and> contains (buckets t2 ! i2) (local_node_id t2))"
    and "set (all_contacts t2) = set (all_contacts t)"
proof -
  let ?c = "new_contact clk nid ip port direct incoming False ver"
  obtain i where i: "bucket_for t nid = Inr i" "i < length (buckets t)" "contains (buckets t ! i) nid"
    "find t nid = Inr (List.find (\<lambda>c. node_id c = nid) (contacts (buckets t ! i)))"
    using find_wf [OF wf nid(1)] by metis
  define t1 where "t1 = emit cfg (clk 3) ''node_candidate'' (Some ?c) (buckets t ! i) None t"
  have t1: "table_wf cfg t1" "bucket_for t1 nid = Inr i" "local_node_id t1 = local_node_id t"
    "set (all_contacts t1) = set (all_contacts t)" "tree_wf t1 = tree_wf t"
    unfolding t1_def using wf i tree_wf_cong [OF spans_emit emit_simps(2)] by simp_all
  obtain t2 i2 k2 where l: "split_loop cfg clk nid 4 i t1 = Some (Inr (t2, i2, k2))"
    "table_wf cfg t2" "local_node_id t2 = local_node_id t1" "bucket_for t2 nid = Inr i2"
    "\<not> (DHT_K \<le> length (contacts (buckets t2 ! i2)) \<and> contains (buckets t2 ! i2) (local_node_id t2))"
    "set (all_contacts t2) = set (all_contacts t1)"
    using split_loop_total [OF t1(1) nid(1) t1(2)] by metis
  have "observe cfg clk t nid ip port direct incoming False ver = Inr (place cfg clk ?c k2 i2 t2, Some ?c)"
    using new i nid l(1) by (simp add: observe_def t1_def Let_def)
  moreover have "tree_wf t \<Longrightarrow> tree_wf t2"
    using split_loop_tree [OF t1(1) _ nid(1) t1(2) l(1)] t1(5) by simp
  ultimately show thesis using that l t1 bucket_for_Inr [OF l(4)] by simp
qed

lemma observe_tree:
  assumes wf: "table_wf cfg t" and tree: "tree_wf t"
    and obs: "observe cfg clk t nid ip port direct incoming ro ver = Inr (t', r)"
  shows "tree_wf t'"
proof (cases "length nid \<noteq> 20 \<or> nid = local_node_id t")
  case True
  with tree obs show ?thesis by (simp add: observe_def)
next
  case False
  then have nid: "length nid = 20" "nid \<noteq> local_node_id t" by auto
  obtain i where i: "bucket_for t nid = Inr i"
    "find t nid = Inr (List.find (\<lambda>c. node_id c = nid) (contacts (buckets t ! i)))"
    using find_wf [OF wf nid(1)] by metis
  show ?thesis
  proof (cases "List.find (\<lambda>c. node_id c = nid) (contacts (buckets t ! i))")
    case (Some old)
    with obs i nid have "t' = observe_known cfg clk t i old (refresh clk ip port direct incoming ro ver old)"
      by (simp add: observe_def Let_def)
    with tree show ?thesis using tree_wf_cong [OF spans_observe_known local_observe_known] by simp
  next
    case None
    show ?thesis
    proof (cases ro)
      case True
      with obs i nid None tree show ?thesis
        using tree_wf_cong [OF spans_emit emit_simps(2)] by (auto simp: observe_def Let_def)
    next
      case False
      obtain t2 i2 k2 where
        "observe cfg clk t nid ip port direct incoming False ver =
           Inr (place cfg clk (new_contact clk nid ip port direct incoming False ver) k2 i2 t2,
                Some (new_contact clk nid ip port direct incoming False ver))" "tree_wf t2"
        using observe_new [OF wf nid, of clk ip port direct incoming ver] i None tree by metis
      with obs False show ?thesis using tree_wf_cong [OF spans_place local_place] by auto
    qed
  qed
qed

lemma failure_tree:
  assumes wf: "table_wf cfg t" and tree: "tree_wf t" and nid: "length nid = 20"
    and m: "mark_failure cfg clk t nid = Inr t'"
  shows "tree_wf t'"
proof -
  obtain i where i: "bucket_for t nid = Inr i" "i < length (buckets t)"
    "find t nid = Inr (List.find (\<lambda>c. node_id c = nid) (contacts (buckets t ! i)))"
    using find_wf [OF wf nid] by metis
  show ?thesis
  proof (cases "List.find (\<lambda>c. node_id c = nid) (contacts (buckets t ! i))")
    case None
    with i m tree show ?thesis by (simp add: mark_failure_def)
  next
    case (Some old)
    let ?b = "fail_bucket cfg clk nid (old\<lparr>failures := failures old + 1\<rparr>) (buckets t ! i)"
    have "local_node_id t' = local_node_id t" "buckets t' = buckets (set_bucket i ?b t)"
      using mark_failure_bucket [OF wf i(1), of old clk] i(3) Some m by auto
    moreover have "spans (set_bucket i ?b t) = spans t" by (rule spans_set_bucket) (simp_all add: fail_bucket_def)
    ultimately show ?thesis using tree tree_wf_cong [of t' t] by (simp add: spans_def)
  qed
qed

lemma new_table_tree: "new_table l now = Inr t \<Longrightarrow> tree_wf t"
  by (auto simp: new_table_def tree_wf_def tree_range_def DHT_ID_SPACE_def
      dest!: node_id_in_space split: if_splits intro!: exI [of _ "160 :: nat"])

interpretation trees: machine_invariant "route_init cfg" "route_step cfg"
  "\<lambda>t. (0 < DHT_ROUTING_BAD_AFTER_FAILURES cfg \<and> table_wf cfg t) \<and> tree_wf t" for cfg
proof
  show "(0 < DHT_ROUTING_BAD_AFTER_FAILURES cfg \<and> table_wf cfg t) \<and> tree_wf t"
    if "route_init cfg t" for t
    using that by (auto simp: route_init_def intro: new_table_wf new_table_tree)
  show "(0 < DHT_ROUTING_BAD_AFTER_FAILURES cfg \<and> table_wf cfg t') \<and> tree_wf t'"
    if "(0 < DHT_ROUTING_BAD_AFTER_FAILURES cfg \<and> table_wf cfg t) \<and> tree_wf t" "route_step cfg t e t'" for t e t'
    using that route_step_wf [of cfg t e t'] by (auto elim!: route_stepE intro: observe_tree failure_tree)
qed

lemmas reachable_tree = trees.reachable_inv [THEN conjunct2]


section \<open>A restart\<close>

text \<open>What the snapshot keeps of a contact, and a contact nothing has proved yet.\<close>

definition contact_key :: "contact \<Rightarrow> bytes \<times> atext \<times> int" where
  "contact_key c = (node_id c, ct_ip c, ct_port c)"

definition hearsay :: "contact \<Rightarrow> bool" where
  "hearsay c \<longleftrightarrow> failures c = 0 \<and> last_response_ns c = None \<and> last_query_ns c = None \<and> \<not> ever_responded c"

lemma hearsay_state: "hearsay c \<Longrightarrow> 0 < DHT_ROUTING_BAD_AFTER_FAILURES cfg \<Longrightarrow> state cfg now c = QUESTIONABLE"
  by (simp add: hearsay_def state_def is_bad_def recent_enough_def Let_def)

lemma bucket_of_contact:
  assumes wf: "table_wf cfg t" and c: "c \<in> set (all_contacts t)"
  obtains j where "j < length (buckets t)" "c \<in> set (contacts (buckets t ! j))"
    "contains (buckets t ! j) (node_id c)" "length (node_id c) = 20" "node_id c \<noteq> local_node_id t"
proof -
  obtain j where j: "j < length (buckets t)" "c \<in> set (contacts (buckets t ! j))"
    using c by (auto simp: all_contacts_def in_set_conv_nth [of _ "buckets t"])
  moreover have "member_ok (local_node_id t) (buckets t ! j) (node_id c)"
    using bucket_at_wf [OF wf j(1)] j(2) by (auto simp: bucket_wf_def ids_def list_all_iff)
  ultimately show thesis using that by (auto simp: member_ok_def)
qed

text \<open>A bucket that splits no further cannot be fuller than the bucket of the saved table.\<close>

lemma saved_fits:
  assumes u: "table_wf cfg u" "tree_wf u" and s: "table_wf cfg s" "tree_wf s" "local_node_id s = local_node_id u"
    and sub: "node_id ` set (all_contacts s) \<subseteq> node_id ` set (all_contacts u)"
    and c: "c \<in> set (all_contacts u)" and new: "node_id c \<notin> node_id ` set (all_contacts s)"
    and i: "i < length (buckets s)" "contains (buckets s ! i) (node_id c)"
    and loc: "\<not> contains (buckets s ! i) (local_node_id s)"
  shows "length (contacts (buckets s ! i)) < DHT_K"
proof -
  let ?b = "buckets s ! i"
  obtain j where j: "j < length (buckets u)" "c \<in> set (contacts (buckets u ! j))" "contains (buckets u ! j) (node_id c)"
    using bucket_of_contact [OF u(1) c] by metis
  let ?o = "buckets u ! j"
  have tree: "tree_range (from_bytes (local_node_id u)) ?b" "tree_range (from_bytes (local_node_id u)) ?o"
    using u(2) s(2,3) i(1) j(1) by (auto simp: tree_wf_def list_all_length)
  have b: "node_id x \<in> node_id ` set (contacts ?o)" if x: "x \<in> set (contacts ?b)" for x
  proof -
    have xs: "x \<in> set (all_contacts s)" using x i(1) by (auto simp: all_contacts_def)
    with sub obtain y where y: "y \<in> set (all_contacts u)" "node_id y = node_id x" by force
    have xb: "contains ?b (node_id x)"
      using bucket_at_wf [OF s(1) i(1)] x by (auto simp: bucket_wf_def ids_def list_all_iff member_ok_def)
    have "contains ?o (node_id x)"
      using tree_range_inside [OF tree, of "from_bytes (node_id c)" "from_bytes (node_id x)"] loc s(3) i(2) j(3) xb
      by (simp add: contains_def)
    moreover obtain m where m: "m < length (buckets u)" "y \<in> set (contacts (buckets u ! m))"
      "contains (buckets u ! m) (node_id y)"
      using bucket_of_contact [OF u(1) y(1)] by metis
    ultimately have "m = j" using chain_disjoint [of 0 DHT_ID_SPACE "buckets u" m j] u(1) j(1) y(2)
      by (auto simp: table_wf_def)
    with m y(2) show ?thesis by (metis imageI)
  qed
  have "distinct (map node_id (contacts ?b))" "distinct (map node_id (contacts ?o))" "length (contacts ?o) \<le> DHT_K"
    using bucket_at_wf [OF s(1) i(1)] bucket_at_wf [OF u(1) j(1)] by (auto simp: bucket_wf_def ids_def)
  then have card: "card (node_id ` set (contacts ?b)) = length (contacts ?b)"
    "card (node_id ` set (contacts ?o)) \<le> DHT_K"
    by (metis distinct_card length_map set_map)+
  have "set (contacts ?b) \<subseteq> set (all_contacts s)" using nth_mem [OF i(1)] by (auto simp: all_contacts_def)
  then have "node_id c \<notin> node_id ` set (contacts ?b)" using new by blast
  moreover have "insert (node_id c) (node_id ` set (contacts ?b)) \<subseteq> node_id ` set (contacts ?o)" using b j(2) by auto
  ultimately have "Suc (length (contacts ?b)) \<le> card (node_id ` set (contacts ?o))"
    using card_mono [of "node_id ` set (contacts ?o)" "insert (node_id c) (node_id ` set (contacts ?b))"] card(1) by simp
  with card(2) show ?thesis by simp
qed

lemma place_room:
  assumes i: "i < length (buckets t)" and room: "length (contacts (buckets t ! i)) < DHT_K"
    and bad: "\<forall>x \<in> set (all_contacts t). \<not> is_bad cfg x"
  shows "set (all_contacts (place cfg clk c k i t)) = insert c (set (all_contacts t))"
proof -
  have "c \<in> set (all_contacts (place cfg clk c k i t))"
    using room contacts_set_bucket_new [OF i] by (force simp: place_def Let_def)
  with place_contacts [OF i, where cfg = cfg and clk = clk and c = c and k = k] bad show ?thesis by blast
qed


text \<open>One saved contact is observed again.\<close>

lemma restore_one:
  assumes u: "reachable (route_init cfg) (route_step cfg) u"
    and s: "reachable (route_init cfg) (route_step cfg) s" "local_node_id s = local_node_id u"
    and hear: "\<forall>x \<in> set (all_contacts s). hearsay x"
    and sub: "node_id ` set (all_contacts s) \<subseteq> node_id ` set (all_contacts u)"
    and c: "c \<in> set (all_contacts u)" and new: "node_id c \<notin> node_id ` set (all_contacts s)"
  obtains s' d where "observe cfg clk s (node_id c) (ct_ip c) (ct_port c) False False False None = Inr (s', Some d)"
    and "reachable (route_init cfg) (route_step cfg) s'" "local_node_id s' = local_node_id u"
    and "hearsay d" "contact_key d = contact_key c"
    and "set (all_contacts s') = insert d (set (all_contacts s))"
proof -
  note wf = reachable_wf [OF s(1)] and uwf = reachable_wf [OF u] and pos = reachable_pos [OF u]
  let ?d = "new_contact clk (node_id c) (ct_ip c) (ct_port c) False False False None"
  have nid: "length (node_id c) = 20" "node_id c \<noteq> local_node_id s"
    using bucket_of_contact [OF uwf c] s(2) by metis+
  have "find s (node_id c) = Inr None"
  proof -
    obtain i where i: "i < length (buckets s)"
      "find s (node_id c) = Inr (List.find (\<lambda>x. node_id x = node_id c) (contacts (buckets s ! i)))"
      using find_wf [OF wf nid(1)] by metis
    have held: "set (contacts (buckets s ! i)) \<subseteq> set (all_contacts s)" using nth_mem [OF i(1)] by (auto simp: all_contacts_def)
    have "node_id x \<noteq> node_id c" if "x \<in> set (contacts (buckets s ! i))" for x
      using imageI [OF subsetD [OF held that], of node_id] new by metis
    then have "List.find (\<lambda>x. node_id x = node_id c) (contacts (buckets s ! i)) = None"
      by (simp add: find_None_iff)
    with i show ?thesis by simp
  qed
  from observe_new [OF wf nid this, of clk "ct_ip c" "ct_port c" False False None]
  obtain t2 i2 k2 where o: "observe cfg clk s (node_id c) (ct_ip c) (ct_port c) False False False None =
      Inr (place cfg clk ?d k2 i2 t2, Some ?d)"
    and t2: "table_wf cfg t2" "tree_wf t2" "local_node_id t2 = local_node_id s"
    and i2: "i2 < length (buckets t2)" "contains (buckets t2 ! i2) (node_id c)"
    and stop: "\<not> (DHT_K \<le> length (contacts (buckets t2 ! i2)) \<and> contains (buckets t2 ! i2) (local_node_id t2))"
    and same: "set (all_contacts t2) = set (all_contacts s)"
    using reachable_tree [OF s(1)] by metis
  have "length (contacts (buckets t2 ! i2)) < DHT_K"
    using saved_fits [OF uwf reachable_tree [OF u] t2(1,2) _ _ c _ i2] t2(3) s(2) sub new same stop
    by (metis not_less)
  moreover have "\<forall>x \<in> set (all_contacts t2). \<not> is_bad cfg x"
    using hear same pos by (auto simp: hearsay_def is_bad_def)
  ultimately have "set (all_contacts (place cfg clk ?d k2 i2 t2)) = insert ?d (set (all_contacts s))"
    using place_room [OF i2(1)] same by simp
  moreover have "reachable (route_init cfg) (route_step cfg) (place cfg clk ?d k2 i2 t2)"
    by (rule reachable.step [where step = "route_step cfg", OF s(1) route_step.sighting [OF o]])
  ultimately show thesis using that [OF o] t2(3) s(2)
    by (simp add: hearsay_def contact_key_def new_contact_def)
qed

lemma ascii_text_string [simp]: "ascii (text_string t) = t"
proof -
  have "(of_char (char_of (unat b)) :: byte) = b" for b :: byte
  proof -
    have "(of_char (char_of (unat b)) :: byte) = of_nat (of_char (char_of (unat b)))"
      by (rule of_nat_of_char [symmetric])
    then show ?thesis by (simp add: of_char_of)
  qed
  then show ?thesis by (simp add: ascii_def text_string_def comp_def)
qed

lemma restore_fields_contact:
  "restore_fields text_int show_value (contact_record cfg now gen c) = Inr (Some (contact_key c))"
  by (simp add: restore_fields_def contact_record_def fromhex_hex int_of_field_def str_of_field_def contact_key_def)

lemma restore_all:
  assumes u: "reachable (route_init cfg) (route_step cfg) u"
    and "reachable (route_init cfg) (route_step cfg) s" "local_node_id s = local_node_id u"
    and "\<forall>x \<in> set (all_contacts s). hearsay x"
    and "node_id ` set (all_contacts s) \<subseteq> node_id ` set (all_contacts u)"
    and "set cs \<subseteq> set (all_contacts u)" "distinct (map node_id cs)"
    and "node_id ` set cs \<inter> node_id ` set (all_contacts s) = {}"
  shows "\<exists>s'. restore_contacts cfg text_int show_value clk (contact_records cfg ck k gen cs) s = Inr s'
    \<and> reachable (route_init cfg) (route_step cfg) s' \<and> (\<forall>x \<in> set (all_contacts s'). hearsay x)
    \<and> contact_key ` set (all_contacts s') = contact_key ` set cs \<union> contact_key ` set (all_contacts s)"
  using assms(2-)
proof (induction cs arbitrary: s k)
  case Nil
  then show ?case by simp
next
  case (Cons c cs)
  let ?clk = "clk (length (contact_records cfg ck (Suc k) gen cs))"
  obtain s1 d where o: "observe cfg ?clk s (node_id c) (ct_ip c) (ct_port c) False False False None = Inr (s1, Some d)"
    and s1: "reachable (route_init cfg) (route_step cfg) s1" "local_node_id s1 = local_node_id u"
    and d: "hearsay d" "contact_key d = contact_key c"
    and new: "set (all_contacts s1) = insert d (set (all_contacts s))"
    using restore_one [OF u Cons.prems(1-4), of c ?clk] Cons.prems(5,7) by auto
  have id: "node_id d = node_id c" using d(2) by (simp add: contact_key_def)
  have "\<exists>s'. restore_contacts cfg text_int show_value clk (contact_records cfg ck (Suc k) gen cs) s1 = Inr s'
    \<and> reachable (route_init cfg) (route_step cfg) s' \<and> (\<forall>x \<in> set (all_contacts s'). hearsay x)
    \<and> contact_key ` set (all_contacts s') = contact_key ` set cs \<union> contact_key ` set (all_contacts s1)"
    by (rule Cons.IH [OF s1]) (use Cons.prems d(1) id new in auto)
  then show ?case using o d(2) new
    by (auto simp: restore_fields_contact routing_result_def contact_key_def [of c])
qed

lemma load_objects:
  assumes "\<forall>r \<in> set rs. header_id r = None"
  shows "load_lines (map Object rs) own = Inr (own, rs)"
  using assms by (induction rs) auto

lemma contact_records_no_header: "r \<in> set (contact_records cfg ck k gen cs) \<Longrightarrow> header_id r = None"
  by (induction cs arbitrary: k) (auto simp: header_id_def contact_record_def)

lemma load_snapshot:
  assumes "length (local_node_id t) = 20"
  shows "load_lines (map Object (snapshot_records cfg ck gen t)) None
    = Inr (Some (local_node_id t), snapshot_records cfg ck gen t)"
  using assms load_objects [of "contact_records cfg ck 0 gen (all_contacts t)"] contact_records_no_header
  by (auto simp: snapshot_records_def header_id_def header_record_def fromhex_hex)

text \<open>C31. A restart loses no contact: from the file that the snapshot of a reachable table fills, the
  node gets back its own identifier, and restoring the records into the new table raises
  nothing and puts back exactly the identifiers and endpoints of the old table, every one of
  them unproved (\<open>QUESTIONABLE\<close>) whatever state it had.\<close>

theorem snapshot_restart:
  assumes t: "reachable (route_init cfg) (route_step cfg) t"
    and t0: "new_table (local_node_id t) now = Inr t0"
  shows "load_routing_snapshot (File_lines (map Object (snapshot_records cfg ck gen t)))
      = Inr (Some (local_node_id t), snapshot_records cfg ck gen t)
    \<and> (\<exists>t'. restore_contacts cfg text_int show_value clk (snapshot_records cfg ck gen t) t0 = Inr t'
        \<and> reachable (route_init cfg) (route_step cfg) t'
        \<and> contact_key ` set (all_contacts t') = contact_key ` set (all_contacts t)
        \<and> (\<forall>c \<in> set (all_contacts t'). \<forall>when. state cfg when c = QUESTIONABLE))"
proof -
  have start: "local_node_id t0 = local_node_id t" "all_contacts t0 = []" "length (local_node_id t) = 20"
    using t0 by (auto simp: new_table_def all_contacts_def new_bucket_def split: if_splits)
  have r0: "reachable (route_init cfg) (route_step cfg) t0"
    using t0 reachable_pos [OF t] by (intro reachable.start) (auto simp: route_init_def)
  have "\<exists>t'. restore_contacts cfg text_int show_value clk (contact_records cfg ck 0 gen (all_contacts t)) t0 = Inr t'
    \<and> reachable (route_init cfg) (route_step cfg) t' \<and> (\<forall>x \<in> set (all_contacts t'). hearsay x)
    \<and> contact_key ` set (all_contacts t') = contact_key ` set (all_contacts t) \<union> contact_key ` set (all_contacts t0)"
    by (rule restore_all [OF t r0]) (use start distinct_all_contacts [OF reachable_wf [OF t]] in auto)
  then show ?thesis
    using load_snapshot [OF start(3), of cfg ck gen] start(2) hearsay_state [OF _ reachable_pos [OF t]]
    by (auto simp: load_routing_snapshot_def snapshot_records_def restore_fields_def header_record_def)
qed


lemma snapshot_restart_witness:
  "\<exists>t ev t'. t = demo_start\<lparr>buckets := [(new_bucket 0 DHT_ID_SPACE 5)\<lparr>contacts := [demo_contact]\<rparr>], events := ev\<rparr>
    \<and> restore_contacts default_config (\<lambda>_. None) (\<lambda>_. []) (\<lambda>_ _. 9)
        (snapshot_records default_config (\<lambda>_. 8) 7 t) demo_start = Inr t'
    \<and> contact_key ` set (all_contacts t') = {(demo_id, ascii ''8.8.8.8'', 6881)}"
proof -
  obtain ev where r: "reachable (route_init default_config) (route_step default_config)
     (demo_start\<lparr>buckets := [(new_bucket 0 DHT_ID_SPACE 5)\<lparr>contacts := [demo_contact]\<rparr>], events := ev\<rparr>)"
    (is "reachable _ _ ?t") using demo_reachable by blast
  have "new_table (local_node_id ?t) 0 = Inr demo_start"
    by (simp add: new_table_def demo_start_def)
  moreover have "contact_key ` set (all_contacts ?t) = {(demo_id, ascii ''8.8.8.8'', 6881)}"
    by (simp add: all_contacts_def new_bucket_def contact_key_def demo_contact_def)
  ultimately show ?thesis
    using snapshot_restart [OF r, of 0 demo_start "\<lambda>_. 8" 7 "\<lambda>_. None" "\<lambda>_. []" "\<lambda>_ _. 9"] by metis
qed

end
