(* ===== verification/Notifications.thy ===== *)
theory Notifications
  imports Crawl
begin

text \<open>
  \<open>includes/communications.py\<close> and the notification scheduler of \<open>main.py\<close>: the text of a
  notification, the one HTTPS request that sends it, the reading of the reply, and what the
  result does to the row. The peer's bytes are the argument: a stream with its end (closed,
  or silent until the timeout); an HTTP line is its Latin-1 bytes. TLS, name resolution and
  \<open>json.loads\<close> are arguments. The JSON texts of the row are represented by their lists.
\<close>

section \<open>Python's numbers and white space on Latin-1 text\<close>

definition latin_space :: "byte \<Rightarrow> bool" where
  "latin_space b \<longleftrightarrow> (let n = unat b in (9 \<le> n \<and> n \<le> 13) \<or> (28 \<le> n \<and> n \<le> 32) \<or> n = 133 \<or> n = 160)"

definition byte_space :: "byte \<Rightarrow> bool" where
  "byte_space b \<longleftrightarrow> (let n = unat b in (9 \<le> n \<and> n \<le> 13) \<or> n = 32)"

definition strip_by :: "(byte \<Rightarrow> bool) \<Rightarrow> bytes \<Rightarrow> bytes" where
  "strip_by sp t = rev (dropWhile sp (rev (dropWhile sp t)))"

definition latin_lower :: "byte \<Rightarrow> byte" where
  "latin_lower b =
     (let n = unat b in if (65 \<le> n \<and> n \<le> 90) \<or> (192 \<le> n \<and> n \<le> 222 \<and> n \<noteq> 215) then b + 32 else b)"

definition digit_of :: "nat \<Rightarrow> byte \<Rightarrow> nat option" where
  "digit_of base b =
     (let n = unat b;
          v = (if 48 \<le> n \<and> n \<le> 57 then n - 48
               else if 97 \<le> n \<and> n \<le> 122 then n - 87
               else if 65 \<le> n \<and> n \<le> 90 then n - 55 else 99)
      in if v < base then Some v else None)"

text \<open>The digits after the first: single underscores may stand between them.\<close>

fun digits_tail :: "nat \<Rightarrow> bytes \<Rightarrow> nat \<Rightarrow> nat option" where
  "digits_tail base [] acc = Some acc"
| "digits_tail base [d] acc = map_option (\<lambda>v. base * acc + v) (digit_of base d)"
| "digits_tail base (d # d' # ds) acc =
     (case digit_of base d of
        Some v \<Rightarrow> digits_tail base (d' # ds) (base * acc + v)
      | None \<Rightarrow>
          if d \<noteq> 95 then None
          else (case digit_of base d' of Some v \<Rightarrow> digits_tail base ds (base * acc + v) | None \<Rightarrow> None))"

definition digits_value :: "nat \<Rightarrow> bytes \<Rightarrow> nat option" where
  "digits_value base t =
     (case t of
        [] \<Rightarrow> None
      | d # ds \<Rightarrow> (case digit_of base d of Some v \<Rightarrow> digits_tail base ds v | None \<Rightarrow> None))"

text \<open>\<open>int(t, base)\<close> for the bases 10 and 16, without the white space around. Base 10 has the
  interpreter's limit on the number of digits.\<close>

definition py_int :: "nat \<Rightarrow> bytes \<Rightarrow> int option" where
  "py_int base t =
     (let neg = take 1 t = ascii ''-'';
          u = (if neg \<or> take 1 t = ascii ''+'' then drop 1 t else t);
          hexed = base = 16 \<and> take 2 u \<in> {ascii ''0x'', ascii ''0X''};
          v = (if hexed then drop 2 u else u);
          w = (if hexed \<and> take 1 v = ascii ''_'' then drop 1 v else v)
      in if base = 10 \<and> 4300 < length (filter (\<lambda>b. b \<noteq> 95) w) then None
         else map_option (\<lambda>n. if neg then - int n else int n) (digits_value base w))"

section \<open>The reply\<close>

text \<open>How the stream ends when more bytes are awaited than there are.\<close>

datatype stream_end = Closed | Silent

datatype http_exn = Value_Error | Timeout_Error | Os_Error | Incomplete_Read | Attribute_Error | Other_Error

definition stream_limit :: nat where
  "stream_limit = 65536"

text \<open>\<open>StreamReader.readline\<close>, \<open>readexactly\<close> and \<open>read\<close>; \<open>read\<close> returns what has arrived.\<close>

definition read_line :: "bytes \<Rightarrow> stream_end \<Rightarrow> http_exn + bytes \<times> bytes" where
  "read_line bs en =
     (let line = takeWhile (\<lambda>b. b \<noteq> 10) bs; rest = dropWhile (\<lambda>b. b \<noteq> 10) bs in
      if stream_limit < length line then Inl Value_Error
      else case rest of
             nl # rest' \<Rightarrow> Inr (line @ [nl], rest')
           | [] \<Rightarrow> (case en of Closed \<Rightarrow> Inr (line, []) | Silent \<Rightarrow> Inl Timeout_Error))"

definition read_exactly :: "int \<Rightarrow> bytes \<Rightarrow> stream_end \<Rightarrow> http_exn + bytes \<times> bytes" where
  "read_exactly n bs en =
     (if n < 0 then Inl Value_Error
      else if n \<le> int (length bs) then Inr (take (nat n) bs, drop (nat n) bs)
      else (case en of Closed \<Rightarrow> Inl Incomplete_Read | Silent \<Rightarrow> Inl Timeout_Error))"

definition read_some :: "nat \<Rightarrow> int \<Rightarrow> bytes \<Rightarrow> stream_end \<Rightarrow> http_exn + bytes" where
  "read_some arrived n bs en =
     (if n = 0 then Inr []
      else if bs = [] then (case en of Closed \<Rightarrow> Inr [] | Silent \<Rightarrow> Inl Timeout_Error)
      else Inr (take (min (nat n) (max 1 arrived)) bs))"

lemma read_line_shorter:
  assumes "read_line bs en = Inr (line, rest)"
  shows "bs = line @ rest"
proof -
  have b: "bs = takeWhile (\<lambda>b. b \<noteq> 10) bs @ dropWhile (\<lambda>b. b \<noteq> 10) bs" by simp
  show ?thesis
  proof (cases "dropWhile (\<lambda>b. b \<noteq> 10) bs")
    case Nil
    with assms b show ?thesis by (simp add: read_line_def Let_def split: if_splits stream_end.splits)
  next
    case (Cons nl r)
    with assms have "line = takeWhile (\<lambda>b. b \<noteq> 10) bs @ [nl]" "rest = r"
      by (simp_all add: read_line_def Let_def split: if_splits)
    with b Cons show ?thesis by simp
  qed
qed

lemma read_exactly_shorter: "read_exactly n bs en = Inr (got, rest) \<Longrightarrow> length rest \<le> length bs"
  by (auto simp: read_exactly_def split: if_splits stream_end.splits)

text \<open>\<open>line.split(b";", 1)[0].strip()\<close>\<close>

definition chunk_size :: "bytes \<Rightarrow> int option" where
  "chunk_size line = py_int 16 (strip_by byte_space (takeWhile (\<lambda>b. b \<noteq> 59) line))"

lemma chunk_size_Nil [simp]: "chunk_size [] = None"
  by (simp add: chunk_size_def py_int_def strip_by_def digits_value_def ascii_def Let_def)

function read_chunked :: "int \<Rightarrow> bytes \<Rightarrow> bytes \<Rightarrow> stream_end \<Rightarrow> http_exn + bytes" where
  "read_chunked limit body bs en =
     (case read_line bs en of
        Inl x \<Rightarrow> Inl x
      | Inr (line, bs1) \<Rightarrow>
          (case chunk_size line of
             None \<Rightarrow> Inl Value_Error
           | Some n \<Rightarrow>
               if n = 0 then bind_r (read_line bs1 en) (\<lambda>_. Inr body)
               else if n < 0 \<or> limit < int (length body) + n then Inl Value_Error
               else
                 (case read_exactly n bs1 en of
                    Inl x \<Rightarrow> Inl x
                  | Inr (got, bs2) \<Rightarrow>
                      (case read_exactly 2 bs2 en of
                         Inl x \<Rightarrow> Inl x
                       | Inr (crlf, bs3) \<Rightarrow> read_chunked limit (body @ got) bs3 en))))"
  by pat_completeness auto
termination
proof (relation "measure (\<lambda>(limit, body, bs, en). length bs)", goal_cases)
  case (2 limit body bs en p line bs1 n q got bs2 r crlf bs3)
  then have "line \<noteq> []" by auto
  moreover have "bs = line @ bs1" using read_line_shorter [of bs en line bs1] 2 by simp
  moreover have "length bs3 \<le> length bs1"
    using read_exactly_shorter [of n bs1 en got bs2] read_exactly_shorter [of 2 bs2 en crlf bs3] 2 by simp
  ultimately show ?case by (cases line) auto
qed simp

declare read_chunked.simps [simp del]

section \<open>The text of a notification\<close>

definition lit :: "string \<Rightarrow> ustr" where
  "lit s = map of_char s"

text \<open>\<open>xs[:n]\<close>, with the meaning of a negative bound.\<close>

definition upto_index :: "int \<Rightarrow> 'a list \<Rightarrow> 'a list" where
  "upto_index n xs = (if 0 \<le> n then take (nat n) xs else take (length xs - nat (- n)) xs)"

fun join_with :: "ustr \<Rightarrow> ustr list \<Rightarrow> ustr" where
  "join_with sep [] = []"
| "join_with sep [t] = t"
| "join_with sep (t # t' # ts) = t @ sep @ join_with sep (t' # ts)"

text \<open>\<open>urllib.parse.quote\<close> with no safe characters, and \<open>quote_plus\<close>.\<close>

definition quote_byte :: "bool \<Rightarrow> byte \<Rightarrow> ustr" where
  "quote_byte form b =
     (let n = unat b in
      if (48 \<le> n \<and> n \<le> 57) \<or> (65 \<le> n \<and> n \<le> 90) \<or> (97 \<le> n \<and> n \<le> 122) \<or> n \<in> {45, 46, 95, 126} then [n]
      else if form \<and> n = 32 then lit ''+''
      else lit [CHR ''%'', ''0123456789ABCDEF'' ! (n div 16), ''0123456789ABCDEF'' ! (n mod 16)])"

definition quote :: "bool \<Rightarrow> ustr \<Rightarrow> pyexn + ustr" where
  "quote form t = bind_r (utf8_encode t) (\<lambda>bs. Inr (concat (map (quote_byte form) bs)))"

definition magnet_uri :: "string \<Rightarrow> ustr option \<Rightarrow> pyexn + ustr" where
  "magnet_uri uid nm =
     (if take 5 uid \<noteq> ''btih:'' then Inl (ValueError ''only confirmed v1 btih torrent IDs are supported'')
      else
        (let infohash = drop 5 uid; uri = lit (''magnet:?xt=urn:btih:'' @ infohash) in
         if length infohash \<noteq> 40 \<or> \<not> list_all (\<lambda>c. c \<in> set ''0123456789abcdef'') infohash
         then Inl (ValueError ''invalid btih torrent UID'')
         else case nm of
                Some (c # cs) \<Rightarrow> bind_r (quote False (c # cs)) (\<lambda>q. Inr (uri @ lit ''&dn='' @ q))
              | _ \<Rightarrow> Inr uri))"

definition format_notification :: "config \<Rightarrow> string \<Rightarrow> ustr option \<Rightarrow> int \<Rightarrow> keyword_result \<Rightarrow> pyexn + ustr" where
  "format_notification cfg uid nm bytes_total kr =
     bind_r (magnet_uri uid nm) (\<lambda>uri.
       let first = [lit ''pyDHT keyword match'',
                    lit ''Name: '' @ (case nm of Some (c # cs) \<Rightarrow> c # cs | _ \<Rightarrow> lit ''(unknown)''),
                    lit ''Size: '' @ map unat (int_text bytes_total),
                    lit ''Keywords: '' @ join_with (lit '', '') (found_keywords kr), uri];
           more = (if found_values kr = [] then []
                   else lit ''Matches:'' # map (\<lambda>v. lit ''- '' @ v) (upto_index (TELEGRAM_MAX_MATCH_LINES cfg) (found_values kr)))
       in Inr (upto_index (TELEGRAM_MESSAGE_MAX_CHARS cfg) (join_with [10] (first @ more))))"

section \<open>One request\<close>

record telegram =
  tg_ips :: "string list"
  tg_index :: nat

definition add_once :: "'a \<Rightarrow> 'a list \<Rightarrow> 'a list" where
  "add_once x xs = (if x \<in> set xs then xs else xs @ [x])"

text \<open>The addresses \<open>getaddrinfo\<close> returned; none on \<open>gaierror\<close>.\<close>

definition prepare :: "config \<Rightarrow> string list option \<Rightarrow> telegram" where
  "prepare cfg infos =
     \<lparr>tg_ips = (if TELEGRAM_ENABLED cfg then (case infos of None \<Rightarrow> [] | Some l \<Rightarrow> fold add_once l []) else []),
      tg_index = 0\<rparr>"

text \<open>What \<open>json.loads\<close> makes of the body: an object that confirms or not, malformed or undecodable
  text, another value, or a further exception.\<close>

datatype json_reply = Confirmed | Unconfirmed | Bad_json | No_object | Json_value_error | Json_raises

record send_env =
  se_connect :: "string \<Rightarrow> http_exn + bytes \<times> stream_end"
  se_arrived :: nat
  se_json :: "bytes \<Rightarrow> json_reply"
  se_exn_text :: "http_exn \<Rightarrow> ustr"

datatype send_outcome = Delivered | Undelivered ustr

text \<open>The third part of the status line's words decides nothing; \<open>None\<close> is an invalid response.\<close>

definition status_digits :: "bytes \<Rightarrow> bytes option" where
  "status_digits line =
     (let t = strip_by latin_space line; r = dropWhile (\<lambda>b. b \<noteq> 32) t;
          word = takeWhile (\<lambda>b. b \<noteq> 32) (drop 1 r)
      in if r = [] \<or> word = [] \<or> \<not> list_all (\<lambda>b. (48 \<le> unat b \<and> unat b \<le> 57) \<or> unat b \<in> {178, 179, 185}) word
         then None else Some word)"

definition header_field :: "bytes \<Rightarrow> bytes \<times> bytes" where
  "header_field line =
     (map latin_lower (strip_by latin_space (takeWhile (\<lambda>b. b \<noteq> 58) line)),
      strip_by latin_space (drop 1 (dropWhile (\<lambda>b. b \<noteq> 58) line)))"

function read_headers :: "(bytes \<times> bytes) list \<Rightarrow> bytes \<Rightarrow> stream_end \<Rightarrow> http_exn + (bytes \<times> bytes) list \<times> bytes" where
  "read_headers hs bs en =
     (case read_line bs en of
        Inl x \<Rightarrow> Inl x
      | Inr (line, rest) \<Rightarrow>
          if line \<in> {[13, 10], [10], []} then Inr (hs, rest)
          else read_headers (header_field line # hs) rest en)"
  by pat_completeness auto
termination
proof (relation "measure (\<lambda>(hs, bs, en). length bs)", goal_cases)
  case (2 hs bs en p line rest)
  then show ?case using read_line_shorter [of bs en line rest] by (cases line) auto
qed simp

declare read_headers.simps [simp del]

definition read_body :: "config \<Rightarrow> send_env \<Rightarrow> (bytes \<times> bytes) list \<Rightarrow> bytes \<Rightarrow> stream_end \<Rightarrow> http_exn + bytes" where
  "read_body cfg e hs bs en =
     (let limit = TELEGRAM_HTTP_MAX_RESPONSE_BYTES cfg in
      if map_option (map latin_lower) (map_of hs (ascii ''transfer-encoding'')) = Some (ascii ''chunked'')
      then read_chunked limit [] bs en
      else case map_of hs (ascii ''content-length'') of
             Some v \<Rightarrow>
               (case py_int 10 (strip_by latin_space v) of
                  None \<Rightarrow> Inl Value_Error
                | Some n \<Rightarrow> bind_r (read_exactly (min n limit) bs en) (\<lambda>(got, rest). Inr got))
           | None \<Rightarrow> read_some (se_arrived e) limit bs en)"

definition verdict :: "send_env \<Rightarrow> int \<Rightarrow> bytes \<Rightarrow> http_exn + send_outcome" where
  "verdict e status body =
     (if \<not> (200 \<le> status \<and> status < 300) then Inr (Undelivered (lit ''telegram HTTP status '' @ map unat (int_text status)))
      else
        (case se_json e body of
           Confirmed \<Rightarrow> Inr Delivered
         | Unconfirmed \<Rightarrow> Inr (Undelivered (lit ''telegram response did not confirm success''))
         | Bad_json \<Rightarrow> Inr (Undelivered (lit ''telegram response did not confirm success''))
         | No_object \<Rightarrow> Inl Attribute_Error
         | Json_value_error \<Rightarrow> Inl Value_Error
         | Json_raises \<Rightarrow> Inl Other_Error))"

text \<open>The reply, from the status line to the verdict.\<close>

definition read_reply :: "config \<Rightarrow> send_env \<Rightarrow> bytes \<Rightarrow> stream_end \<Rightarrow> http_exn + send_outcome" where
  "read_reply cfg e bs en =
     bind_r (read_line bs en) (\<lambda>(line, bs1).
       case status_digits line of
         None \<Rightarrow> Inr (Undelivered (lit ''invalid HTTP response''))
       | Some ds \<Rightarrow>
           (case py_int 10 ds of
              None \<Rightarrow> Inl Value_Error
            | Some status \<Rightarrow>
                bind_r (read_headers [] bs1 en) (\<lambda>(hs, bs2).
                bind_r (read_body cfg e hs bs2 en) (verdict e status))))"

definition http_caught :: "http_exn \<Rightarrow> bool" where
  "http_caught x \<longleftrightarrow> x \<in> {Os_Error, Timeout_Error, Value_Error}"

definition request_head :: "config \<Rightarrow> nat \<Rightarrow> string" where
  "request_head cfg n =
     (let crlf = [CHR 0x0D, CHR 0x0A] in
      ''POST /bot'' @ TELEGRAM_BOT_TOKEN cfg @ ''/sendMessage HTTP/1.1'' @ crlf
      @ ''Host: api.telegram.org'' @ crlf
      @ ''Content-Type: application/x-www-form-urlencoded'' @ crlf
      @ ''Content-Length: '' @ map (\<lambda>b. char_of (unat b)) (int_text (int n)) @ crlf
      @ ''Connection: close'' @ crlf @ crlf)"

definition request_body :: "config \<Rightarrow> ustr \<Rightarrow> pyexn + bytes" where
  "request_body cfg msg =
     bind_r (quote True (lit (TELEGRAM_CHAT_ID cfg))) (\<lambda>c.
     bind_r (quote True msg) (\<lambda>m. Inr (map of_nat (lit ''chat_id='' @ c @ lit ''&text='' @ m))))"

text \<open>\<open>send_once\<close>: the addresses afterwards, the request that was written, and the result. The body
  is built outside the \<open>try\<close> block, so its exception is not caught.\<close>

definition transport_failed :: "send_env \<Rightarrow> telegram \<Rightarrow> bytes option \<Rightarrow> http_exn \<Rightarrow>
    telegram \<times> bytes option \<times> (http_exn + send_outcome)" where
  "transport_failed e tg sent x =
     (if http_caught x
      then (tg\<lparr>tg_index := Suc (tg_index tg) mod length (tg_ips tg)\<rparr>, sent,
            Inr (Undelivered (lit ''telegram transport error: '' @ se_exn_text e x)))
      else (tg, sent, Inl x))"

definition send_once :: "config \<Rightarrow> send_env \<Rightarrow> telegram \<Rightarrow> ustr \<Rightarrow>
    telegram \<times> bytes option \<times> (http_exn + send_outcome)" where
  "send_once cfg e tg msg =
     (if \<not> TELEGRAM_ENABLED cfg then (tg, None, Inr (Undelivered (lit ''telegram disabled'')))
      else if TELEGRAM_BOT_TOKEN cfg = [] \<or> TELEGRAM_CHAT_ID cfg = []
      then (tg, None, Inr (Undelivered (lit ''telegram credentials missing'')))
      else if tg_ips tg = [] then (tg, None, Inr (Undelivered (lit ''telegram endpoint unresolved'')))
      else
        (case request_body cfg msg of
           Inl x \<Rightarrow> (tg, None, Inl Value_Error)
         | Inr body \<Rightarrow>
             (case se_connect e (tg_ips tg ! (tg_index tg mod length (tg_ips tg))) of
                Inl x \<Rightarrow> transport_failed e tg None x
              | Inr (bs, en) \<Rightarrow>
                  (let head = request_head cfg (length body) in
                   if \<not> list_all (\<lambda>c. of_char c < (128 :: nat)) head then transport_failed e tg None Value_Error
                   else
                     (case read_reply cfg e bs en of
                        Inl x \<Rightarrow> transport_failed e tg (Some (ascii head @ body)) x
                      | Inr r \<Rightarrow> (tg, Some (ascii head @ body), Inr r))))))"

section \<open>The scheduler\<close>

text \<open>\<open>_send_notification_row\<close> on one due row; the tables change only when the attempt returned.\<close>

definition send_notification_row :: "config \<Rightarrow> send_env \<Rightarrow> int \<Rightarrow> string \<times> notice_row \<times> torrent_row \<Rightarrow>
    telegram \<Rightarrow> database \<Rightarrow> telegram \<times> bytes option \<times> database \<times> (http_exn + send_outcome)" where
  "send_notification_row cfg e now row tg db =
     (case row of (uid, n, t) \<Rightarrow>
        (case format_notification cfg uid (tr_name t) (tr_total_size t)
                \<lparr>found_keywords = nt_keywords n, found_values = nt_matches n\<rparr> of
           Inl x \<Rightarrow> (tg, None, db, Inl Value_Error)
         | Inr msg \<Rightarrow>
             (case send_once cfg e tg msg of
                (tg', sent, Inl x) \<Rightarrow> (tg', sent, db, Inl x)
              | (tg', sent, Inr Delivered) \<Rightarrow>
                  (tg', sent, mark_notification_result cfg uid True now None None db, Inr Delivered)
              | (tg', sent, Inr (Undelivered t)) \<Rightarrow>
                  (let attempt = nt_attempts n + 1;
                       due = (if attempt < NOTIFICATION_RETRY_MAX_ATTEMPTS cfg
                              then Some (now + retry_delay attempt (NOTIFICATION_RETRY_BASE_SECONDS cfg)
                                                 (NOTIFICATION_RETRY_MAX_SECONDS cfg) * 1000000000)
                              else None)
                   in (tg', sent, mark_notification_result cfg uid False now due (Some t) db, Inr (Undelivered t))))))"

text \<open>One iteration of \<open>notification_scheduler\<close>: an exception leaves it (and ends its task), and
  the rows after a request to stop are left alone.\<close>

record scan_env =
  sc_send :: "nat \<Rightarrow> send_env"
  sc_now :: "nat \<Rightarrow> int"
  sc_stopping :: "nat \<Rightarrow> bool"
  sc_others :: "nat \<Rightarrow> database \<Rightarrow> database"

fun send_rows :: "config \<Rightarrow> scan_env \<Rightarrow> nat \<Rightarrow> (string \<times> notice_row \<times> torrent_row) list \<Rightarrow> telegram \<Rightarrow> database \<Rightarrow>
    telegram \<times> database \<times> (http_exn + unit)" where
  "send_rows cfg e i [] tg db = (tg, db, Inr ())"
| "send_rows cfg e i (row # rows) tg db =
     (if sc_stopping e i then (tg, db, Inr ())
      else
        (case send_notification_row cfg (sc_send e i) (sc_now e i) row tg (sc_others e i db) of
           (tg', sent, db', Inl x) \<Rightarrow> (tg', db', Inl x)
         | (tg', sent, db', Inr r) \<Rightarrow> send_rows cfg e (Suc i) rows tg' db'))"

definition notification_scan :: "config \<Rightarrow> scan_env \<Rightarrow> int \<Rightarrow> telegram \<Rightarrow> database \<Rightarrow> telegram \<times> database \<times> (http_exn + unit)" where
  "notification_scan cfg e now tg db =
     (if \<not> TELEGRAM_ENABLED cfg then (tg, db, Inr ())
      else send_rows cfg e 0 (due_notifications now (NOTIFICATION_SCAN_BATCH_SIZE cfg) db) tg db)"

section \<open>Reading what a chunked body was written as\<close>

text \<open>The reference: the chunked transfer coding of a list of chunks.\<close>

definition hex_digit_byte :: "nat \<Rightarrow> byte" where
  "hex_digit_byte n = (if n < 10 then of_nat (48 + n) else of_nat (87 + n))"

fun hex_size :: "nat \<Rightarrow> bytes" where
  "hex_size n = (if n < 16 then [hex_digit_byte n] else hex_size (n div 16) @ [hex_digit_byte (n mod 16)])"

declare hex_size.simps [simp del]

definition write_chunk :: "bytes \<Rightarrow> bytes" where
  "write_chunk c = hex_size (length c) @ [13, 10] @ c @ [13, 10]"

definition write_chunked :: "bytes list \<Rightarrow> bytes" where
  "write_chunked cs = concat (map write_chunk cs) @ hex_size 0 @ [13, 10, 13, 10]"

definition hex_digit_text :: "bytes \<Rightarrow> bool" where
  "hex_digit_text t \<longleftrightarrow> t \<noteq> [] \<and> (\<forall>d \<in> set t. \<exists>n < 16. d = hex_digit_byte n)"

lemma unat_hex_digit: "n < 16 \<Longrightarrow> unat (hex_digit_byte n) = (if n < 10 then 48 + n else 87 + n)"
  by (simp add: hex_digit_byte_def unat_byte_of_nat del: of_nat_add)

lemma digit_of_hex: "n < 16 \<Longrightarrow> digit_of 16 (hex_digit_byte n) = Some n"
  by (simp add: digit_of_def unat_hex_digit Let_def)

lemma hex_digit_byte_range: "n < 16 \<Longrightarrow> 48 \<le> unat (hex_digit_byte n) \<and> unat (hex_digit_byte n) \<le> 102
    \<and> unat (hex_digit_byte n) \<noteq> 95 \<and> unat (hex_digit_byte n) \<noteq> 88"
  by (simp add: unat_hex_digit)

lemma digits_tail_snoc:
  assumes "n < 16" and "\<forall>d \<in> set t. \<exists>m < 16. d = hex_digit_byte m"
  shows "digits_tail 16 (t @ [hex_digit_byte n]) acc = map_option (\<lambda>v. 16 * v + n) (digits_tail 16 t acc)"
  using assms(2)
proof (induction t arbitrary: acc rule: induct_list012)
  case 1
  then show ?case using assms(1) by (simp add: digit_of_hex)
next
  case (2 d)
  then obtain m where "m < 16" "d = hex_digit_byte m" by auto
  then show ?case using assms(1) by (simp add: digit_of_hex)
next
  case (3 d d' t)
  then obtain m where "m < 16" "d = hex_digit_byte m" by auto
  with 3 show ?case by (simp add: digit_of_hex)
qed

lemma hex_size_digits: "hex_digit_text (hex_size n)"
proof (induction n rule: hex_size.induct)
  case (1 n)
  moreover have "n mod 16 < 16" by simp
  ultimately show ?case by (subst hex_size.simps) (auto simp: hex_digit_text_def simp del: mod_less_divisor)
qed

lemma digits_value_hex_size: "digits_value 16 (hex_size n) = Some n"
proof (induction n rule: hex_size.induct)
  case (1 n)
  show ?case
  proof (cases "n < 16")
    case True
    then show ?thesis by (subst hex_size.simps) (simp add: digits_value_def digit_of_hex)
  next
    case False
    obtain d t where t: "hex_size (n div 16) = d # t" using hex_size_digits [of "n div 16"] by (cases "hex_size (n div 16)") (auto simp: hex_digit_text_def)
    with hex_size_digits [of "n div 16"] have ds: "\<forall>x \<in> set t. \<exists>m < 16. x = hex_digit_byte m" by (auto simp: hex_digit_text_def)
    from 1 [OF False] t have "digits_value 16 (d # t) = Some (n div 16)" by simp
    then have "digits_value 16 ((d # t) @ [hex_digit_byte (n mod 16)]) = Some (16 * (n div 16) + n mod 16)"
      by (simp add: digits_value_def digits_tail_snoc ds split: option.splits)
    with False t show ?thesis by (subst hex_size.simps) simp
  qed
qed

lemma length_hex_size: "n < 16 ^ k \<Longrightarrow> 0 < k \<Longrightarrow> length (hex_size n) \<le> k"
proof (induction k arbitrary: n)
  case (Suc k)
  show ?case
  proof (cases "n < 16")
    case False
    with Suc.prems have "n div 16 < 16 ^ k" "0 < k" by (auto simp: less_mult_imp_div_less intro: gr0I)
    with Suc.IH False show ?thesis by (subst hex_size.simps) simp
  qed (subst hex_size.simps, simp)
qed simp

lemma hex_digits_unat:
  assumes "hex_digit_text t" and "d \<in> set t"
  shows "(48 \<le> unat d \<and> unat d \<le> 57) \<or> (97 \<le> unat d \<and> unat d \<le> 102)"
proof -
  obtain n where "n < 16" "d = hex_digit_byte n" using assms by (auto simp: hex_digit_text_def)
  then show ?thesis by (simp add: unat_hex_digit)
qed

lemma takeWhile_app: "(\<forall>x \<in> set xs. P x) \<Longrightarrow> takeWhile P (xs @ ys) = xs @ takeWhile P ys"
  by (induction xs) auto

lemma hex_digits_strip:
  assumes "hex_digit_text t"
  shows "strip_by byte_space (t @ [13, 10]) = t"
proof -
  have sp: "\<not> byte_space d" if "d \<in> set t" for d
    using hex_digits_unat [OF assms that] by (auto simp: byte_space_def Let_def)
  obtain d u where t: "t = d # u" using assms by (cases t) (auto simp: hex_digit_text_def)
  obtain v l where r: "rev t = l # v" using t by (cases "rev t") auto
  then have "l \<in> set t" by (metis list.set_intros(1) set_rev)
  with sp have "dropWhile byte_space (rev t) = rev t" using r by simp
  moreover have "dropWhile byte_space (t @ [13, 10]) = t @ [13, 10]" using sp [of d] t by simp
  ultimately show ?thesis by (simp add: strip_by_def byte_space_def [of 10] byte_space_def [of 13])
qed

lemma hex_digits_py_int:
  assumes "hex_digit_text t"
  shows "py_int 16 t = map_option int (digits_value 16 t)"
proof -
  obtain d u where t: "t = d # u" using assms by (cases t) (auto simp: hex_digit_text_def)
  have ne: "x \<noteq> 45 \<and> x \<noteq> 43 \<and> x \<noteq> 120 \<and> x \<noteq> 88" if "x \<in> set t" for x
    using hex_digits_unat [OF assms that] by fastforce
  have "d \<noteq> 45" "d \<noteq> 43" using ne [of d] t by auto
  moreover have "take 2 t \<noteq> [48, 120]" "take 2 t \<noteq> [48, 88]"
    using ne [of "hd u"] t by (cases u; simp)+
  ultimately show ?thesis using t by (auto simp: py_int_def ascii_def Let_def)
qed

lemma chunk_size_line: "chunk_size (hex_size n @ [13, 10]) = Some (int n)"
proof -
  have "\<forall>d \<in> set (hex_size n). d \<noteq> 59"
    using hex_digits_unat [OF hex_size_digits] by fastforce
  then have "takeWhile (\<lambda>b. b \<noteq> 59) (hex_size n @ [13, 10]) = hex_size n @ [13, 10]" by (simp add: takeWhile_app)
  then show ?thesis
    by (simp add: chunk_size_def hex_digits_strip [OF hex_size_digits] hex_digits_py_int [OF hex_size_digits]
        digits_value_hex_size)
qed

lemma read_size_line:
  assumes "n < 2 ^ 64"
  shows "read_line (hex_size n @ [13, 10] @ rest) en = Inr (hex_size n @ [13, 10], rest)"
proof -
  have "\<forall>d \<in> set (hex_size n @ [13]). d \<noteq> 10"
    using hex_digits_unat [OF hex_size_digits] by fastforce
  then have "takeWhile (\<lambda>b. b \<noteq> 10) ((hex_size n @ [13]) @ [10] @ rest) = hex_size n @ [13]"
    "dropWhile (\<lambda>b. b \<noteq> 10) ((hex_size n @ [13]) @ [10] @ rest) = 10 # rest"
    by (simp_all add: takeWhile_app dropWhile_append3)
  moreover have "length (hex_size n) \<le> 16" using assms by (intro length_hex_size) simp_all
  ultimately show ?thesis by (simp add: read_line_def Let_def stream_limit_def)
qed

lemma read_exactly_app: "length c = n \<Longrightarrow> read_exactly (int n) (c @ rest) en = Inr (c, rest)"
  by (simp add: read_exactly_def)

lemma read_chunk:
  assumes "c \<noteq> []" and "length c < 2 ^ 64" and "int (length acc) + int (length c) \<le> limit"
  shows "read_chunked limit acc (write_chunk c @ rest) en = read_chunked limit (acc @ c) rest en"
  using assms read_exactly_app [of c "length c" "[13, 10] @ rest" en] read_exactly_app [of "[13, 10]" 2 rest en]
  by (subst read_chunked.simps)
    (simp add: write_chunk_def read_size_line [of "length c" "c @ [13, 10] @ rest" en, simplified] chunk_size_line)

lemma read_blank_line: "read_line [13, 10] en = Inr ([13, 10], [])"
  by (simp add: read_line_def stream_limit_def)

lemma read_last_chunk: "read_chunked limit acc (hex_size 0 @ [13, 10, 13, 10]) en = Inr acc"
  by (subst read_chunked.simps)
    (simp add: read_size_line [of 0 "[13, 10]" en, simplified] chunk_size_line read_blank_line)



section \<open>What an attempt does to its row\<close>

lemma request_sent:
  assumes "send_once cfg e tg msg = (tg', sent, r)"
  shows "(\<forall>x. r = Inl x \<longrightarrow> sent = None \<or> \<not> http_caught x)
    \<and> (r = Inr Delivered \<longrightarrow> (\<exists>ip \<in> set (tg_ips tg). \<exists>bs en. se_connect e ip = Inr (bs, en)
          \<and> read_reply cfg e bs en = Inr Delivered \<and> sent \<noteq> None))
    \<and> (\<forall>q. sent = Some q \<longrightarrow> TELEGRAM_ENABLED cfg
          \<and> (\<exists>body. request_body cfg msg = Inr body \<and> q = ascii (request_head cfg (length body)) @ body))"
proof (cases "TELEGRAM_ENABLED cfg \<and> TELEGRAM_BOT_TOKEN cfg \<noteq> [] \<and> TELEGRAM_CHAT_ID cfg \<noteq> [] \<and> tg_ips tg \<noteq> []")
  case False
  with assms show ?thesis by (auto simp: send_once_def split: if_splits)
next
  case True
  let ?ip = "tg_ips tg ! (tg_index tg mod length (tg_ips tg))"
  have ip: "?ip \<in> set (tg_ips tg)" using True by simp
  show ?thesis
  proof (cases "request_body cfg msg")
    case (Inl x)
    with True assms show ?thesis by (auto simp: send_once_def)
  next
    case (Inr body)
    show ?thesis
    proof (cases "se_connect e ?ip")
      case (Inl x)
      with True Inr assms show ?thesis by (auto simp: send_once_def transport_failed_def split: if_splits)
    next
      case c: (Inr p)
      obtain bs en where p: "p = (bs, en)" by fastforce
      show ?thesis
      proof (cases "read_reply cfg e bs en")
        case (Inl x)
        with True Inr c p assms show ?thesis
          by (auto simp: send_once_def transport_failed_def Let_def split: if_splits)
      next
        case o: (Inr o')
        have "sent = None \<and> r \<noteq> Inr Delivered \<and> (\<exists>t. r = Inr (Undelivered t))
            \<or> (sent = Some (ascii (request_head cfg (length body)) @ body) \<and> r = Inr o')"
          using True Inr c p assms o
          by (auto simp: send_once_def transport_failed_def http_caught_def Let_def split: if_splits)
        moreover have "\<exists>ip \<in> set (tg_ips tg). \<exists>bs en. se_connect e ip = Inr (bs, en) \<and> read_reply cfg e bs en = Inr o'"
          using c p o ip by blast
        ultimately show ?thesis using True Inr by auto
      qed
    qed
  qed
qed

lemma retry_delay_between: "0 \<le> lo \<Longrightarrow> lo \<le> hi \<Longrightarrow> lo \<le> retry_delay n lo hi \<and> retry_delay n lo hi \<le> hi"
  using mult_left_mono [of 1 "2 ^ nat (max 0 (min (n - 1) 30))" lo] by (auto simp: retry_delay_def Let_def)

lemma length_upto_index: "0 \<le> n \<Longrightarrow> int (length (upto_index n xs)) \<le> n"
  by (simp add: upto_index_def)

lemma notification_text_bounded:
  "format_notification cfg uid nm bytes_total kr = Inr msg \<Longrightarrow> 0 \<le> TELEGRAM_MESSAGE_MAX_CHARS cfg \<Longrightarrow>
     int (length msg) \<le> TELEGRAM_MESSAGE_MAX_CHARS cfg"
  by (auto simp: format_notification_def bind_r_Inr_iff Let_def length_upto_index)

text \<open>The row after an attempt.\<close>

definition attempted :: "config \<Rightarrow> int \<Rightarrow> send_outcome \<Rightarrow> notice_row \<Rightarrow> notice_row \<Rightarrow> bool" where
  "attempted cfg now r n n' \<longleftrightarrow>
     nt_attempts n' = nt_attempts n + 1 \<and> nt_last_attempt n' = Some now
     \<and> (case r of
          Delivered \<Rightarrow> nt_status n' = Sent \<and> nt_sent_at n' = Some now \<and> nt_next_attempt n' = None
        | Undelivered t \<Rightarrow>
            if nt_attempts n + 1 < NOTIFICATION_RETRY_MAX_ATTEMPTS cfg
            then nt_status n' = Pending
              \<and> (\<exists>d. nt_next_attempt n' = Some (now + d * 1000000000)
                    \<and> NOTIFICATION_RETRY_BASE_SECONDS cfg \<le> d \<and> d \<le> NOTIFICATION_RETRY_MAX_SECONDS cfg)
            else nt_status n' = Failed \<and> nt_next_attempt n' = None)"


text \<open>A concrete run: one stored torrent with a match, and a reply that confirms.\<close>

definition demo_uid :: string where
  "demo_uid = ''btih:0123456789abcdef0123456789abcdef01234567''"

definition demo_notice :: notice_row where
  "demo_notice = \<lparr>nt_keywords = [lit ''linux''], nt_matches = [lit ''linux.iso''], nt_status = Pending, nt_created = 1,
     nt_last_attempt = None, nt_next_attempt = Some 1, nt_sent_at = None, nt_attempts = 0, nt_last_error = None\<rparr>"

definition demo_torrent_row :: torrent_row where
  "demo_torrent_row = \<lparr>tr_name = Some (lit ''linux.iso''), tr_total_size = 5, tr_file_count = 1, tr_piece_length = None,
     tr_metadata_size = 30, tr_raw_info = None, tr_encoding = ''off'', tr_first_seen = 1, tr_last_seen = 1\<rparr>"

definition demo_tables :: database where
  "demo_tables = \<lparr>candidate_rows = [], torrent_rows = [(demo_uid, demo_torrent_row)],
     file_rows = [((demo_uid, 0), lit ''linux.iso'', 5)], notice_rows = [(demo_uid, demo_notice)]\<rparr>"

definition demo_bot :: config where
  "demo_bot = default_config\<lparr>TELEGRAM_ENABLED := True, TELEGRAM_BOT_TOKEN := ''1:a'', TELEGRAM_CHAT_ID := ''7''\<rparr>"

definition demo_send :: send_env where
  "demo_send = \<lparr>se_connect = (\<lambda>ip. Inr (ascii ''HTTP/1.1 200 OK'' @ [13, 10, 13, 10, 33], Closed)), se_arrived = 1,
     se_json = (\<lambda>body. if body = [33] then Confirmed else Bad_json), se_exn_text = (\<lambda>x. [])\<rparr>"

lemma demo_tables_ok: "db_ok demo_tables"
  by (simp add: db_ok_def demo_tables_def torrent_ok_def files_of_def torrent_uids_def notice_ok_def
      demo_torrent_row_def demo_notice_def int64_def)

lemma demo_status: "read_line (ascii ''HTTP/1.1 200 OK'' @ [13, 10, 13, 10, 33]) en = Inr (ascii ''HTTP/1.1 200 OK'' @ [13, 10], [13, 10, 33])"
  by (simp add: read_line_def ascii_def stream_limit_def)

lemma demo_digits: "status_digits (ascii ''HTTP/1.1 200 OK'' @ [13, 10]) = Some (ascii ''200'')"
  by (simp add: status_digits_def strip_by_def latin_space_def ascii_def)

lemma demo_number: "py_int 10 (ascii ''200'') = Some 200"
  by (simp add: py_int_def digits_value_def digit_of_def ascii_def)

lemma demo_reply: "read_reply demo_bot demo_send (ascii ''HTTP/1.1 200 OK'' @ [13, 10, 13, 10, 33]) Closed = Inr Delivered"
proof -
  have "read_line [13, 10, 33] Closed = Inr ([13, 10], [33])" by (simp add: read_line_def stream_limit_def)
  then have "read_headers [] [13, 10, 33] Closed = Inr ([], [33])" by (subst read_headers.simps) simp
  then show ?thesis
    by (simp only: read_reply_def demo_status bind_r.simps prod.case demo_digits demo_number option.case)
      (simp add: read_body_def read_some_def demo_bot_def demo_send_def default_config_def verdict_def)
qed

lemma utf8_encode_ascii: "list_all (\<lambda>c. c < 128) s \<Longrightarrow> utf8_encode s = Inr (map of_nat s)"
  by (induction s) (simp_all add: utf8_char_def)

definition demo_text :: ustr where
  "demo_text = join_with [10] [lit ''pyDHT keyword match'', lit ''Name: linux.iso'', lit ''Size: 5'', lit ''Keywords: linux'',
     lit ''magnet:?xt=urn:btih:0123456789abcdef0123456789abcdef01234567&dn=linux.iso'', lit ''Matches:'', lit ''- linux.iso'']"

lemma demo_format:
  "format_notification demo_bot demo_uid (tr_name demo_torrent_row) (tr_total_size demo_torrent_row)
     \<lparr>found_keywords = nt_keywords demo_notice, found_values = nt_matches demo_notice\<rparr> = Inr demo_text"
proof -
  have q: "quote False (lit ''linux.iso'') = Inr (lit ''linux.iso'')"
    using utf8_encode_ascii [of "lit ''linux.iso''"]
    by (simp add: quote_def lit_def quote_byte_def del: utf8_encode.simps)
  have m: "magnet_uri demo_uid (Some (lit ''linux.iso'')) =
      Inr (lit ''magnet:?xt=urn:btih:0123456789abcdef0123456789abcdef01234567&dn=linux.iso'')"
    using q by (simp add: magnet_uri_def demo_uid_def lit_def)
  show ?thesis
    by (simp add: format_notification_def demo_torrent_row_def m)
      (simp add: demo_notice_def demo_text_def demo_bot_def default_config_def upto_index_def int_text_def lit_def dec_digits_eval)
qed

lemma demo_request: "\<exists>body. request_body demo_bot demo_text = Inr body"
proof -
  have t: "list_all (\<lambda>c. c < 128) demo_text" by (simp add: demo_text_def lit_def)
  have i: "list_all (\<lambda>c. c < 128) (lit ''7'')" by (simp add: lit_def)
  show ?thesis
    by (simp add: request_body_def demo_bot_def quote_def utf8_encode_ascii [OF t] utf8_encode_ascii [OF i])
qed

lemma request_head_ascii:
  assumes "list_all (\<lambda>c. of_char c < (128 :: nat)) (TELEGRAM_BOT_TOKEN cfg)"
  shows "list_all (\<lambda>c. of_char c < (128 :: nat)) (request_head cfg n)"
proof -
  have "\<forall>b \<in> set (dec_digits n). unat b \<le> 57"
    using dec_digits_digits [of n] by (auto simp: list_all_iff is_digit_def word_le_nat_alt)
  then have "list_all (\<lambda>b. of_char (char_of (unat b)) < (128 :: nat)) (dec_digits n)"
    by (auto simp: list_all_iff)
  then show ?thesis using assms by (simp add: request_head_def int_text_def Let_def list.pred_map comp_def)
qed


end
