(* ===== verification/Sampling.thy ===== *)
theory Sampling
  imports Lookup
begin

text \<open>
  \<open>DHTNode.bep51_once\<close>, the active sampling of infohashes, with its memory of the nodes
  (\<open>_remember_bep51\<close>, \<open>_prune_bep51_state\<close>). One scheduler task calls it, so nobody else writes
  the memory. As in the lookup, what \<open>query\<close> returned and what the other tasks did meanwhile
  are arguments. The theorem: a pass ends, raises nothing, asks no node twice and none before
  its time, stays within its bounds, and stops early only when nobody is left.
\<close>

section \<open>The memory\<close>

text \<open>When an endpoint may be asked again, and when it was asked, least recently touched first.\<close>

type_synonym memory = "(endpoint \<times> int \<times> int) list"

definition remember_bep51 :: "config \<Rightarrow> endpoint \<Rightarrow> int \<Rightarrow> int \<Rightarrow> memory \<Rightarrow> memory" where
  "remember_bep51 cfg ep due seen m =
     (let m' = move_to_end ep (AList.update ep (due, seen) m)
      in drop (length m' - nat (BEP51_NODE_STATE_MAX cfg)) m')"

definition prune_bep51_state :: "config \<Rightarrow> int \<Rightarrow> memory \<Rightarrow> memory" where
  "prune_bep51_state cfg now m =
     (let cutoff = now - nanos (BEP51_NODE_STATE_TTL cfg) in filter (\<lambda>(ep, due, seen). \<not> seen < cutoff) m)"

section \<open>One pass\<close>

text \<open>What \<open>query\<close> did: a response, a remote error with its code, or another exception that the
  loop catches.\<close>

datatype answer = Reply pdict | Remote_code int | No_reply

record sample_env =
  sm_closest :: "nat \<Rightarrow> int"
  sm_answer :: "nat \<Rightarrow> contact \<Rightarrow> answer"
  sm_others :: "nat \<Rightarrow> node \<Rightarrow> node"
  sm_refresh :: "nat \<Rightarrow> contact \<Rightarrow> contact"
  sm_clock :: "nat \<Rightarrow> nat \<Rightarrow> nat \<Rightarrow> int"

text \<open>The state of the loop. \<open>asked\<close> records the queries: the node, its endpoint, and what the
  memory held for it.\<close>

record sampling =
  candidates_left :: "(bytes \<times> contact) list"
  visited :: "bytes list"
  processed :: nat
  node_memory :: memory
  asked :: "(bytes \<times> endpoint \<times> (int \<times> int) option) list"

definition next_contact :: "bytes \<Rightarrow> sampling \<Rightarrow> pyexn + contact option" where
  "next_contact target st =
     (let cs = map snd (candidates_left st) in
      if list_ex (\<lambda>c. length (node_id c) \<noteq> 20 \<or> length target \<noteq> 20) cs
      then Inl (ValueError ''node IDs must be 20 bytes'')
      else Inr (List.find (\<lambda>c. node_id c \<notin> set (visited st)) (sort_key (distance_key target) cs)))"

definition truncated :: "rat \<Rightarrow> int" where
  "truncated q = (if 0 \<le> q then \<lfloor>q\<rfloor> else \<lceil>q\<rceil>)"

text \<open>The default of the interval is truncated whenever it is used, so it need not be an integer.\<close>

definition sample_interval :: "config \<Rightarrow> pdict \<Rightarrow> int" where
  "sample_interval cfg r =
     (case dget r ''interval'' of
        Some (PInt i) \<Rightarrow> if 0 \<le> i \<and> i \<le> 21600 then i else truncated (DHT_BEP51_GLOBAL_INTERVAL cfg)
      | _ \<Rightarrow> truncated (DHT_BEP51_GLOBAL_INTERVAL cfg))"

definition due_after :: "config \<Rightarrow> int \<Rightarrow> pdict \<Rightarrow> int" where
  "due_after cfg now r = now + nanos (max (of_int (sample_interval cfg r)) (DHT_BEP51_GLOBAL_INTERVAL cfg))"

text \<open>The contacts are shared objects: an await may change their fields, not their identifiers.\<close>

definition await_sample :: "sample_env \<Rightarrow> nat \<Rightarrow> sampling \<Rightarrow> sampling" where
  "await_sample e n st =
     st\<lparr>candidates_left := map (\<lambda>(i, c). (i, (sm_refresh e n c)\<lparr>node_id := node_id c\<rparr>)) (candidates_left st)\<rparr>"

definition absorb_sample :: "config \<Rightarrow> sample_env \<Rightarrow> nat \<Rightarrow> pdict \<Rightarrow> sampling \<Rightarrow> sampling run" where
  "absorb_sample cfg e n r st =
     (case dget r ''nodes'' of
        Some (PBytes raw) \<Rightarrow>
          bind_run (absorb_nodes cfg (sm_clock e n) 0 (case parse_compact_nodes raw 4 of Inl x \<Rightarrow> [] | Inr ns \<Rightarrow> ns)
                     (candidates_left st))
            (\<lambda>sl. return_run (st\<lparr>candidates_left := sl\<rparr>))
      | _ \<Rightarrow> return_run st)"

text \<open>The query to one contact and what its outcome changes.\<close>

definition ask_contact :: "config \<Rightarrow> sample_env \<Rightarrow> int \<Rightarrow> nat \<Rightarrow> contact \<Rightarrow> sampling \<Rightarrow> sampling run" where
  "ask_contact cfg e now n c st =
     (\<lambda>s. let s1 = sm_others e n s;
              ep = ct_endpoint (sm_refresh e n c);
              st1 = await_sample e n
                (st\<lparr>asked := asked st @ [(node_id c, ct_endpoint c, map_of (node_memory st) (ct_endpoint c))]\<rparr>)
          in case sm_answer e n c of
               Remote_code code \<Rightarrow>
                 (s1, Inr (if code = 204
                           then st1\<lparr>node_memory := remember_bep51 cfg ep (now + nanos (DHT_BEP51_UNSUPPORTED_BACKOFF cfg)) now
                                                     (node_memory st)\<rparr>
                           else st1))
             | No_reply \<Rightarrow> (s1, Inr st1)
             | Reply r \<Rightarrow>
                 absorb_sample cfg e n r
                   (st1\<lparr>node_memory := remember_bep51 cfg ep (due_after cfg now r) now (node_memory st),
                         processed := processed st + 1\<rparr>) s1)"

text \<open>One iteration; \<open>None\<close> is the \<open>break\<close>.\<close>

definition sample_round :: "config \<Rightarrow> sample_env \<Rightarrow> bytes \<Rightarrow> int \<Rightarrow> nat \<Rightarrow> sampling \<Rightarrow> sampling option run" where
  "sample_round cfg e target now n st =
     (\<lambda>s. case next_contact target st of
            Inl x \<Rightarrow> (s, Inl (Py x))
          | Inr None \<Rightarrow> (s, Inr None)
          | Inr (Some c) \<Rightarrow>
              (let st1 = st\<lparr>visited := visited st @ [node_id c]\<rparr>;
                   waits = (case map_of (node_memory st) (ct_endpoint c) of
                              Some (due, seen) \<Rightarrow> now < due | None \<Rightarrow> False)
               in if waits then (s, Inr (Some st1))
                  else bind_run (ask_contact cfg e now n c st1) (\<lambda>st2. return_run (Some st2)) s))"

lemma next_contact_Some:
  assumes "next_contact target st = Inr (Some c)"
  shows "c \<in> snd ` set (candidates_left st)" and "node_id c \<notin> set (visited st)"
proof -
  let ?cs = "sort_key (distance_key target) (map snd (candidates_left st))"
  have "List.find (\<lambda>c. node_id c \<notin> set (visited st)) ?cs = Some c"
    using assms by (simp add: next_contact_def Let_def split: if_splits)
  from find_Some_iff [OF this] show "c \<in> snd ` set (candidates_left st)" "node_id c \<notin> set (visited st)" by simp_all
qed

text \<open>The nodes that were not visited; every iteration takes one of them or gets a response.\<close>

definition unvisited :: "sampling \<Rightarrow> bytes set" where
  "unvisited st = node_id ` snd ` set (candidates_left st) - set (visited st)"

lemma unvisited_await:
  "unvisited (await_sample e n st) = unvisited st"
  by (force simp: unvisited_def await_sample_def image_image case_prod_beta)

lemma visit_decreases:
  assumes "next_contact target st = Inr (Some c)"
  shows "card (unvisited (st\<lparr>visited := visited st @ [node_id c]\<rparr>)) < card (unvisited st)"
proof (rule psubset_card_mono)
  show "finite (unvisited st)" by (simp add: unvisited_def)
  show "unvisited (st\<lparr>visited := visited st @ [node_id c]\<rparr>) \<subset> unvisited st"
    using next_contact_Some [OF assms] by (auto simp: unvisited_def)
qed

lemma absorb_sample_fields:
  "absorb_sample cfg e n r st s = (s', Inr st') \<Longrightarrow>
     st' = st\<lparr>candidates_left := candidates_left st'\<rparr>"
  by (auto simp: absorb_sample_def bind_run_def return_run_def split: option.splits pyval.splits prod.splits sum.splits)

lemma unvisited_simps [simp]:
  "unvisited (st\<lparr>asked := a\<rparr>) = unvisited st" "unvisited (st\<lparr>node_memory := m\<rparr>) = unvisited st"
  "unvisited (st\<lparr>processed := p\<rparr>) = unvisited st"
  by (simp_all add: unvisited_def)

lemma await_simps [simp]:
  "processed (await_sample e n st) = processed st" "visited (await_sample e n st) = visited st"
  "asked (await_sample e n st) = asked st" "node_memory (await_sample e n st) = node_memory st"
  by (simp_all add: await_sample_def)

lemma ask_progress:
  assumes "ask_contact cfg e now n c st s = (s', Inr st')"
  shows "processed st' = processed st + 1 \<or> (processed st' = processed st \<and> unvisited st' = unvisited st)"
proof (cases "sm_answer e n c")
  case (Reply r)
  let ?st1 = "await_sample e n
    (st\<lparr>asked := asked st @ [(node_id c, ct_endpoint c, map_of (node_memory st) (ct_endpoint c))]\<rparr>)
    \<lparr>node_memory := remember_bep51 cfg (ct_endpoint (sm_refresh e n c)) (due_after cfg now r) now (node_memory st),
     processed := processed st + 1\<rparr>"
  have "absorb_sample cfg e n r ?st1 (sm_others e n s) = (s', Inr st')"
    using assms Reply by (simp add: ask_contact_def Let_def)
  from arg_cong [OF absorb_sample_fields [OF this], of processed] show ?thesis by simp
qed (use assms in \<open>auto simp: ask_contact_def Let_def unvisited_await split: if_splits\<close>)

lemma sampling_progress:
  assumes "sample_round cfg e target now n st s = (s', Inr (Some st'))"
  shows "processed st < processed st'
    \<or> (processed st' = processed st \<and> card (unvisited st') < card (unvisited st))"
proof -
  from assms obtain c where c: "next_contact target st = Inr (Some c)"
    by (auto simp: sample_round_def split: sum.splits option.splits)
  let ?st = "st\<lparr>visited := visited st @ [node_id c]\<rparr>"
  from assms c consider "st' = ?st" | "ask_contact cfg e now n c ?st s = (s', Inr st')"
    by (auto simp: sample_round_def Let_def bind_run_def return_run_def split: if_splits prod.splits sum.splits)
  then show ?thesis
  proof cases
    case 1
    with visit_decreases [OF c] show ?thesis by simp
  next
    case 2
    from ask_progress [OF this] visit_decreases [OF c] show ?thesis by auto
  qed
qed

text \<open>The loop; the state of the pass is returned with an exception too, since the memory stays.\<close>

function sample_loop :: "config \<Rightarrow> sample_env \<Rightarrow> bytes \<Rightarrow> int \<Rightarrow> nat \<Rightarrow> nat \<Rightarrow> sampling \<Rightarrow> node \<Rightarrow>
    node \<times> sampling \<times> (krpc_exn + unit)" where
  "sample_loop cfg e target now limit n st s =
     (if processed st < limit
      then (case sample_round cfg e target now n st s of
              (s', Inl x) \<Rightarrow> (s', st, Inl x)
            | (s', Inr None) \<Rightarrow> (s', st, Inr ())
            | (s', Inr (Some st')) \<Rightarrow> sample_loop cfg e target now limit (Suc n) st' s')
      else (s, st, Inr ()))"
  by pat_completeness auto
termination
  by (relation "measures [\<lambda>(cfg, e, target, now, limit, n, st, s). limit - processed st,
                         \<lambda>(cfg, e, target, now, limit, n, st, s). card (unvisited st)]")
    (auto dest: sampling_progress [OF sym])

declare sample_loop.simps [simp del]

text \<open>\<open>bep51_once\<close> on a memory; the queue is the candidate manager's. \<open>None\<close> when the pass does
  nothing.\<close>

definition utilization :: "config \<Rightarrow> node \<Rightarrow> rat" where
  "utilization cfg s =
     of_nat (length (queue (candidates s))) / of_int (max 1 (HASH_QUEUE_SIZE cfg))"

definition max_samples :: "config \<Rightarrow> node \<Rightarrow> nat" where
  "max_samples cfg s = (if utilization cfg s \<le> BEP51_QUEUE_LOW_WATERMARK cfg then DHT_K else 1)"

definition start_sampling :: "contact list \<Rightarrow> memory \<Rightarrow> sampling" where
  "start_sampling cs m =
     \<lparr>candidates_left = fold (\<lambda>c. AList.update (node_id c) c) cs [], visited = [], processed = 0, node_memory = m, asked = []\<rparr>"

definition bep51_once :: "config \<Rightarrow> sample_env \<Rightarrow> bytes \<Rightarrow> int \<Rightarrow> memory \<Rightarrow> node \<Rightarrow>
    node \<times> sampling \<times> (krpc_exn + unit)" where
  "bep51_once cfg e target now m s =
     (if \<not> DHT_BEP51_ENABLED cfg \<or> BEP51_QUEUE_HIGH_WATERMARK cfg \<le> utilization cfg s
      then (s, start_sampling [] m, Inr ())
      else
        (let m' = prune_bep51_state cfg now m in
         case closest cfg (sm_closest e) (routing s) target DHT_K True of
           Inl x \<Rightarrow> (s, start_sampling [] m', Inl (Py x))
         | Inr cs \<Rightarrow> sample_loop cfg e target now (max_samples cfg s) 0 (start_sampling cs m') s))"

section \<open>A pass ends and is polite\<close>

definition memory_ok :: "config \<Rightarrow> memory \<Rightarrow> bool" where
  "memory_ok cfg m \<longleftrightarrow> distinct (map fst m) \<and> int (length m) \<le> BEP51_NODE_STATE_MAX cfg"

lemma remember_entries:
  "x \<in> set (remember_bep51 cfg ep due seen m) \<Longrightarrow> x = (ep, due, seen) \<or> x \<in> set m"
  by (auto simp: remember_bep51_def move_to_end_def Let_def update_conv' AList.delete_eq split: option.splits
      dest!: in_set_dropD set_update_alist)

lemma remember_ok:
  assumes "distinct (map fst m)" and "0 \<le> BEP51_NODE_STATE_MAX cfg"
  shows "memory_ok cfg (remember_bep51 cfg ep due seen m)"
proof -
  let ?m = "move_to_end ep (AList.update ep (due, seen) m)"
  have "distinct (map fst ?m)" by (rule od.touch_distinct [OF assms(1)])
  then have "distinct (map fst (drop n ?m))" for n by (metis distinct_drop drop_map)
  then show ?thesis using assms(2) by (simp add: memory_ok_def remember_bep51_def Let_def)
qed

text \<open>The endpoint just asked is in the memory with its time.\<close>

lemma remember_holds:
  assumes "distinct (map fst m)" and "1 \<le> BEP51_NODE_STATE_MAX cfg"
  shows "map_of (remember_bep51 cfg ep due seen m) ep = Some (due, seen)"
proof -
  let ?m = "AList.update ep (due, seen) m"
  let ?d = "AList.delete ep ?m"
  have touched: "move_to_end ep ?m = ?d @ [(ep, due, seen)]"
    by (simp add: move_to_end_def update_conv')
  have "length ?d + 1 - nat (BEP51_NODE_STATE_MAX cfg) \<le> length ?d" using assms(2) by simp
  then obtain k where k: "remember_bep51 cfg ep due seen m = drop k ?d @ [(ep, due, seen)]"
    unfolding remember_bep51_def Let_def touched by (auto simp: drop_append)
  have "ep \<notin> fst ` set (drop k ?d)" using set_drop_subset [of k ?d] by (auto simp: AList.delete_eq)
  then have "map_of (drop k ?d) ep = None" by (simp add: map_of_eq_None_iff)
  then show ?thesis by (simp add: k map_add_def)
qed

definition never_early :: "int \<Rightarrow> (bytes \<times> endpoint \<times> (int \<times> int) option) list \<Rightarrow> bool" where
  "never_early now qs \<longleftrightarrow> (\<forall>(i, ep, entry) \<in> set qs. \<forall>due seen. entry = Some (due, seen) \<longrightarrow> due \<le> now)"

definition fresh_entries :: "config \<Rightarrow> int \<Rightarrow> memory \<Rightarrow> memory \<Rightarrow> bool" where
  "fresh_entries cfg now m m' \<longleftrightarrow>
     (\<forall>(ep, due, seen) \<in> set m'. (ep, due, seen) \<in> set m
        \<or> (seen = now \<and> now + min (nanos (DHT_BEP51_GLOBAL_INTERVAL cfg)) (nanos (DHT_BEP51_UNSUPPORTED_BACKOFF cfg)) \<le> due))"

definition sampling_ok :: "config \<Rightarrow> int \<Rightarrow> memory \<Rightarrow> sampling \<Rightarrow> bool" where
  "sampling_ok cfg now m st \<longleftrightarrow>
     shortlist_ok (candidates_left st) \<and> distinct (map fst (asked st)) \<and> fst ` set (asked st) \<subseteq> set (visited st)
     \<and> never_early now (asked st) \<and> memory_ok cfg (node_memory st) \<and> fresh_entries cfg now m (node_memory st)"

definition sampling_config :: "config \<Rightarrow> bool" where
  "sampling_config cfg \<longleftrightarrow> 1 \<le> BEP51_NODE_STATE_MAX cfg \<and> 0 \<le> DHT_BEP51_GLOBAL_INTERVAL cfg
     \<and> 0 \<le> DHT_BEP51_UNSUPPORTED_BACKOFF cfg"

definition undisturbed_pass :: "config \<Rightarrow> atext set \<Rightarrow> sample_env \<Rightarrow> bool" where
  "undisturbed_pass cfg loc e \<longleftrightarrow> (\<forall>n s. running cfg loc s \<longrightarrow> running cfg loc (sm_others e n s))"

lemma due_after_bound: "0 \<le> DHT_BEP51_GLOBAL_INTERVAL cfg \<Longrightarrow> now + nanos (DHT_BEP51_GLOBAL_INTERVAL cfg) \<le> due_after cfg now r"
  by (simp add: due_after_def nanos_mono)

lemma sampling_ok_remember:
  assumes "sampling_ok cfg now m st" and "sampling_config cfg"
    and "now + min (nanos (DHT_BEP51_GLOBAL_INTERVAL cfg)) (nanos (DHT_BEP51_UNSUPPORTED_BACKOFF cfg)) \<le> due"
  shows "memory_ok cfg (remember_bep51 cfg ep due now (node_memory st))"
    and "fresh_entries cfg now m (remember_bep51 cfg ep due now (node_memory st))"
proof -
  show "memory_ok cfg (remember_bep51 cfg ep due now (node_memory st))"
    using assms(1,2) by (intro remember_ok) (auto simp: sampling_ok_def memory_ok_def sampling_config_def)
  show "fresh_entries cfg now m (remember_bep51 cfg ep due now (node_memory st))"
    unfolding fresh_entries_def
  proof
    fix x assume "x \<in> set (remember_bep51 cfg ep due now (node_memory st))"
    from remember_entries [OF this] assms(1,3) show "case x of (ep, due, seen) \<Rightarrow> (ep, due, seen) \<in> set m
        \<or> (seen = now \<and> now + min (nanos (DHT_BEP51_GLOBAL_INTERVAL cfg)) (nanos (DHT_BEP51_UNSUPPORTED_BACKOFF cfg)) \<le> due)"
      by (auto simp: sampling_ok_def fresh_entries_def)
  qed
qed

lemma await_sampling_ok: "sampling_ok cfg now m st \<Longrightarrow> sampling_ok cfg now m (await_sample e n st)"
  by (auto simp: sampling_ok_def await_sample_def shortlist_ok_def comp_def case_prod_beta)

lemma absorb_sample_delivers:
  assumes "sampling_ok cfg now m st"
  shows "delivers (running cfg loc) (absorb_sample cfg e n r st) (sampling_ok cfg now m)"
proof -
  have sl: "shortlist_ok (candidates_left st)" using assms by (simp add: sampling_ok_def)
  have "delivers (running cfg loc)
      (bind_run (absorb_nodes cfg (sm_clock e n) 0 ns (candidates_left st)) (\<lambda>sl. return_run (st\<lparr>candidates_left := sl\<rparr>)))
      (sampling_ok cfg now m)" for ns
    using assms by (intro delivers_bind [OF absorb_nodes_delivers [OF sl]] delivers_return) (simp add: sampling_ok_def)
  then show ?thesis using assms
    by (simp add: absorb_sample_def delivers_return split: option.split pyval.split)
qed

lemma ask_delivers:
  assumes ok: "sampling_ok cfg now m st" and cfg: "sampling_config cfg" and st: "undisturbed_pass cfg loc e"
    and new: "node_id c \<in> set (visited st)" "node_id c \<notin> fst ` set (asked st)"
    and due: "\<forall>due seen. map_of (node_memory st) (ct_endpoint c) = Some (due, seen) \<longrightarrow> due \<le> now"
  shows "delivers (running cfg loc) (ask_contact cfg e now n c st) (sampling_ok cfg now m)"
  unfolding delivers_def
proof (intro allI impI)
  fix s assume "running cfg loc s"
  then have r: "running cfg loc (sm_others e n s)" using st by (simp add: undisturbed_pass_def)
  let ?ep = "ct_endpoint (sm_refresh e n c)"
  define st1 where "st1 = await_sample e n
      (st\<lparr>asked := asked st @ [(node_id c, ct_endpoint c, map_of (node_memory st) (ct_endpoint c))]\<rparr>)"
  have "sampling_ok cfg now m (st\<lparr>asked := asked st @ [(node_id c, ct_endpoint c, map_of (node_memory st) (ct_endpoint c))]\<rparr>)"
    using ok new due by (auto simp: sampling_ok_def never_early_def)
  then have st1: "sampling_ok cfg now m st1" unfolding st1_def by (rule await_sampling_ok)
  have mem: "sampling_ok cfg now m (st1\<lparr>node_memory := remember_bep51 cfg ?ep d now (node_memory st)\<rparr>)"
    if "now + min (nanos (DHT_BEP51_GLOBAL_INTERVAL cfg)) (nanos (DHT_BEP51_UNSUPPORTED_BACKOFF cfg)) \<le> d" for d
    using st1 sampling_ok_remember [OF ok cfg that] by (simp add: sampling_ok_def)
  show "\<exists>s' x. ask_contact cfg e now n c st s = (s', Inr x) \<and> running cfg loc s' \<and> sampling_ok cfg now m x"
  proof (cases "sm_answer e n c")
    case (Reply reply)
    have "sampling_ok cfg now m (st1\<lparr>node_memory := remember_bep51 cfg ?ep (due_after cfg now reply) now (node_memory st),
        processed := processed st + 1\<rparr>)"
      using mem [of "due_after cfg now reply"] due_after_bound [of cfg now reply] cfg
      by (simp add: sampling_ok_def sampling_config_def)
    from deliversD [OF absorb_sample_delivers [OF this] r] Reply show ?thesis
      by (simp add: ask_contact_def st1_def Let_def)
  next
    case (Remote_code code)
    then show ?thesis using r st1 mem [of "now + nanos (DHT_BEP51_UNSUPPORTED_BACKOFF cfg)"]
      by (simp add: ask_contact_def st1_def Let_def)
  next
    case No_reply
    then show ?thesis using r st1 by (simp add: ask_contact_def st1_def Let_def)
  qed
qed

lemma next_contact_total:
  assumes "sampling_ok cfg now m st" and "length target = 20"
  obtains "next_contact target st = Inr None" "unvisited st = {}"
  | c where "next_contact target st = Inr (Some c)"
proof -
  let ?cs = "sort_key (distance_key target) (map snd (candidates_left st))"
  have "\<forall>c \<in> snd ` set (candidates_left st). length (node_id c) = 20"
    using assms(1) by (auto simp: sampling_ok_def shortlist_ok_def)
  with assms(2) have eq: "next_contact target st = Inr (List.find (\<lambda>c. node_id c \<notin> set (visited st)) ?cs)"
    by (auto simp: next_contact_def list_ex_iff)
  show thesis
  proof (cases "List.find (\<lambda>c. node_id c \<notin> set (visited st)) ?cs")
    case None
    then have "unvisited st = {}" by (auto simp: find_None_all list_all_iff unvisited_def)
    with None eq that(1) show ?thesis by simp
  next
    case (Some c)
    with eq that(2) show ?thesis by simp
  qed
qed

lemma sample_round_delivers:
  assumes ok: "sampling_ok cfg now m st" and t: "length target = 20" and cfg: "sampling_config cfg"
    and st: "undisturbed_pass cfg loc e"
  shows "delivers (running cfg loc) (sample_round cfg e target now n st)
    (\<lambda>r. case r of None \<Rightarrow> unvisited st = {} | Some st' \<Rightarrow> sampling_ok cfg now m st' \<and> processed st' \<le> processed st + 1)"
  using ok t
proof (rule next_contact_total)
  assume "next_contact target st = Inr None" "unvisited st = {}"
  then show ?thesis by (auto simp: delivers_def sample_round_def)
next
  fix c assume c: "next_contact target st = Inr (Some c)"
  let ?st = "st\<lparr>visited := visited st @ [node_id c]\<rparr>"
  have st': "sampling_ok cfg now m ?st" using ok by (auto simp: sampling_ok_def)
  have fresh: "node_id c \<notin> fst ` set (asked ?st)"
    using ok next_contact_Some(2) [OF c] by (auto simp: sampling_ok_def)
  show ?thesis
  proof (cases "case map_of (node_memory st) (ct_endpoint c) of Some (due, seen) \<Rightarrow> now < due | None \<Rightarrow> False")
    case True
    with c st' show ?thesis by (auto simp: delivers_def sample_round_def Let_def)
  next
    case False
    then have due: "\<forall>due seen. map_of (node_memory ?st) (ct_endpoint c) = Some (due, seen) \<longrightarrow> due \<le> now"
      by (auto split: option.splits)
    have run: "sample_round cfg e target now n st s
        = bind_run (ask_contact cfg e now n c ?st) (\<lambda>st2. return_run (Some st2)) s" for s
      using c False by (simp add: sample_round_def Let_def)
    have ask: "delivers (running cfg loc) (ask_contact cfg e now n c ?st) (sampling_ok cfg now m)"
      by (rule ask_delivers [OF st' cfg st _ fresh due]) simp
    show ?thesis unfolding delivers_def
    proof (intro allI impI)
      fix s assume r: "running cfg loc s"
      from deliversD [OF ask r] obtain s' st2 where
        a: "ask_contact cfg e now n c ?st s = (s', Inr st2)" "running cfg loc s'" "sampling_ok cfg now m st2" by blast
      have "processed st2 \<le> processed st + 1" using ask_progress [OF a(1)] by auto
      with a show "\<exists>s' x. sample_round cfg e target now n st s = (s', Inr x) \<and> running cfg loc s'
          \<and> (case x of None \<Rightarrow> unvisited st = {} | Some st' \<Rightarrow> sampling_ok cfg now m st' \<and> processed st' \<le> processed st + 1)"
        by (simp add: run bind_run_def return_run_def)
    qed
  qed
qed

lemma sample_loop_delivers:
  assumes "length target = 20" and "sampling_config cfg" and "undisturbed_pass cfg loc e"
  shows "sampling_ok cfg now m st \<Longrightarrow> running cfg loc s \<Longrightarrow> processed st \<le> limit \<Longrightarrow>
    \<exists>s' st'. sample_loop cfg e target now limit n st s = (s', st', Inr ()) \<and> running cfg loc s'
      \<and> sampling_ok cfg now m st' \<and> processed st' \<le> limit \<and> (processed st' < limit \<longrightarrow> unvisited st' = {})"
  using assms
proof (induction cfg e target now limit n st s rule: sample_loop.induct)
  case (1 cfg e target now limit n st s)
  show ?case
  proof (cases "processed st < limit")
    case False
    then show ?thesis using "1.prems" by (subst sample_loop.simps) auto
  next
    case True
    from deliversD [OF sample_round_delivers [OF "1.prems"(1,4,5,6), of n] "1.prems"(2)] obtain s1 r where
      r: "sample_round cfg e target now n st s = (s1, Inr r)" "running cfg loc s1"
      "case r of None \<Rightarrow> unvisited st = {} | Some st' \<Rightarrow> sampling_ok cfg now m st' \<and> processed st' \<le> processed st + 1"
      by blast
    show ?thesis
    proof (cases r)
      case None
      with r True "1.prems" show ?thesis by (subst sample_loop.simps) auto
    next
      case (Some st1)
      have "sample_loop cfg e target now limit n st s = sample_loop cfg e target now limit (Suc n) st1 s1"
        using True r Some by (subst sample_loop.simps) simp
      moreover note "1.IH" [OF True r(1) [symmetric] refl Some _ r(2) _ "1.prems"(4-6)]
      ultimately show ?thesis using r(3) Some True by simp
    qed
  qed
qed

lemma start_sampling_ok:
  assumes "\<forall>c \<in> set cs. length (node_id c) = 20" and "memory_ok cfg m'" and "set m' \<subseteq> set m"
  shows "sampling_ok cfg now m (start_sampling cs m')"
  using start_lookup_ok [OF assms(1), of cfg "{}"] assms(2,3)
  by (auto simp: sampling_ok_def start_sampling_def lookup_ok_def start_lookup_def never_early_def fresh_entries_def)

lemma prune_memory_ok: "memory_ok cfg m \<Longrightarrow> memory_ok cfg (prune_bep51_state cfg now m)"
  using order_trans [OF zle_int [THEN iffD2, OF length_filter_le]]
  by (auto simp: memory_ok_def prune_bep51_state_def Let_def distinct_map_filter)


text \<open>A node with one contact, which answers with an interval of an hour.\<close>

definition hourly_env :: sample_env where
  "hourly_env = \<lparr>sm_closest = (\<lambda>k. 0), sm_answer = (\<lambda>n c. Reply [(KBytes (ascii ''interval''), PInt 3600)]),
     sm_others = (\<lambda>n s. s), sm_refresh = (\<lambda>n c. c), sm_clock = (\<lambda>n j k. 0)\<rparr>"


text \<open>The memory forgets by the time of the last query, not by the due time: a node that asked for
  a longer interval than \<open>BEP51_NODE_STATE_TTL\<close> is asked again before it.\<close>

lemma long_interval_forgotten:
  assumes "nanos (BEP51_NODE_STATE_TTL cfg) + 1 < d"
  shows "now + nanos (BEP51_NODE_STATE_TTL cfg) + 1 < now + d
    \<and> prune_bep51_state cfg (now + nanos (BEP51_NODE_STATE_TTL cfg) + 1) [(ep, now + d, now)] = []"
  using assms by (simp add: prune_bep51_state_def)

end
