(* ===== verification/Maintenance.thy ===== *)
theory Maintenance
  imports Lookup
begin

text \<open>
  The upkeep of the routing table in \<open>includes/dht.py\<close>: resolving the bootstrap hosts,
  \<open>bootstrap\<close>, and \<open>maintenance_once\<close>, which bootstraps a node without good contacts, pings
  questionable contacts and refreshes one stale bucket. The answers of the queries, the random
  target and what other tasks do at every await (the effects of the query among them) are
  arguments; the \<open>k\<close>-th await of a call is number \<open>k\<close>.
\<close>

section \<open>Bootstrapping\<close>

text \<open>\<open>resolve_bootstrap_nodes\<close>; the addresses a host resolves to are an argument, \<open>None\<close> for
  \<open>gaierror\<close>.\<close>

fun add_endpoints :: "config \<Rightarrow> atext set \<Rightarrow> endpoint list \<Rightarrow> endpoint list \<Rightarrow> endpoint list" where
  "add_endpoints cfg loc [] eps = eps"
| "add_endpoints cfg loc (ep # infos) eps =
     add_endpoints cfg loc infos
       (if ep \<notin> set eps \<and> endpoint_allowed cfg loc (fst ep) (snd ep) then eps @ [ep] else eps)"

definition resolve_bootstrap_nodes :: "config \<Rightarrow> atext set \<Rightarrow> (string \<times> int \<Rightarrow> endpoint list option) \<Rightarrow> endpoint list" where
  "resolve_bootstrap_nodes cfg loc getaddrinfo =
     fold (\<lambda>host eps. case getaddrinfo host of None \<Rightarrow> eps | Some infos \<Rightarrow> add_endpoints cfg loc infos eps)
       (DHT_BOOTSTRAP_NODES cfg) []"

record upkeep_env =
  up_now :: "nat \<Rightarrow> int"
  up_closest :: "nat \<Rightarrow> nat \<Rightarrow> int"
  up_states :: "nat \<Rightarrow> int"
  up_reply :: "nat \<Rightarrow> endpoint \<Rightarrow> pdict option"
  up_observe :: "nat \<Rightarrow> nat \<Rightarrow> int"
  up_others :: "nat \<Rightarrow> node \<Rightarrow> node"
  up_random :: "nat \<Rightarrow> nat \<Rightarrow> nat"

text \<open>The loop of \<open>bootstrap\<close>; the reply is \<open>None\<close> when the query raised what the loop catches.\<close>

fun bootstrap_loop :: "config \<Rightarrow> upkeep_env \<Rightarrow> nat \<Rightarrow> endpoint list \<Rightarrow> unit run" where
  "bootstrap_loop cfg e k [] = return_run ()"
| "bootstrap_loop cfg e k (ep # eps) =
     (\<lambda>s. let s1 = up_others e k s in
          case up_reply e k ep of
            None \<Rightarrow> bootstrap_loop cfg e (Suc k) eps s1
          | Some r \<Rightarrow>
              (case dget r ''id'' of
                 Some (PBytes i) \<Rightarrow>
                   if length i = 20
                   then bind_run (observe_run cfg (up_observe e k) i ep True False False None)
                          (\<lambda>_. bootstrap_loop cfg e (Suc k) eps) s1
                   else bootstrap_loop cfg e (Suc k) eps s1
               | _ \<Rightarrow> bootstrap_loop cfg e (Suc k) eps s1))"

section \<open>One maintenance iteration\<close>

text \<open>\<open>[c for c in all_contacts() if c.state() == "QUESTIONABLE"]\<close>, each state at its own reading.\<close>

fun questionable_contacts :: "config \<Rightarrow> (nat \<Rightarrow> int) \<Rightarrow> nat \<Rightarrow> contact list \<Rightarrow> contact list" where
  "questionable_contacts cfg clk k [] = []"
| "questionable_contacts cfg clk k (c # cs) =
     (if state cfg (clk k) c = QUESTIONABLE then c # questionable_contacts cfg clk (k + 1) cs
      else questionable_contacts cfg clk (k + 1) cs)"

definition stale_buckets :: "config \<Rightarrow> int \<Rightarrow> table \<Rightarrow> bucket list" where
  "stale_buckets cfg now t =
     filter (\<lambda>b. nanos (DHT_ROUTING_REFRESH_INTERVAL cfg) \<le> now - last_changed_ns b) (buckets t)"

text \<open>A bucket object is found again by its range: ranges are only ever narrowed by a split, which
  replaces the object.\<close>

definition stamp_if :: "int \<Rightarrow> bucket \<Rightarrow> bucket \<Rightarrow> bucket" where
  "stamp_if now b b' = (if low b' = low b \<and> high b' = high b then b'\<lparr>last_changed_ns := now\<rparr> else b')"

definition touch_bucket :: "int \<Rightarrow> bucket \<Rightarrow> table \<Rightarrow> table" where
  "touch_bucket now b t =
     t\<lparr>buckets := map (stamp_if now b) (buckets t),
       events := events t @ [\<lparr>ev_name = ''bucket_refresh'', ev_min = low b, ev_max = high b - 1, ev_changed = now,
                              ev_contact = None, ev_previous = None\<rparr>]\<rparr>"

text \<open>What the iteration did: the bootstrap time, the contacts it pinged, the bucket it refreshed and
  the contact it asked for it.\<close>

record upkeep =
  last_bootstrap_ns :: int
  pinged :: "contact list"
  refreshed :: "bucket option"
  starter :: "contact option"

definition bootstrap_due :: "config \<Rightarrow> upkeep_env \<Rightarrow> int \<Rightarrow> contact list \<Rightarrow> bool" where
  "bootstrap_due cfg e last_ns good \<longleftrightarrow>
     good = [] \<and> nanos (DHT_BOOTSTRAP_RETRY_INTERVAL cfg) \<le> up_now e 0 - last_ns"

definition refresh_bucket :: "config \<Rightarrow> upkeep_env \<Rightarrow> nat \<Rightarrow> int \<Rightarrow> bucket \<Rightarrow> contact option run" where
  "refresh_bucket cfg e k now b =
     (\<lambda>s. case closest cfg (up_closest e 1) (routing s) (to_bytes 20 (up_random e (low b) (high b))) 1 True of
            Inl x \<Rightarrow> (s, Inl (Py x))
          | Inr starters \<Rightarrow>
              (let s1 = (if starters = [] then s else up_others e k s)
               in (s1\<lparr>routing := touch_bucket now b (routing s1)\<rparr>,
                   Inr (case starters of [] \<Rightarrow> None | c # cs \<Rightarrow> Some c))))"

definition maintenance_once :: "config \<Rightarrow> upkeep_env \<Rightarrow> endpoint list \<Rightarrow> int \<Rightarrow> upkeep run" where
  "maintenance_once cfg e eps last_ns =
     (\<lambda>s. case closest cfg (up_closest e 0) (routing s) (own_id s) 1 True of
            Inl x \<Rightarrow> (s, Inl (Py x))
          | Inr good \<Rightarrow>
              bind_run (if bootstrap_due cfg e last_ns good then bootstrap_loop cfg e 0 eps else return_run ())
                (\<lambda>_ s1.
                   let k = (if bootstrap_due cfg e last_ns good then length eps else 0);
                       pings = take DHT_K (questionable_contacts cfg (up_states e) 0 (all_contacts (routing s1)));
                       s2 = fold (\<lambda>i. up_others e (k + i)) [0..<length pings] s1;
                       now = up_now e 1;
                       u = \<lparr>last_bootstrap_ns = (if bootstrap_due cfg e last_ns good then up_now e 2 else last_ns),
                            pinged = pings, refreshed = None, starter = None\<rparr>
                   in case stale_buckets cfg now (routing s2) of
                        [] \<Rightarrow> (s2, Inr u)
                      | b # bs \<Rightarrow>
                          bind_run (refresh_bucket cfg e (k + length pings) now b)
                            (\<lambda>c. return_run (u\<lparr>refreshed := Some b, starter := c\<rparr>)) s2) s)"

section \<open>Upkeep keeps the node well-formed\<close>

lemma resolved_allowed:
  "ep \<in> set (add_endpoints cfg loc infos eps) \<Longrightarrow> ep \<in> set eps \<or> endpoint_allowed cfg loc (fst ep) (snd ep)"
  by (induction infos arbitrary: eps) (fastforce split: if_splits)+

definition patient :: "config \<Rightarrow> atext set \<Rightarrow> upkeep_env \<Rightarrow> bool" where
  "patient cfg loc e \<longleftrightarrow> (\<forall>n s. running cfg loc s \<longrightarrow> running cfg loc (up_others e n s))"

lemma bootstrap_delivers:
  assumes "patient cfg loc e"
  shows "delivers (running cfg loc) (bootstrap_loop cfg e k eps) (\<lambda>_. True)"
proof (induction eps arbitrary: k)
  case Nil
  then show ?case by (simp add: delivers_return)
next
  case (Cons ep eps)
  have "delivers (running cfg loc) (bind_run (observe_run cfg (up_observe e k) i ep True False False None)
      (\<lambda>_. bootstrap_loop cfg e (Suc k) eps)) (\<lambda>_. True)" for i
    by (rule delivers_bind [OF observe_delivers Cons.IH])
  with Cons.IH assms show ?case
    by (auto simp: delivers_def patient_def Let_def split: option.split pyval.split)
qed

lemma stamp_if_simps [simp]:
  "low (stamp_if now b x) = low x" "high (stamp_if now b x) = high x" "contains (stamp_if now b x) n = contains x n"
  "bucket_wf cfg l (stamp_if now b x) = bucket_wf cfg l x" "contacts (stamp_if now b x) = contacts x"
  by (simp_all add: stamp_if_def)

lemma table_wf_touch: "table_wf cfg t \<Longrightarrow> table_wf cfg (touch_bucket now b t)"
proof -
  assume wf: "table_wf cfg t"
  have "chain lo hi (map (stamp_if now b) bs) = chain lo hi bs" for lo hi bs
    by (induction bs arbitrary: lo) simp_all
  with wf show ?thesis by (auto simp: table_wf_def touch_bucket_def halving_def list_all_iff)
qed

lemma questionable_state:
  "c \<in> set (questionable_contacts cfg clk k cs) \<Longrightarrow> \<exists>j. state cfg (clk j) c = QUESTIONABLE"
  by (induction cs arbitrary: k) (auto split: if_splits)

lemma patient_fold:
  "patient cfg loc e \<Longrightarrow> running cfg loc s \<Longrightarrow> running cfg loc (fold (\<lambda>i. up_others e (k + i)) is s)"
  by (induction "is" arbitrary: s) (simp_all add: patient_def)

lemma local_node_id_touch [simp]: "local_node_id (touch_bucket now b t) = local_node_id t"
  by (simp add: touch_bucket_def)

lemma running_touch: "running cfg loc s \<Longrightarrow> running cfg loc (s\<lparr>routing := touch_bucket now b (routing s)\<rparr>)"
  by (simp add: running_def node_ok_def table_wf_touch)

text \<open>No bucket of the range is stale any more.\<close>

definition freshened :: "config \<Rightarrow> int \<Rightarrow> bucket \<Rightarrow> table \<Rightarrow> bool" where
  "freshened cfg now b t \<longleftrightarrow>
     (\<forall>b' \<in> set (buckets t). low b' = low b \<and> high b' = high b \<longrightarrow> last_changed_ns b' = now)"

lemma touch_freshens: "freshened cfg now b (touch_bucket now b t)"
  by (auto simp: freshened_def touch_bucket_def stamp_if_def)

lemma refresh_delivers:
  assumes "patient cfg loc e"
  shows "delivers (running cfg loc) (refresh_bucket cfg e k now b) (\<lambda>_. True)"
  unfolding delivers_def
proof (intro allI impI)
  fix s assume r: "running cfg loc s"
  have len: "length (to_bytes 20 (up_random e (low b) (high b))) = 20" by (rule length_to_bytes)
  obtain cs where c: "closest cfg (up_closest e 1) (routing s) (to_bytes 20 (up_random e (low b) (high b))) 1 True = Inr cs"
    by (rule closest_returns [OF r len])
  let ?s = "if cs = [] then s else up_others e k s"
  have "running cfg loc ?s" using r assms by (simp add: patient_def)
  from running_touch [OF this, of now b]
  have "running cfg loc (?s\<lparr>routing := touch_bucket now b (routing ?s)\<rparr>)" .
  moreover have "refresh_bucket cfg e k now b s
      = (?s\<lparr>routing := touch_bucket now b (routing ?s)\<rparr>, Inr (case cs of [] \<Rightarrow> None | c # _ \<Rightarrow> Some c))"
    unfolding refresh_bucket_def Let_def c sum.case ..
  ultimately show "\<exists>s' x. refresh_bucket cfg e k now b s = (s', Inr x) \<and> running cfg loc s' \<and> True" by blast
qed

lemma refresh_freshens:
  "refresh_bucket cfg e k now b s = (s', Inr c) \<Longrightarrow> freshened cfg now b (routing s')"
  by (auto simp: refresh_bucket_def Let_def touch_freshens simp del: to_bytes_numeral split: sum.splits)


text \<open>A node with one contact, an hour later: its only bucket is stale.\<close>

definition late_env :: upkeep_env where
  "late_env = \<lparr>up_now = (\<lambda>k. 3600000000000), up_closest = (\<lambda>i k. 3600000000000), up_states = (\<lambda>k. 3600000000000),
     up_reply = (\<lambda>k ep. None), up_observe = (\<lambda>k j. 0), up_others = (\<lambda>k s. s), up_random = (\<lambda>lo hi. lo)\<rparr>"


end
