(* ===== verification/Evidence.thy ===== *)
theory Evidence
  imports Snapshot
begin

text \<open>
  \<open>JSONLWriter\<close> of \<open>includes/storage.py\<close>: the bounded queue that \<open>emit\<close>, \<open>snapshot\<close> and
  \<open>flush\<close> fill, and the thread that writes it to the log and rotates the files. A write
  appends one line or raises; which I/O attempts succeed is an argument, and so is the length of
  a record as a line. The machine interleaves the callers' steps with the thread's. The theorem:
  the files and the queue hold the accepted events in order, without gaps.
\<close>

section \<open>Records and the queue\<close>

definition set_default :: "string \<Rightarrow> jvalue \<Rightarrow> jrecord \<Rightarrow> jrecord" where
  "set_default k v r = (if k \<in> set (map fst r) then r else r @ [(k, v)])"

text \<open>The record as it is queued: without its \<open>None\<close> fields, with the three standard fields.\<close>

definition clean_record :: "string \<Rightarrow> int \<Rightarrow> jrecord \<Rightarrow> jrecord" where
  "clean_record run_id now r =
     set_default ''run_id'' (JStr run_id) (set_default ''timestamp_ns'' (JInt now)
       (set_default ''schema_version'' (JInt 1) (filter (\<lambda>(k, v). v \<noteq> JNull) r)))"

datatype item = Event jrecord | Write_snapshot "jrecord list" | Flush | Stop

text \<open>The log is file 0, its backups \<open>.1\<close>, \<open>.2\<close> and so on; \<open>None\<close> is a missing file. \<open>accepted\<close>
  records the events \<open>emit\<close> took, \<open>answered\<close> the outcomes given to waiters, \<open>routing_file\<close> the
  file of the routing table.\<close>

record writer =
  jobs :: "item list"
  files :: "nat \<Rightarrow> jrecord list option"
  opened :: bool
  fatal :: bool
  stopping :: bool
  stopped :: bool
  dropped_events :: nat
  last_drop_warning :: rat
  routing_file :: "jrecord list option"
  accepted :: "jrecord list"
  answered :: "bool list"

definition new_writer :: "(nat \<Rightarrow> jrecord list option) \<Rightarrow> writer" where
  "new_writer fs =
     \<lparr>jobs = [], files = fs, opened = False, fatal = False, stopping = False, stopped = False, dropped_events = 0, last_drop_warning = 0,
      routing_file = None, accepted = [], answered = []\<rparr>"

definition emit_event :: "config \<Rightarrow> string \<Rightarrow> int \<Rightarrow> rat \<Rightarrow> jrecord \<Rightarrow> writer \<Rightarrow> writer \<times> bool" where
  "emit_event cfg run_id now mono_now r w =
     (if fatal w \<or> stopping w then (w, False)
      else
        (let clean = clean_record run_id now r in
         if int (length (jobs w)) < DHT_JSONL_QUEUE_SIZE cfg
         then (w\<lparr>jobs := jobs w @ [Event clean], accepted := accepted w @ [clean]\<rparr>, True)
         else (w\<lparr>dropped_events := dropped_events w + 1,
                 last_drop_warning := (if JSONL_WARNING_INTERVAL cfg \<le> mono_now - last_drop_warning w then mono_now
                                       else last_drop_warning w)\<rparr>, False)))"

section \<open>Rotation\<close>

text \<open>The loop over the backups, from the oldest: it is deleted, the others move up.\<close>

fun shift_backups :: "nat \<Rightarrow> nat \<Rightarrow> (nat \<Rightarrow> 'f option) \<Rightarrow> nat \<Rightarrow> 'f option" where
  "shift_backups n 0 fs = fs"
| "shift_backups n (Suc i) fs =
     shift_backups n i
       (if Suc i = n then fs(Suc i := None)
        else if fs (Suc i) \<noteq> None then fs(Suc (Suc i) := fs (Suc i), Suc i := None)
        else fs)"

definition rotate_files :: "config \<Rightarrow> nat \<Rightarrow> (nat \<Rightarrow> 'f option) \<Rightarrow> nat \<Rightarrow> 'f option" where
  "rotate_files cfg nbytes fs =
     (if fs 0 = None \<or> int nbytes < DHT_JSONL_MAX_BYTES cfg then fs
      else
        (let n = nat (DHT_JSONL_BACKUP_COUNT cfg); fs' = shift_backups n n fs in
         if 0 < DHT_JSONL_BACKUP_COUNT cfg then fs'(1 := fs' 0, 0 := None) else fs'))"

section \<open>The writer thread\<close>

text \<open>\<open>_open_event_file\<close> and \<open>_write_event_with_recovery\<close>: \<open>io k\<close> says whether the \<open>k\<close>-th attempt
  succeeds. The result is the number of attempts made, and whether the line was written; a
  file that cannot be opened ends the retries, since its exception is no \<open>OSError\<close>.\<close>

fun open_tries :: "nat \<Rightarrow> (nat \<Rightarrow> bool) \<Rightarrow> nat \<Rightarrow> nat \<times> bool" where
  "open_tries 0 io k = (k, False)"
| "open_tries (Suc n) io k = (if io k then (Suc k, True) else open_tries n io (Suc k))"

fun write_tries :: "nat \<Rightarrow> nat \<Rightarrow> (nat \<Rightarrow> bool) \<Rightarrow> nat \<Rightarrow> bool \<Rightarrow> nat \<times> bool" where
  "write_tries opens 0 io k isopen = (k, False)"
| "write_tries opens (Suc n) io k isopen =
     (case (if isopen then (k, True) else open_tries opens io k) of
        (k', False) \<Rightarrow> (k', False)
      | (k', True) \<Rightarrow> if io k' then (Suc k', True) else write_tries opens n io (Suc k') False)"

text \<open>\<open>_snapshot_with_recovery\<close>: the temporary file replaces the old one or nothing changes.\<close>

definition reopen_tries :: "config \<Rightarrow> nat" where
  "reopen_tries cfg = nat (JSONL_REOPEN_RETRY_COUNT cfg + 1)"

definition is_waiter :: "item \<Rightarrow> bool" where
  "is_waiter x \<longleftrightarrow> (case x of Write_snapshot rs \<Rightarrow> True | Flush \<Rightarrow> True | _ \<Rightarrow> False)"

text \<open>The end of the thread by an exception: the waiters in the queue fail, the events are gone.\<close>

definition writer_dies :: "writer \<Rightarrow> writer" where
  "writer_dies w =
     w\<lparr>fatal := True, opened := False, jobs := [], answered := answered w @ map (\<lambda>_. False) (filter is_waiter (jobs w))\<rparr>"

definition append_line :: "jrecord \<Rightarrow> (nat \<Rightarrow> jrecord list option) \<Rightarrow> nat \<Rightarrow> jrecord list option" where
  "append_line r fs = fs(0 := Some ((case fs 0 of None \<Rightarrow> [] | Some rs \<Rightarrow> rs) @ [r]))"

definition log_size :: "(jrecord \<Rightarrow> nat) \<Rightarrow> (nat \<Rightarrow> jrecord list option) \<Rightarrow> nat" where
  "log_size line_length fs = (case fs 0 of None \<Rightarrow> 0 | Some rs \<Rightarrow> sum_list (map line_length rs))"

definition write_event :: "config \<Rightarrow> (jrecord \<Rightarrow> nat) \<Rightarrow> (nat \<Rightarrow> bool) \<Rightarrow> jrecord \<Rightarrow> writer \<Rightarrow> writer" where
  "write_event cfg line_length io r w =
     (case write_tries (reopen_tries cfg) (reopen_tries cfg) io 0 (opened w) of
        (k, False) \<Rightarrow> writer_dies w
      | (k, True) \<Rightarrow>
          (let w1 = w\<lparr>opened := True, files := append_line r (files w)\<rparr>;
               nbytes = log_size line_length (files w1)
           in if \<not> io k then writer_dies w1
              else if int nbytes < DHT_JSONL_MAX_BYTES cfg then w1
              else w1\<lparr>opened := False, files := rotate_files cfg nbytes (files w1)\<rparr>))"

text \<open>One turn of the thread's loop on the next item; \<open>io k\<close> after a write is the flushing and
  closing that follow it.\<close>

definition serve :: "config \<Rightarrow> (jrecord \<Rightarrow> nat) \<Rightarrow> (nat \<Rightarrow> bool) \<Rightarrow> item \<Rightarrow> writer \<Rightarrow> writer" where
  "serve cfg line_length io x w =
     (case x of
        Event r \<Rightarrow> write_event cfg line_length io r w
      | Write_snapshot rs \<Rightarrow>
          (if snd (open_tries (reopen_tries cfg) io 0)
           then w\<lparr>routing_file := Some (map (filter (\<lambda>(k, v). v \<noteq> JNull)) rs), answered := answered w @ [True]\<rparr>
           else w\<lparr>answered := answered w @ [False]\<rparr>)
      | Flush \<Rightarrow> w\<lparr>answered := answered w @ [\<not> opened w \<or> io 0]\<rparr>
      | Stop \<Rightarrow> w\<lparr>stopped := True\<rparr>)"

text \<open>The turn that finds no item in time flushes the log.\<close>

definition idle_flush :: "bool \<Rightarrow> writer \<Rightarrow> writer" where
  "idle_flush ok w = (if opened w \<and> \<not> ok then writer_dies w else w)"

text \<open>The steps: an \<open>emit\<close>; the flag that \<open>close\<close> sets; a waiter's or the shutdown's item, which is put whenever there is room
  (the callers test for a fatal error once, before they wait for room); a turn of the thread.\<close>

datatype writer_op = Emitted bool | Closing | Enqueued item | Served | Idled

inductive writer_step :: "config \<Rightarrow> (jrecord \<Rightarrow> nat) \<Rightarrow> writer \<Rightarrow> writer_op \<Rightarrow> writer \<Rightarrow> bool" for cfg line_length where
  emits: "emit_event cfg run_id now t r w = (w', ok) \<Longrightarrow> writer_step cfg line_length w (Emitted ok) w'"
| closes: "writer_step cfg line_length w Closing (w\<lparr>stopping := True\<rparr>)"
| enqueues: "int (length (jobs w)) < DHT_JSONL_QUEUE_SIZE cfg \<Longrightarrow> is_waiter x \<or> (x = Stop \<and> stopping w) \<Longrightarrow>
    writer_step cfg line_length w (Enqueued x) (w\<lparr>jobs := jobs w @ [x]\<rparr>)"
| serves: "\<not> fatal w \<Longrightarrow> \<not> stopped w \<Longrightarrow> jobs w = x # xs \<Longrightarrow>
    writer_step cfg line_length w Served (serve cfg line_length io x (w\<lparr>jobs := xs\<rparr>))"
| idles: "\<not> fatal w \<Longrightarrow> \<not> stopped w \<Longrightarrow> jobs w = [] \<Longrightarrow> writer_step cfg line_length w Idled (idle_flush ok w)"

inductive_cases writer_stepE: "writer_step cfg line_length w e w'"

definition writer_init :: "writer \<Rightarrow> bool" where
  "writer_init w \<longleftrightarrow> w = new_writer (\<lambda>_. None)"

section \<open>What the files hold\<close>

definition lines_of :: "(nat \<Rightarrow> 'e list option) \<Rightarrow> nat \<Rightarrow> 'e list" where
  "lines_of fs i = (case fs i of None \<Rightarrow> [] | Some rs \<Rightarrow> rs)"

text \<open>The lines of the backups and of the log, oldest first.\<close>

fun archive :: "(nat \<Rightarrow> 'e list option) \<Rightarrow> nat \<Rightarrow> 'e list" where
  "archive fs 0 = lines_of fs 0"
| "archive fs (Suc n) = lines_of fs (Suc n) @ archive fs n"

definition events_in :: "item list \<Rightarrow> jrecord list" where
  "events_in xs = concat (map (\<lambda>x. case x of Event r \<Rightarrow> [r] | _ \<Rightarrow> []) xs)"

lemma events_in_simps [simp]:
  "events_in [] = []" "events_in (x # xs) = (case x of Event r \<Rightarrow> [r] | _ \<Rightarrow> []) @ events_in xs"
  "events_in (xs @ ys) = events_in xs @ events_in ys"
  by (simp_all add: events_in_def)

lemma shift_backups_at:
  "i < n \<Longrightarrow> fs (Suc i) = None \<Longrightarrow>
     shift_backups n i fs j = (if j = 0 then fs 0 else if j = 1 then None else if j \<le> Suc i then fs (j - 1) else fs j)"
proof (induction i arbitrary: fs)
  case 0
  then show ?case by (cases j) auto
next
  case (Suc i)
  let ?fs = "fs(Suc (Suc i) := fs (Suc i), Suc i := None)"
  have "shift_backups n (Suc i) fs = shift_backups n i ?fs"
  proof (cases "fs (Suc i)")
    case None
    then have "?fs = fs" using Suc.prems(2) by (simp add: fun_eq_iff)
    with None Suc.prems(1) show ?thesis by simp
  qed (use Suc.prems(1) in simp)
  moreover have "shift_backups n i ?fs j = (if j = 0 then ?fs 0 else if j = 1 then None
      else if j \<le> Suc i then ?fs (j - 1) else ?fs j)"
    using Suc.prems by (intro Suc.IH) auto
  ultimately show ?case by (auto simp: le_Suc_eq)
qed

lemma rotate_files_at:
  assumes "fs 0 \<noteq> None" and "DHT_JSONL_MAX_BYTES cfg \<le> int nbytes" and "0 < DHT_JSONL_BACKUP_COUNT cfg"
  shows "rotate_files cfg nbytes fs j =
    (if j = 0 then None else if j \<le> nat (DHT_JSONL_BACKUP_COUNT cfg) then fs (j - 1) else fs j)"
proof -
  obtain m where n: "nat (DHT_JSONL_BACKUP_COUNT cfg) = Suc m" using assms(3) by (cases "nat (DHT_JSONL_BACKUP_COUNT cfg)") auto
  let ?fs = "fs(Suc m := None)"
  have at: "shift_backups (Suc m) m ?fs j = (if j = 0 then ?fs 0 else if j = 1 then None
      else if j \<le> Suc m then ?fs (j - 1) else ?fs j)" for j
    by (rule shift_backups_at) simp_all
  have "rotate_files cfg nbytes fs = (shift_backups (Suc m) m ?fs)(1 := shift_backups (Suc m) m ?fs 0, 0 := None)"
    using assms by (auto simp: rotate_files_def n Let_def)
  then show ?thesis by (auto simp: at n)
qed

lemma rotate_keeps: "DHT_JSONL_BACKUP_COUNT cfg \<le> 0 \<Longrightarrow> rotate_files cfg nbytes fs = fs"
  by (simp add: rotate_files_def Let_def)

lemma archive_moved:
  assumes "\<And>j. 1 \<le> j \<Longrightarrow> j \<le> Suc n \<Longrightarrow> gs j = fs (j - 1)" and "gs 0 = None" and "m \<le> n"
  shows "archive gs (Suc m) = archive fs m"
  using assms(3)
proof (induction m)
  case 0
  then show ?case using assms(1) [of 1] assms(2) by (simp add: lines_of_def)
next
  case (Suc m)
  then show ?case using assms(1) [of "Suc (Suc m)"] by (simp add: lines_of_def)
qed

text \<open>A rotation drops the oldest backup and nothing else.\<close>

lemma archive_rotate:
  assumes "fs 0 \<noteq> None" and "DHT_JSONL_MAX_BYTES cfg \<le> int nbytes"
  shows "\<exists>lost. archive fs (nat (DHT_JSONL_BACKUP_COUNT cfg)) =
      lost @ archive (rotate_files cfg nbytes fs) (nat (DHT_JSONL_BACKUP_COUNT cfg))
    \<and> (DHT_JSONL_BACKUP_COUNT cfg \<le> 0 \<longrightarrow> lost = [])"
proof (cases "0 < DHT_JSONL_BACKUP_COUNT cfg")
  case True
  then obtain m where n: "nat (DHT_JSONL_BACKUP_COUNT cfg) = Suc m" by (cases "nat (DHT_JSONL_BACKUP_COUNT cfg)") auto
  have "archive (rotate_files cfg nbytes fs) (Suc m) = archive fs m"
    by (rule archive_moved [of m]) (simp_all add: rotate_files_at [where fs = fs, OF assms True] n)
  with True n show ?thesis by (intro exI [of _ "lines_of fs (Suc m)"]) simp
next
  case False
  then show ?thesis by (simp add: rotate_keeps)
qed

lemma archive_append: "archive (append_line r fs) n = archive fs n @ [r]"
  by (induction n) (simp_all add: append_line_def lines_of_def split: option.split)

section \<open>The invariant\<close>

text \<open>No event stands behind the item that stops the thread.\<close>

fun none_after_stop :: "item list \<Rightarrow> bool" where
  "none_after_stop [] = True"
| "none_after_stop (x # xs) = (if x = Stop then events_in xs = [] else none_after_stop xs)"

lemma none_after_stop_snoc:
  "none_after_stop (xs @ [x]) = (none_after_stop xs \<and> (Stop \<in> set xs \<longrightarrow> events_in [x] = []))"
  by (induction xs) auto

lemma no_events_after_stop: "events_in xs = [] \<Longrightarrow> none_after_stop xs"
  by (induction xs) auto

definition backups :: "config \<Rightarrow> nat" where
  "backups cfg = nat (DHT_JSONL_BACKUP_COUNT cfg)"

definition in_order :: "config \<Rightarrow> writer \<Rightarrow> bool" where
  "in_order cfg w \<longleftrightarrow>
     (\<exists>lost rest. accepted w = lost @ archive (files w) (backups cfg) @ rest
        \<and> (fatal w \<or> rest = events_in (jobs w)) \<and> (DHT_JSONL_BACKUP_COUNT cfg \<le> 0 \<longrightarrow> lost = []))"

text \<open>Every file is full before its last line at the latest, and the log has room unless the thread
  died on it.\<close>

definition small_files :: "config \<Rightarrow> (jrecord \<Rightarrow> nat) \<Rightarrow> writer \<Rightarrow> bool" where
  "small_files cfg line_length w \<longleftrightarrow>
     (\<forall>i rs. files w i = Some rs \<longrightarrow> i \<le> backups cfg
        \<and> int (sum_list (map line_length (butlast rs))) < DHT_JSONL_MAX_BYTES cfg)
     \<and> (fatal w \<or> int (log_size line_length (files w)) < DHT_JSONL_MAX_BYTES cfg)"

definition stops_last :: "writer \<Rightarrow> bool" where
  "stops_last w \<longleftrightarrow> (Stop \<in> set (jobs w) \<longrightarrow> stopping w) \<and> none_after_stop (jobs w)
     \<and> (stopped w \<longrightarrow> stopping w \<and> events_in (jobs w) = [])"

definition writer_ok :: "config \<Rightarrow> (jrecord \<Rightarrow> nat) \<Rightarrow> writer \<Rightarrow> bool" where
  "writer_ok cfg line_length w \<longleftrightarrow>
     in_order cfg w \<and> stops_last w \<and> int (length (jobs w)) \<le> max 0 (DHT_JSONL_QUEUE_SIZE cfg)
     \<and> (0 < DHT_JSONL_BACKUP_COUNT cfg \<and> 0 < DHT_JSONL_MAX_BYTES cfg \<longrightarrow> small_files cfg line_length w)"

lemma writer_dies_simps [simp]:
  "files (writer_dies w) = files w" "fatal (writer_dies w)" "jobs (writer_dies w) = []" "accepted (writer_dies w) = accepted w"
  "stopping (writer_dies w) = stopping w" "stopped (writer_dies w) = stopped w"
  by (simp_all add: writer_dies_def)

lemma log_size_append:
  "log_size ll (append_line r fs) = log_size ll fs + ll r"
  by (simp add: log_size_def append_line_def split: option.split)

lemma small_append:
  assumes "small_files cfg ll w" and "\<not> fatal w"
    and "fs = append_line r (files w)"
  shows "\<forall>i rs. fs i = Some rs \<longrightarrow> i \<le> backups cfg \<and> int (sum_list (map ll (butlast rs))) < DHT_JSONL_MAX_BYTES cfg"
proof (intro allI impI)
  fix i rs assume i: "fs i = Some rs"
  show "i \<le> backups cfg \<and> int (sum_list (map ll (butlast rs))) < DHT_JSONL_MAX_BYTES cfg"
  proof (cases "i = 0")
    case True
    with i assms have "butlast rs = lines_of (files w) 0" "log_size ll (files w) = sum_list (map ll (lines_of (files w) 0))"
      by (auto simp: append_line_def lines_of_def log_size_def split: option.splits)
    with True assms show ?thesis by (simp add: small_files_def)
  next
    case False
    with i assms show ?thesis by (auto simp: append_line_def small_files_def)
  qed
qed

lemma write_event_cases:
  obtains (unwritten) "write_event cfg ll io r w = writer_dies w"
  | (dead) "write_event cfg ll io r w = writer_dies (w\<lparr>opened := True, files := append_line r (files w)\<rparr>)"
  | (written) "write_event cfg ll io r w = w\<lparr>opened := True, files := append_line r (files w)\<rparr>"
      "int (log_size ll (append_line r (files w))) < DHT_JSONL_MAX_BYTES cfg"
  | (rotated) "write_event cfg ll io r w = w\<lparr>opened := False,
        files := rotate_files cfg (log_size ll (append_line r (files w))) (append_line r (files w))\<rparr>"
      "DHT_JSONL_MAX_BYTES cfg \<le> int (log_size ll (append_line r (files w)))"
proof -
  obtain k ok where t: "write_tries (reopen_tries cfg) (reopen_tries cfg) io 0 (opened w) = (k, ok)" by fastforce
  show thesis
  proof (cases ok)
    case False
    with t that(1) show thesis by (simp add: write_event_def)
  next
    case True
    with t that(2-4) show thesis
      by (cases "io k"; cases "int (log_size ll (append_line r (files w))) < DHT_JSONL_MAX_BYTES cfg")
        (simp_all add: write_event_def Let_def)
  qed
qed

lemma in_orderI:
  "accepted w = lost @ archive (files w) (backups cfg) @ rest \<Longrightarrow> fatal w \<or> rest = events_in (jobs w) \<Longrightarrow>
     (DHT_JSONL_BACKUP_COUNT cfg \<le> 0 \<Longrightarrow> lost = []) \<Longrightarrow> in_order cfg w"
  unfolding in_order_def by blast

lemma write_event_in_order:
  assumes "in_order cfg (w\<lparr>jobs := Event r # xs\<rparr>)" and "\<not> fatal w" and "jobs w = xs"
  shows "in_order cfg (write_event cfg ll io r w)"
proof -
  from assms(1,2) obtain lost where a: "accepted w = lost @ archive (files w) (backups cfg) @ r # events_in xs"
    "DHT_JSONL_BACKUP_COUNT cfg \<le> 0 \<Longrightarrow> lost = []" by (auto simp: in_order_def)
  let ?fs = "append_line r (files w)"
  have a': "accepted w = lost @ archive ?fs (backups cfg) @ events_in xs" using a(1) by (simp add: archive_append)
  show ?thesis
  proof (cases rule: write_event_cases [of cfg ll io r w])
    case unwritten
    show ?thesis unfolding unwritten by (rule in_orderI [of _ lost _ "r # events_in xs"]) (use a in simp_all)
  next
    case dead
    show ?thesis unfolding dead by (rule in_orderI [of _ lost _ "events_in xs"]) (use a(2) a' in simp_all)
  next
    case written
    show ?thesis unfolding written(1) by (rule in_orderI [of _ lost _ "events_in xs"]) (use a(2) a' assms(3) in simp_all)
  next
    case rotated
    have "?fs 0 \<noteq> None" by (simp add: append_line_def)
    from archive_rotate [where fs = ?fs, OF this rotated(2)] obtain more where
      m: "archive ?fs (backups cfg) = more @ archive (rotate_files cfg (log_size ll ?fs) ?fs) (backups cfg)"
      "DHT_JSONL_BACKUP_COUNT cfg \<le> 0 \<longrightarrow> more = []" by (auto simp: backups_def)
    show ?thesis unfolding rotated(1)
      by (rule in_orderI [of _ "lost @ more" _ "events_in xs"]) (use a(2) a' m assms(3) in simp_all)
  qed
qed

lemma write_event_small:
  assumes "small_files cfg ll w" and "\<not> fatal w" and pos: "0 < DHT_JSONL_BACKUP_COUNT cfg" "0 < DHT_JSONL_MAX_BYTES cfg"
  shows "small_files cfg ll (write_event cfg ll io r w)"
proof -
  let ?fs = "append_line r (files w)"
  note app = small_append [OF assms(1,2) refl, of r]
  show ?thesis
  proof (cases rule: write_event_cases [of cfg ll io r w])
    case rotated
    define gs where "gs = rotate_files cfg (log_size ll ?fs) ?fs"
    have at: "gs j = (if j = 0 then None else if j \<le> backups cfg then ?fs (j - 1) else ?fs j)" for j
      unfolding gs_def backups_def by (rule rotate_files_at) (use rotated(2) pos(1) in \<open>simp_all add: append_line_def\<close>)
    have "log_size ll gs = 0" by (simp add: log_size_def at)
    moreover have "i \<le> backups cfg \<and> int (sum_list (map ll (butlast rs))) < DHT_JSONL_MAX_BYTES cfg" if "gs i = Some rs" for i rs
      using that app by (auto simp: at split: if_splits)
    ultimately show ?thesis using pos(2) unfolding rotated(1) gs_def [symmetric] by (auto simp: small_files_def)
  qed (use app assms(1) in \<open>auto simp: small_files_def\<close>)
qed

lemma write_event_frame:
  "stopping (write_event cfg ll io r w) = stopping w" "stopped (write_event cfg ll io r w) = stopped w"
  "jobs (write_event cfg ll io r w) = jobs w \<or> jobs (write_event cfg ll io r w) = []"
  by (cases rule: write_event_cases [of cfg ll io r w]; simp)+

lemma stops_last_tail:
  "stops_last w \<Longrightarrow> jobs w = x # xs \<Longrightarrow> x \<noteq> Stop \<Longrightarrow> \<not> stopped w \<Longrightarrow> stopping w' = stopping w \<Longrightarrow> stopped w' = stopped w \<Longrightarrow>
     jobs w' = xs \<or> jobs w' = [] \<Longrightarrow> stops_last w'"
  by (auto simp: stops_last_def)

lemma writer_ok_frame:
  assumes "writer_ok cfg ll w" and "jobs w = x # xs" and "events_in [x] = []" and "stops_last w'"
    and "files w' = files w" "accepted w' = accepted w" "fatal w' = fatal w" "jobs w' = xs"
  shows "writer_ok cfg ll w'"
  using assms by (auto simp: writer_ok_def in_order_def small_files_def)

lemma serve_ok:
  assumes ok: "writer_ok cfg ll w" and run: "\<not> fatal w" "\<not> stopped w" and x: "jobs w = x # xs"
  shows "writer_ok cfg ll (serve cfg ll io x (w\<lparr>jobs := xs\<rparr>))"
proof (cases x)
  case (Event r)
  let ?w = "w\<lparr>jobs := xs\<rparr>"
  let ?v = "write_event cfg ll io r ?w"
  have eq: "?w\<lparr>jobs := Event r # xs\<rparr> = w" using x Event by simp
  have "in_order cfg ?v"
    by (rule write_event_in_order [where w = ?w and xs = xs]) (use ok run eq in \<open>simp_all add: writer_ok_def\<close>)
  moreover have "small_files cfg ll ?v" if "0 < DHT_JSONL_BACKUP_COUNT cfg" "0 < DHT_JSONL_MAX_BYTES cfg"
    by (rule write_event_small) (use ok run that in \<open>simp_all add: writer_ok_def small_files_def\<close>)
  moreover have "stops_last ?v"
    by (rule stops_last_tail [of w x xs]) (use ok run x Event write_event_frame [of cfg ll io r ?w] in \<open>simp_all add: writer_ok_def\<close>)
  moreover have "int (length (jobs ?v)) \<le> max 0 (DHT_JSONL_QUEUE_SIZE cfg)"
    using write_event_frame(3) [of cfg ll io r ?w] ok x by (auto simp: writer_ok_def)
  ultimately show ?thesis using Event by (simp add: serve_def writer_ok_def)
next
  case (Write_snapshot rs)
  show ?thesis
    by (rule writer_ok_frame [OF ok x], use Write_snapshot in simp)
      (rule stops_last_tail [of w x xs], use ok run x Write_snapshot in \<open>simp_all add: writer_ok_def serve_def\<close>)
next
  case Flush
  show ?thesis
    by (rule writer_ok_frame [OF ok x], use Flush in simp)
      (rule stops_last_tail [of w x xs], use ok run x Flush in \<open>simp_all add: writer_ok_def serve_def\<close>)
next
  case Stop
  have "stops_last (w\<lparr>jobs := xs, stopped := True\<rparr>)"
    using ok x Stop by (auto simp: writer_ok_def stops_last_def no_events_after_stop)
  then show ?thesis
    by (intro writer_ok_frame [OF ok x]) (use Stop in \<open>simp_all add: serve_def\<close>)
qed

lemma in_order_enqueue:
  "in_order cfg w \<Longrightarrow> events_in [x] = [] \<Longrightarrow> in_order cfg (w\<lparr>jobs := jobs w @ [x]\<rparr>)"
  by (auto simp: in_order_def)

lemma in_order_accept:
  assumes "in_order cfg w" and "\<not> fatal w"
  shows "in_order cfg (w\<lparr>jobs := jobs w @ [Event r], accepted := accepted w @ [r]\<rparr>)"
proof -
  from assms obtain lost where "accepted w = lost @ archive (files w) (backups cfg) @ events_in (jobs w)"
    "DHT_JSONL_BACKUP_COUNT cfg \<le> 0 \<longrightarrow> lost = []" by (auto simp: in_order_def)
  then show ?thesis by (intro in_orderI [of _ lost _ "events_in (jobs w) @ [r]"]) simp_all
qed

lemma idle_ok:
  assumes "writer_ok cfg ll w" and "jobs w = []"
  shows "writer_ok cfg ll (idle_flush ok w)"
proof -
  from assms(1) obtain lost rest where "accepted w = lost @ archive (files w) (backups cfg) @ rest"
    "DHT_JSONL_BACKUP_COUNT cfg \<le> 0 \<longrightarrow> lost = []" unfolding writer_ok_def in_order_def by blast
  then have "in_order cfg (writer_dies w)" by (intro in_orderI [of _ lost _ rest]) simp_all
  with assms show ?thesis by (auto simp: idle_flush_def writer_ok_def small_files_def stops_last_def)
qed

lemma writer_step_ok:
  assumes ok: "writer_ok cfg ll w" and step: "writer_step cfg ll w e w'"
  shows "writer_ok cfg ll w'"
  using step
proof cases
  case (emits run_id now t r b)
  show ?thesis
  proof (cases "fatal w \<or> stopping w \<or> \<not> int (length (jobs w)) < DHT_JSONL_QUEUE_SIZE cfg")
    case True
    with emits ok show ?thesis
      by (auto simp: emit_event_def Let_def writer_ok_def in_order_def small_files_def stops_last_def split: if_splits)
  next
    case False
    define c where "c = clean_record run_id now r"
    have w': "w' = w\<lparr>jobs := jobs w @ [Event c], accepted := accepted w @ [c]\<rparr>"
      using emits False by (simp add: emit_event_def c_def Let_def)
    have "stops_last w'" using ok False by (auto simp: w' writer_ok_def stops_last_def none_after_stop_snoc)
    with ok False in_order_accept [of cfg w c] show ?thesis by (auto simp: w' writer_ok_def small_files_def)
  qed
next
  case closes
  with ok show ?thesis by (auto simp: writer_ok_def in_order_def small_files_def stops_last_def)
next
  case (enqueues x)
  have none: "events_in [x] = []" using enqueues by (auto simp: is_waiter_def split: item.splits)
  have "stops_last w'"
    using ok enqueues none by (auto simp: writer_ok_def stops_last_def none_after_stop_snoc is_waiter_def)
  with ok enqueues in_order_enqueue [OF _ none, of cfg w] show ?thesis
    by (auto simp: writer_ok_def small_files_def)
next
  case (serves x xs io)
  then show ?thesis using serve_ok [OF ok] by simp
next
  case (idles okay)
  then show ?thesis using idle_ok [OF ok] by simp
qed

interpretation writers: machine_invariant writer_init "writer_step cfg ll" "writer_ok cfg ll" for cfg ll
proof
  show "writer_ok cfg ll w" if "writer_init w" for w
  proof -
    have "archive (\<lambda>_. None) n = ([] :: jrecord list)" for n by (induction n) (simp_all add: lines_of_def)
    with that show ?thesis
      by (auto simp: writer_init_def new_writer_def writer_ok_def in_order_def stops_last_def small_files_def log_size_def)
  qed
qed (rule writer_step_ok)


text \<open>A waiter that was still waiting for room when the thread died puts its item into a queue that
  nobody serves: its future is never answered.\<close>

lemma dead_writer_never_serves:
  assumes "fatal w" and "writer_step cfg line_length w e w'"
  shows "fatal w' \<and> answered w' = answered w \<and> (\<exists>more. jobs w' = jobs w @ more)"
  using assms(2)
  by (cases rule: writer_stepE) (use assms(1) in \<open>auto simp: emit_event_def\<close>)

lemma default_queue: "DHT_JSONL_QUEUE_SIZE default_config = 5000" "JSONL_REOPEN_RETRY_COUNT default_config = 5"
  "DHT_JSONL_MAX_BYTES default_config = 536870912" "backups default_config = 4"
  by (simp_all add: default_config_def backups_def)

lemma default_tries: "reopen_tries default_config = 6"
  by (simp add: reopen_tries_def default_config_def)

lemma first_try: "write_tries 6 6 (\<lambda>_. True) 0 False = (2, True)"
  by (simp add: numeral_eq_Suc)


end
