(* ===== verification/Db_Worker.thy ===== *)
theory Db_Worker
  imports Storage
begin

text \<open>
  The thread of \<open>DatabaseWorker\<close> in \<open>includes/storage.py\<close>: the queue of operations, the size
  check around each, and the retries on a reopened connection. An operation is a function on
  the committed tables; which attempt fails where is an argument. The theorems: an operation is
  answered once, in order, after a bounded number of attempts, and is committed at most once
  unless the check after it fails.
\<close>

section \<open>One operation\<close>

text \<open>\<open>StorageError\<close> of the size check; \<open>sqlite3.DatabaseError\<close> and \<open>OSError\<close>, which are retried;
  anything else.\<close>

datatype fault = Size_reached | Io_fault | Other_fault

datatype file_stat = Stat_size nat | Stat_missing | Stat_failed

text \<open>The loop of \<open>_check_size\<close> over the three files; a failed \<open>stat\<close> leaves it.\<close>

fun add_sizes :: "file_stat list \<Rightarrow> nat \<Rightarrow> nat option" where
  "add_sizes [] acc = Some acc"
| "add_sizes (Stat_size n # ss) acc = add_sizes ss (acc + n)"
| "add_sizes (Stat_missing # ss) acc = add_sizes ss acc"
| "add_sizes (Stat_failed # ss) acc = None"

definition check_size :: "config \<Rightarrow> file_stat list \<Rightarrow> fault option" where
  "check_size cfg stats =
     (case add_sizes stats 0 of
        None \<Rightarrow> Some Io_fault
      | Some n \<Rightarrow> if DATABASE_MAX_BYTES cfg \<le> int n then Some Size_reached else None)"

text \<open>What the attempts meet: the file sizes before and after attempt \<open>k\<close>, whether the statements
  of attempt \<open>k\<close> raise a database error, whether reopening after it works, and whether the commit at the
  end of the thread works.\<close>

record db_env =
  stats_before :: "nat \<Rightarrow> file_stat list"
  stats_after :: "nat \<Rightarrow> file_stat list"
  statement_fails :: "nat \<Rightarrow> bool"
  reopens :: "nat \<Rightarrow> bool"
  last_commits :: bool

text \<open>The operation runs on what its connection sees, and may leave its changes uncommitted (only
  reads and operations ended by an exception do); \<open>Inl\<close> is an exception of its own that is no database error.\<close>

datatype ending = Uncommitted | Committed | Rolled_back

type_synonym ('db, 'a) operation = "'db \<Rightarrow> 'db \<times> ending \<times> (unit + 'a)"

datatype 'a db_answer = Answered 'a | Failed_with fault

text \<open>The committed tables and what the connection sees after an operation that saw \<open>d\<close> last.\<close>

fun settle :: "ending \<Rightarrow> 'db \<Rightarrow> 'db \<Rightarrow> 'db \<times> 'db" where
  "settle Uncommitted db d = (db, d)"
| "settle Committed db d = (d, d)"
| "settle Rolled_back db d = (db, db)"

text \<open>The loop over the attempts, from attempt \<open>k\<close> with \<open>n\<close> left, on committed tables \<open>db\<close> of which
  the connection sees \<open>v\<close>; a database error rolls back, and a connection that could not be reopened makes the next
  attempt fail. It returns the two tables, the number of executions that returned, the
  answer, and whether the worker dies. The retry after the last attempt is the \<open>fatal\<close> branch.\<close>

fun run_attempts :: "config \<Rightarrow> db_env \<Rightarrow> ('db, 'a) operation \<Rightarrow> nat \<Rightarrow> nat \<Rightarrow> bool \<Rightarrow> 'db \<Rightarrow> 'db \<Rightarrow> nat \<Rightarrow>
    'db \<times> 'db \<times> nat \<times> 'a db_answer \<times> bool" where
  "run_attempts cfg e f k 0 isopen db v runs = (db, v, runs, Failed_with Io_fault, True)"
| "run_attempts cfg e f k (Suc n) isopen db v runs =
     (case check_size cfg (stats_before e k) of
        Some Size_reached \<Rightarrow> (db, v, runs, Failed_with Size_reached, True)
      | Some x \<Rightarrow> run_attempts cfg e f (Suc k) n (reopens e k) db db runs
      | None \<Rightarrow>
          if \<not> isopen \<or> statement_fails e k then run_attempts cfg e f (Suc k) n (reopens e k) db db runs
          else
            (case f v of
               (d, z, Inl u) \<Rightarrow> (fst (settle z db d), snd (settle z db d), runs, Failed_with Other_fault, False)
             | (d, z, Inr x) \<Rightarrow>
                 (let db' = fst (settle z db d); v' = snd (settle z db d) in
                  case check_size cfg (stats_after e k) of
                    None \<Rightarrow> (db', v', runs + 1, Answered x, False)
                  | Some Size_reached \<Rightarrow> (db', v', runs + 1, Failed_with Size_reached, True)
                  | Some y \<Rightarrow> run_attempts cfg e f (Suc k) n (reopens e k) db' db' (runs + 1))))"

definition run_operation :: "config \<Rightarrow> db_env \<Rightarrow> ('db, 'a) operation \<Rightarrow> 'db \<Rightarrow> 'db \<Rightarrow> 'db \<times> 'db \<times> nat \<times> 'a db_answer \<times> bool" where
  "run_operation cfg e f db v = run_attempts cfg e f 0 (nat (DB_REOPEN_RETRY_COUNT cfg + 1)) True db v 0"

section \<open>The worker\<close>

text \<open>\<open>None\<close> in the queue is the item of \<open>close\<close>; \<open>holders\<close> are the callers that hold a slot of the
  semaphore, \<open>calls\<close> the operations that were queued.\<close>

record ('db, 'a) db_worker =
  tables :: 'db
  seen :: 'db
  waiting :: "(nat \<times> ('db, 'a) operation) option list"
  holders :: "nat list"
  died :: bool
  closed :: bool
  calls :: "nat list"
  answers :: "(nat \<times> 'a db_answer) list"

definition new_worker :: "'db \<Rightarrow> ('db, 'a) db_worker" where
  "new_worker db = \<lparr>tables = db, seen = db, waiting = [], holders = [], died = False, closed = False, calls = [], answers = []\<rparr>"

text \<open>\<open>call\<close>: its two tests, then, once a slot is free (\<open>None\<close> waits for one), the queue. \<open>False\<close> is \<open>StorageError\<close>.\<close>

definition enqueue_call :: "config \<Rightarrow> nat \<Rightarrow> ('db, 'a) operation \<Rightarrow> ('db, 'a) db_worker \<Rightarrow> (('db, 'a) db_worker \<times> bool) option" where
  "enqueue_call cfg i f w =
     (if DB_QUEUE_SIZE cfg \<le> int (length (holders w)) then None
      else if DB_QUEUE_SIZE cfg \<le> int (length (waiting w)) then Some (w, False)
      else Some (w\<lparr>waiting := waiting w @ [Some (i, f)], holders := holders w @ [i], calls := calls w @ [i]\<rparr>, True))"

definition submit_call :: "config \<Rightarrow> nat \<Rightarrow> ('db, 'a) operation \<Rightarrow> ('db, 'a) db_worker \<Rightarrow> (('db, 'a) db_worker \<times> bool) option" where
  "submit_call cfg i f w = (if died w \<or> closed w then Some (w, False) else enqueue_call cfg i f w)"

definition submit_close :: "config \<Rightarrow> ('db, 'a) db_worker \<Rightarrow> (('db, 'a) db_worker \<times> bool) option" where
  "submit_close cfg w =
     (if closed w then Some (w, True)
      else if DB_QUEUE_SIZE cfg \<le> int (length (holders w)) then None
      else if DB_QUEUE_SIZE cfg \<le> int (length (waiting w)) then Some (w, False)
      else Some (w\<lparr>waiting := waiting w @ [None]\<rparr>, True))"

text \<open>The end of the thread: the pending changes are committed and it is marked as stopped.\<close>

definition stop_worker :: "db_env \<Rightarrow> ('db, 'a) db_worker \<Rightarrow> ('db, 'a) db_worker" where
  "stop_worker e w = w\<lparr>tables := (if last_commits e then seen w else tables w), closed := True\<rparr>"

definition serve_operation :: "config \<Rightarrow> db_env \<Rightarrow> ('db, 'a) db_worker \<Rightarrow> ('db, 'a) db_worker" where
  "serve_operation cfg e w =
     (case waiting w of
        [] \<Rightarrow> w
      | None # rest \<Rightarrow> stop_worker e (w\<lparr>waiting := rest\<rparr>)
      | Some (i, f) # rest \<Rightarrow>
          (case run_operation cfg e f (tables w) (seen w) of
             (db', v', runs, r, dies) \<Rightarrow>
               (let w' = w\<lparr>tables := db', seen := v', waiting := rest, answers := answers w @ [(i, r)], died := dies\<rparr>
                in if dies then stop_worker e w' else w')))"

text \<open>A caller that waited for a slot is past the tests; a holder releases its slot when its
  future is done or it is cancelled.\<close>

datatype worker_op = Called nat bool | Woken nat bool | Close_asked bool | Released nat | Ran

inductive db_worker_step :: "config \<Rightarrow> ('db, 'a) db_worker \<Rightarrow> worker_op \<Rightarrow> ('db, 'a) db_worker \<Rightarrow> bool" for cfg where
  called: "submit_call cfg i f w = Some (w', ok) \<Longrightarrow> db_worker_step cfg w (Called i ok) w'"
| woken: "enqueue_call cfg i f w = Some (w', ok) \<Longrightarrow> db_worker_step cfg w (Woken i ok) w'"
| close_asked: "submit_close cfg w = Some (w', ok) \<Longrightarrow> db_worker_step cfg w (Close_asked ok) w'"
| released: "i \<in> set (holders w) \<Longrightarrow> db_worker_step cfg w (Released i) (w\<lparr>holders := remove1 i (holders w)\<rparr>)"
| ran: "\<not> closed w \<Longrightarrow> waiting w \<noteq> [] \<Longrightarrow> db_worker_step cfg w Ran (serve_operation cfg e w)"

inductive_cases db_worker_stepE: "db_worker_step cfg w x w'"

section \<open>What an operation gets\<close>

lemma check_size_cases: "check_size cfg ss \<in> {None, Some Size_reached, Some Io_fault}"
  by (simp add: check_size_def split: option.split)

text \<open>An attempt ends the operation or hands over to the next.\<close>

lemma attempt_cases:
  obtains (full) "run_attempts cfg e f k (Suc n) isopen db v runs = (db, v, runs, Failed_with Size_reached, True)"
  | (retried) "run_attempts cfg e f k (Suc n) isopen db v runs = run_attempts cfg e f (Suc k) n (reopens e k) db db runs"
  | (raised) d z where "f v = (d, z, Inl ())"
      "run_attempts cfg e f k (Suc n) isopen db v runs = (fst (settle z db d), snd (settle z db d), runs, Failed_with Other_fault, False)"
  | (returned) d z x where "f v = (d, z, Inr x)"
      "run_attempts cfg e f k (Suc n) isopen db v runs = (fst (settle z db d), snd (settle z db d), runs + 1, Answered x, False)
       \<or> run_attempts cfg e f k (Suc n) isopen db v runs =
           (fst (settle z db d), snd (settle z db d), runs + 1, Failed_with Size_reached, True)"
  | (again) d z x where "f v = (d, z, Inr x)" "check_size cfg (stats_after e k) = Some Io_fault"
      "run_attempts cfg e f k (Suc n) isopen db v runs =
         run_attempts cfg e f (Suc k) n (reopens e k) (fst (settle z db d)) (fst (settle z db d)) (runs + 1)"
proof -
  obtain d z y where f: "f v = (d, z, y)" by (metis prod_cases3)
  show thesis
  proof (cases "check_size cfg (stats_before e k) = None \<and> isopen \<and> \<not> statement_fails e k")
    case False
    with check_size_cases [of cfg "stats_before e k"] that(1,2) show thesis by auto
  next
    case True
    show thesis
    proof (cases y)
      case (Inl u)
      with True f that(3) show thesis by simp
    next
      case (Inr x)
      with True f check_size_cases [of cfg "stats_after e k"] that(4,5) show thesis by (auto simp: Let_def)
    qed
  qed
qed


lemma attempts_result:
  assumes "run_attempts cfg e f k n isopen db v runs = (db', v', runs', r, dies)"
  shows "runs \<le> runs' \<and> runs' \<le> runs + n
    \<and> (dies \<longleftrightarrow> (r = Failed_with Size_reached \<or> r = Failed_with Io_fault))
    \<and> (\<forall>x. r = Answered x \<longrightarrow> runs < runs' \<and> (\<exists>u d z db0. f u = (d, z, Inr x) \<and> (db', v') = settle z db0 d))
    \<and> (runs' = runs \<and> r \<noteq> Failed_with Other_fault \<longrightarrow> db' = db)"
  using assms
proof (induction n arbitrary: k isopen db v runs)
  case 0
  then show ?case by auto
next
  case (Suc n)
  show ?case
  proof (cases rule: attempt_cases [of cfg e f k n isopen db v runs])
    case full
    with Suc.prems show ?thesis by simp
  next
    case retried
    from Suc.IH [OF Suc.prems [unfolded retried]] show ?thesis by auto
  next
    case (raised d z)
    with Suc.prems show ?thesis by auto
  next
    case (returned d z x)
    with Suc.prems have "runs' = runs + 1" "db' = fst (settle z db d)" "v' = snd (settle z db d)"
      "r = Answered x \<and> \<not> dies \<or> r = Failed_with Size_reached \<and> dies" by auto
    moreover have "(db', v') = settle z db d" using calculation by simp
    ultimately show ?thesis using returned(1) by auto
  next
    case (again d z x)
    from Suc.IH [OF Suc.prems [unfolded again]] show ?thesis by auto
  qed
qed

text \<open>Without a failure of the check after it, an operation returns at most once.\<close>

lemma attempts_once:
  assumes "run_attempts cfg e f k n isopen db v runs = (db', v', runs', r, dies)"
    and "\<forall>j. check_size cfg (stats_after e j) \<noteq> Some Io_fault"
  shows "runs' \<le> runs + 1 \<and> (runs' = runs + 1 \<longrightarrow>
    (\<exists>u d z x. u \<in> {v, db} \<and> f u = (d, z, Inr x) \<and> db' = fst (settle z db d) \<and> (r = Answered x \<or> r = Failed_with Size_reached)))"
  using assms(1)
proof (induction n arbitrary: k isopen v)
  case 0
  then show ?case by auto
next
  case (Suc n)
  show ?case
  proof (cases rule: attempt_cases [of cfg e f k n isopen db v runs])
    case full
    with Suc.prems show ?thesis by simp
  next
    case retried
    from Suc.IH [OF Suc.prems [unfolded retried]] show ?thesis by auto
  next
    case (raised d z)
    with Suc.prems show ?thesis by auto
  next
    case (returned d z x)
    with Suc.prems have "runs' = runs + 1" "db' = fst (settle z db d)" "r = Answered x \<or> r = Failed_with Size_reached" by auto
    with returned(1) show ?thesis by blast
  next
    case again
    with assms(2) show ?thesis by blast
  qed
qed


text \<open>C40. What becomes of an operation: it is tried at most one more time than the configured
  retries; the worker dies exactly when the size limit or a persistent I/O error ends it; an
  answer is the result of an execution whose changes are the tables as they are now; without an
  execution that returned (or raised an exception of its own) nothing is committed; and it returns at most once, unless the
  size check after it itself fails, after which the code runs a committed operation again.\<close>

theorem operation_outcome:
  assumes "run_operation cfg e f db v = (db', v', runs, r, dies)" and "0 \<le> DB_REOPEN_RETRY_COUNT cfg"
  shows "int runs \<le> DB_REOPEN_RETRY_COUNT cfg + 1
    \<and> (dies \<longleftrightarrow> r \<in> {Failed_with Size_reached, Failed_with Io_fault})
    \<and> (\<forall>x. r = Answered x \<longrightarrow> 0 < runs \<and> (\<exists>u d z db0. f u = (d, z, Inr x) \<and> (db', v') = settle z db0 d))
    \<and> (runs = 0 \<and> r \<noteq> Failed_with Other_fault \<longrightarrow> db' = db)
    \<and> ((\<forall>j. check_size cfg (stats_after e j) \<noteq> Some Io_fault) \<longrightarrow>
         runs \<le> 1 \<and> (runs = 1 \<longrightarrow> (\<exists>u d z x. u \<in> {v, db} \<and> f u = (d, z, Inr x) \<and> db' = fst (settle z db d)
           \<and> r \<in> {Answered x, Failed_with Size_reached})))"
proof -
  note run = assms(1) [unfolded run_operation_def]
  from attempts_result [OF run] assms(2)
  have "int runs \<le> DB_REOPEN_RETRY_COUNT cfg + 1 \<and> (dies \<longleftrightarrow> r \<in> {Failed_with Size_reached, Failed_with Io_fault})
    \<and> (\<forall>x. r = Answered x \<longrightarrow> 0 < runs \<and> (\<exists>u d z db0. f u = (d, z, Inr x) \<and> (db', v') = settle z db0 d))
    \<and> (runs = 0 \<and> r \<noteq> Failed_with Other_fault \<longrightarrow> db' = db)" by auto
  with attempts_once [OF run] show ?thesis by (simp only: insert_iff singleton_iff) auto
qed

text \<open>The second execution of a committed operation: \<open>mark_fetching\<close> counts the attempt twice when
  the \<open>stat\<close> after its commit fails once.\<close>

definition flaky_stat :: db_env where
  "flaky_stat = \<lparr>stats_before = (\<lambda>k. []), stats_after = (\<lambda>k. if k = 0 then [Stat_failed] else []),
     statement_fails = (\<lambda>k. False), reopens = (\<lambda>k. True), last_commits = True\<rparr>"

definition fetching_operation :: "string \<Rightarrow> int \<Rightarrow> (database, bool) operation" where
  "fetching_operation k now db = (case mark_fetching k now db of (db', marked) \<Rightarrow> (db', Committed, Inr marked))"

lemma default_sizes: "check_size default_config [] = None" "check_size default_config [Stat_failed] = Some Io_fault"
  by (simp_all add: check_size_def default_config_def)

lemma flaky_attempts:
  assumes "f db = (db1, Committed, Inr x)" and "f db1 = (db2, Committed, Inr y)"
  shows "run_operation default_config flaky_stat f db db = (db2, db2, 2, Answered y, False)"
proof -
  have "nat (DB_REOPEN_RETRY_COUNT default_config + 1) = Suc (Suc 4)" by (simp add: default_config_def)
  then show ?thesis using assms unfolding run_operation_def
    by (simp only: run_attempts.simps(2)) (simp add: flaky_stat_def default_sizes)
qed

definition fresh_row :: candidate_row where
  "fresh_row = \<lparr>row_state = New, first_seen = 1, last_seen = 1, attempts = 0, last_attempt = None, next_attempt_at = None,
     last_error = None, row_uid = None\<rparr>"

lemma fetching_fresh:
  assumes "candidate_rows db = [(k, row)]" and "row_state row \<noteq> Complete" and "row_state row \<noteq> Unsupported"
  shows "\<exists>db' row'. fetching_operation k now db = (db', Committed, Inr True) \<and> candidate_rows db' = [(k, row')]
    \<and> attempts row' = attempts row + 1 \<and> row_state row' = Fetching"
  using assms by (simp add: fetching_operation_def mark_fetching_def sql_update_def sql_rowcount_def)

lemma flaky_run:
  assumes "candidate_rows db = [(''k'', fresh_row)]"
  shows "\<exists>db'. run_operation default_config flaky_stat (fetching_operation ''k'' 5) db db = (db', db', 2, Answered True, False)
    \<and> (\<exists>row. candidate_rows db' = [(''k'', row)] \<and> attempts row = 2)"
proof -
  obtain db1 row1 where 1: "fetching_operation ''k'' 5 db = (db1, Committed, Inr True)" "candidate_rows db1 = [(''k'', row1)]"
    "attempts row1 = 1" "row_state row1 = Fetching"
    using fetching_fresh [OF assms, of 5] by (auto simp: fresh_row_def)
  obtain db2 row2 where "fetching_operation ''k'' 5 db1 = (db2, Committed, Inr True)" "candidate_rows db2 = [(''k'', row2)]"
    "attempts row2 = 2" using fetching_fresh [OF 1(2), of 5] 1(3,4) by auto
  with flaky_attempts [where f = "fetching_operation ''k'' 5", OF 1(1)] show ?thesis by blast
qed

lemma operation_outcome_witness:
  "run_operation default_config flaky_stat (\<lambda>n. (n + 1, Committed, Inr n)) (0::nat) 0 = (2, 2, 2, Answered 1, False)
     \<and> int 2 \<le> DB_REOPEN_RETRY_COUNT default_config + 1"
proof -
  have run: "run_operation default_config flaky_stat (\<lambda>n. (n + 1, Committed, Inr n)) (0::nat) 0 = (2, 2, 2, Answered 1, False)"
    by (rule flaky_attempts) simp_all
  have "0 \<le> DB_REOPEN_RETRY_COUNT default_config" by (simp add: default_config_def)
  from operation_outcome [OF run this] run show ?thesis by blast
qed


section \<open>The worker answers in order\<close>

definition ends_worker :: "'a db_answer \<Rightarrow> bool" where
  "ends_worker r \<longleftrightarrow> r = Failed_with Size_reached \<or> r = Failed_with Io_fault"

definition waiting_calls :: "('db, 'a) db_worker \<Rightarrow> nat list" where
  "waiting_calls w = concat (map (\<lambda>x. case x of None \<Rightarrow> [] | Some (i, f) \<Rightarrow> [i]) (waiting w))"

definition worker_inv :: "config \<Rightarrow> ('db, 'a) db_worker \<Rightarrow> bool" where
  "worker_inv cfg w \<longleftrightarrow>
     calls w = map fst (answers w) @ waiting_calls w \<and> (died w \<longrightarrow> closed w)
     \<and> int (length (waiting w)) \<le> max 0 (DB_QUEUE_SIZE cfg) \<and> int (length (holders w)) \<le> max 0 (DB_QUEUE_SIZE cfg)
     \<and> (died w \<longleftrightarrow> answers w \<noteq> [] \<and> ends_worker (snd (last (answers w))))
     \<and> (\<forall>x \<in> set (butlast (answers w)). \<not> ends_worker (snd x))"

lemma unfinished_answers:
  "worker_inv cfg w \<Longrightarrow> \<not> died w \<Longrightarrow> \<forall>y \<in> set (answers w). \<not> ends_worker (snd y)"
  by (cases "answers w" rule: rev_cases) (auto simp: worker_inv_def)

lemma serve_operation_inv:
  assumes inv: "worker_inv cfg w" and run: "\<not> closed w" and x: "waiting w = x # rest"
  shows "worker_inv cfg (serve_operation cfg e w)"
proof (cases x)
  case None
  with inv run x show ?thesis by (auto simp: worker_inv_def serve_operation_def stop_worker_def waiting_calls_def)
next
  case (Some c)
  obtain i f where c: "c = (i, f)" by fastforce
  obtain db' v' runs r dies where o: "run_operation cfg e f (tables w) (seen w) = (db', v', runs, r, dies)" by (metis prod_cases5)
  have d: "dies \<longleftrightarrow> ends_worker r"
    using attempts_result [OF o [unfolded run_operation_def]] by (simp add: ends_worker_def)
  have "\<forall>y \<in> set (answers w). \<not> ends_worker (snd y)"
    using unfinished_answers [OF inv] inv run by (auto simp: worker_inv_def)
  with inv x o d Some c show ?thesis by (auto simp: worker_inv_def serve_operation_def stop_worker_def waiting_calls_def Let_def)
qed

lemma enqueue_call_inv:
  assumes "worker_inv cfg w" and "enqueue_call cfg i f w = Some (w', ok)"
  shows "worker_inv cfg w'"
  using assms by (auto simp: worker_inv_def enqueue_call_def waiting_calls_def split: if_splits)

lemma worker_step_inv:
  assumes inv: "worker_inv cfg w" and step: "db_worker_step cfg w e w'"
  shows "worker_inv cfg w'"
  using step
proof cases
  case (called i f ok)
  with inv enqueue_call_inv show ?thesis by (auto simp: submit_call_def split: if_splits)
next
  case (woken i f ok)
  with inv enqueue_call_inv show ?thesis by blast
next
  case (close_asked ok)
  with inv show ?thesis by (auto simp: worker_inv_def submit_close_def waiting_calls_def split: if_splits)
next
  case (released i)
  with inv show ?thesis by (auto simp: worker_inv_def waiting_calls_def length_remove1)
next
  case (ran ev)
  then obtain x rest where "waiting w = x # rest" by (cases "waiting w") auto
  with inv ran serve_operation_inv show ?thesis by blast
qed

definition worker_init :: "('db, 'a) db_worker \<Rightarrow> bool" where
  "worker_init w \<longleftrightarrow> (\<exists>db. w = new_worker db)"

interpretation db_workers: machine_invariant worker_init "db_worker_step cfg" "worker_inv cfg" for cfg
proof
  show "worker_inv cfg w" if "worker_init w" for w
    using that by (auto simp: worker_init_def worker_inv_def new_worker_def waiting_calls_def)
qed (rule worker_step_inv)

text \<open>Every queued call is answered or waits, in the order of the calls; nothing is answered after
  the answer the worker died with.\<close>

lemma calls_in_order:
  assumes "reachable worker_init (db_worker_step cfg) w"
  shows "calls w = map fst (answers w) @ waiting_calls w
    \<and> (\<forall>x \<in> set (butlast (answers w)). \<not> ends_worker (snd x))
    \<and> (died w \<longrightarrow> answers w \<noteq> [] \<and> ends_worker (snd (last (answers w))))"
  using db_workers.reachable_inv [OF assms] by (simp add: worker_inv_def)

text \<open>Once the thread has stopped, what is still queued is never answered: its callers wait for ever.\<close>

lemma closed_never_answers:
  assumes "closed w" and "db_worker_step cfg w e w'"
  shows "closed w' \<and> answers w' = answers w \<and> (\<exists>more. waiting w' = waiting w @ more)"
  using assms(2)
  by (cases rule: db_worker_stepE)
    (use assms(1) in \<open>auto simp: submit_call_def enqueue_call_def submit_close_def split: if_splits\<close>)

end
