(* ===== verification/Session.thy ===== *)
theory Session
  imports Peer_Wire_Correct Snapshot Crawl
begin

text \<open>
  \<open>PeerClient.fetch_metadata\<close> of \<open>includes/peer.py\<close> around the exchange of \<open>Peer_Wire\<close>: connecting,
  the failures of the connection in each stage, the time limits, and how both are turned into
  \<open>PeerError\<close>s and into the record of the session's end. A connection is what the peer sends until
  something ends it. The theorem: every session ends in one of a fixed list of ways, and its
  record says which.
\<close>

section \<open>Connections\<close>

text \<open>What ends a wait: a time limit of the stage, the end of the stream, a connection error, the
  deadline of the session, or the cancellation of the worker.\<close>

datatype io_failure = Stage_timeout | End_of_stream | Connection_error | Session_deadline | Cancellation

record link =
  connects :: "io_failure option"
  received :: bytes
  breaks :: io_failure

datatype session_exn = Peer_failure string string | Cancelled_error | Deadline_error | Other_error pyexn

text \<open>The \<open>except\<close> clauses of \<open>_fetch\<close>. The deadline cancels the task, so it passes here as a
  cancellation that \<open>asyncio.timeout\<close> turns into \<open>TimeoutError\<close> outside.\<close>

definition stage_failure :: "string \<Rightarrow> io_failure \<Rightarrow> session_exn" where
  "stage_failure stage x =
     (case x of
        Cancellation \<Rightarrow> Cancelled_error
      | Session_deadline \<Rightarrow> Deadline_error
      | Stage_timeout \<Rightarrow>
          if stage = ''connect'' then Peer_failure ''connect_timeout'' stage
          else if stage \<in> {''bt_handshake'', ''extension_handshake''} then Peer_failure ''handshake_timeout'' stage
          else Peer_failure ''metadata_timeout'' stage
      | End_of_stream \<Rightarrow> Peer_failure ''peer_disconnected'' stage
      | Connection_error \<Rightarrow>
          if stage = ''connect'' then Peer_failure ''connect_failed'' stage else Peer_failure ''peer_disconnected'' stage)"

text \<open>\<open>_fetch\<close>: \<open>fetch\<close> names the stage in which the peer's bytes run out by the category
  \<open>peer_disconnected\<close>; what happens then is the link's. A write that fails is a link that breaks before
  the next read of its stage.\<close>

definition fetch_link :: "config \<Rightarrow> bytes \<Rightarrow> bytes \<Rightarrow> endpoint \<Rightarrow> link \<Rightarrow> session_exn + bytes" where
  "fetch_link cfg pid ih ep l =
     (if parse_ipv4 (fst ep) = None then Inl (Other_error (ValueError ''does not appear to be an IPv4 or IPv6 address''))
      else
        (case connects l of
           Some x \<Rightarrow> Inl (stage_failure ''connect'' x)
         | None \<Rightarrow>
             (case fetch cfg pid ih (received l) of
                Inr raw \<Rightarrow> Inr raw
              | Inl (Escaped x) \<Rightarrow> Inl (Other_error x)
              | Inl IncompleteRead \<Rightarrow> Inl (stage_failure ''metadata'' (breaks l))
              | Inl (PeerError c stage) \<Rightarrow>
                  if c = ''peer_disconnected'' then Inl (stage_failure stage (breaks l))
                  else Inl (Peer_failure c stage))))"

section \<open>The end of a session\<close>

text \<open>\<open>_failure\<close> and the record of a success; the times are in milliseconds.\<close>

definition failure_record :: "config \<Rightarrow> string \<Rightarrow> endpoint \<Rightarrow> string \<Rightarrow> string \<Rightarrow> string \<Rightarrow> string \<Rightarrow> jrecord" where
  "failure_record cfg session ep key_text category detail stage =
     [(''record_type'', JStr ''peer''), (''event'', JStr ''metadata_failure''), (''peer_session_id'', JStr session),
      (''dht_key'', JStr key_text), (''remote_ip'', JStr (text_string (fst ep))), (''remote_port'', JInt (snd ep)),
      (''hash_valid'', if category = ''metadata_hash_mismatch'' then JBool False else JNull),
      (''failure_category'', JStr category), (''failure_stage'', JStr stage),
      (''detail'', JStr (take (nat (MAX_EVIDENCE_TEXT_LENGTH cfg)) detail))]"

definition success_record :: "string \<Rightarrow> endpoint \<Rightarrow> string \<Rightarrow> string \<Rightarrow> nat \<Rightarrow> int \<Rightarrow> int \<Rightarrow> jrecord" where
  "success_record session ep key_text uid len connect_ms transfer_ms =
     [(''record_type'', JStr ''peer''), (''event'', JStr ''metadata_success''), (''peer_session_id'', JStr session),
      (''dht_key'', JStr key_text), (''torrent_uid'', JStr uid), (''remote_ip'', JStr (text_string (fst ep))),
      (''remote_port'', JInt (snd ep)), (''metadata_size'', JInt (int len)), (''connect_ms'', JFinite connect_ms),
      (''transfer_ms'', JFinite transfer_ms), (''hash_valid'', JBool True)]"

record session_env =
  ss_session :: string
  ss_link :: link
  ss_detail :: "session_exn \<Rightarrow> string"
  ss_connect_ms :: int
  ss_transfer_ms :: int

text \<open>\<open>fetch_metadata\<close>: the records of the session's end and what it returns or raises.\<close>

definition fetch_metadata :: "config \<Rightarrow> bytes \<Rightarrow> session_env \<Rightarrow> endpoint \<Rightarrow> bytes \<Rightarrow> jrecord list \<times> (session_exn + bytes)" where
  "fetch_metadata cfg pid e ep ih =
     (case dht_key_text ih of
        Inl x \<Rightarrow> ([], Inl (Other_error x))
      | Inr key_text \<Rightarrow>
          (case fetch_link cfg pid ih ep (ss_link e) of
             Inr raw \<Rightarrow>
               ([success_record (ss_session e) ep key_text (''btih:'' @ hex ih) (length raw) (ss_connect_ms e) (ss_transfer_ms e)],
                Inr raw)
           | Inl Deadline_error \<Rightarrow>
               ([failure_record cfg (ss_session e) ep key_text ''session_timeout'' ''peer session deadline exceeded'' ''session''],
                Inl (Peer_failure ''session_timeout'' ''session''))
           | Inl (Peer_failure c stage) \<Rightarrow>
               ([failure_record cfg (ss_session e) ep key_text c (ss_detail e (Peer_failure c stage)) stage],
                Inl (Peer_failure c stage))
           | Inl Cancelled_error \<Rightarrow> ([], Inl Cancelled_error)
           | Inl (Other_error x) \<Rightarrow> ([], Inl (Other_error x))))"

text \<open>The clauses of \<open>fetch_metadata\<close> for I/O errors and for \<open>BencodeError\<close> are never reached: \<open>_fetch\<close>
  and the parsers turn these into \<open>PeerError\<close>s first.\<close>

section \<open>The ways a session ends\<close>

definition exchange_failures :: "(string \<times> string) list" where
  "exchange_failures =
     [(''handshake_invalid'', ''bt_handshake''), (''peer_disconnected'', ''bt_handshake''),
      (''extension_unsupported'', ''extension_handshake''), (''extension_handshake_invalid'', ''extension_handshake''),
      (''ut_metadata_unavailable'', ''extension_handshake''), (''peer_disconnected'', ''extension_handshake''),
      (''metadata_invalid'', ''metadata''), (''metadata_rejected'', ''metadata''), (''ut_metadata_unavailable'', ''metadata''),
      (''metadata_hash_mismatch'', ''metadata''), (''peer_disconnected'', ''metadata'')]"

text \<open>A part of the exchange fails only in these ways (or the input ends, or another exception escapes).\<close>

definition proper :: "peer_exn + 'a \<Rightarrow> bool" where
  "proper r \<longleftrightarrow> (\<forall>c stage. r = Inl (PeerError c stage) \<longrightarrow> (c, stage) \<in> set exchange_failures)"

lemma proper_simps [simp]:
  "proper (Inr x)" "proper (Inl IncompleteRead)" "proper (Inl (Escaped y))"
  "proper (Inl (PeerError c stage)) \<longleftrightarrow> (c, stage) \<in> set exchange_failures"
  "proper (map_exn Escaped r)"
  by (auto simp: proper_def) (cases r; simp)

lemma proper_bind: "proper m \<Longrightarrow> (\<And>x. m = Inr x \<Longrightarrow> proper (f x)) \<Longrightarrow> proper (bind_r m f)"
  by (cases m) (auto simp: proper_def)

lemma proper_bencode:
  "(c, stage) \<in> set exchange_failures \<Longrightarrow> proper (map_exn (bencode_exn c stage) r)"
  by (cases r) (auto simp: proper_def bencode_exn_def split: decode_exn.splits)

lemma proper_in_stage:
  "proper r \<Longrightarrow> stage \<in> {''bt_handshake'', ''extension_handshake'', ''metadata''} \<Longrightarrow> proper (in_stage stage r)"
  by (cases r) (auto simp: proper_def in_stage_def exchange_failures_def split: if_splits)

lemma parse_extension_proper: "proper (parse_extension_handshake cfg payload)"
  unfolding parse_extension_handshake_def
  by (intro proper_bind proper_bencode) (auto simp: exchange_failures_def Let_def split: pyval.split)

lemma parse_message_proper: "proper (parse_metadata_message cfg payload msize n)"
proof -
  have "proper (check_metadata_header d t msize n)" for d t
    unfolding check_metadata_header_def
    by (intro proper_bind) (auto simp: msg_type_ok_def exchange_failures_def split: option.split pyval.split)
  then show ?thesis unfolding parse_metadata_message_def
    by (intro proper_bind proper_bencode) (auto simp: exchange_failures_def split: prod.split pyval.split)
qed

lemma fill_pipeline_proper: "proper (fill_pipeline n limit d)"
proof (induction n limit d rule: fill_pipeline.induct)
  case (1 n limit d)
  show ?case
    by (subst fill_pipeline.simps) (use 1 in \<open>auto intro!: proper_bind\<close>)
qed

lemma handle_body_proper: "proper (handle_body cfg msize n limit body d)"
proof -
  have "proper (handle_metadata n limit h t d)" for h t
    by (auto simp: handle_metadata_def exchange_failures_def fill_pipeline_proper intro!: proper_bind
        split: option.split pyval.split)
  then show ?thesis unfolding handle_body_def
    by (auto simp: Let_def exchange_failures_def parse_extension_proper parse_message_proper intro!: proper_bind
        split: option.split prod.split)
qed

lemma download_loop_proper: "proper (download_loop cfg msize n limit inp d)"
proof (induction cfg msize n limit inp d rule: download_loop.induct)
  case (1 cfg msize n limit inp d)
  show ?case
    by (subst download_loop.simps)
      (use 1 in \<open>auto simp: Let_def exchange_failures_def handle_body_proper intro!: proper_bind\<close>)
qed

lemma wait_extension_proper: "proper (wait_extension_handshake cfg inp)"
proof (induction cfg inp rule: wait_extension_handshake.induct)
  case (1 cfg inp)
  show ?case
    by (subst wait_extension_handshake.simps)
      (use 1 in \<open>auto simp: Let_def exchange_failures_def parse_extension_proper intro!: proper_bind\<close>)
qed

lemma download_proper: "proper (download_metadata cfg ext msize asked inp)"
  unfolding download_metadata_def
  by (auto simp: Let_def exchange_failures_def fill_pipeline_proper download_loop_proper intro!: proper_bind)

lemma fetch_proper: "proper (fetch cfg pid ih inp)"
proof -
  have "proper (metadata_stage cfg ih h rest)" for h rest
    unfolding metadata_stage_def
    by (auto simp: exchange_failures_def intro!: proper_bind proper_in_stage download_proper split: option.split prod.split)
  moreover have "proper (if length inp < BT_HANDSHAKE_BYTES then Inl IncompleteRead else parse_handshake (take BT_HANDSHAKE_BYTES inp) ih)"
    by (auto simp: parse_handshake_def exchange_failures_def)
  ultimately show ?thesis unfolding fetch_def
    by (intro proper_bind proper_in_stage wait_extension_proper)
      (auto simp: exchange_failures_def intro!: proper_bind proper_in_stage wait_extension_proper split: prod.split)
qed


definition session_failures :: "(string \<times> string) list" where
  "session_failures =
     exchange_failures @
     [(''connect_timeout'', ''connect''), (''connect_failed'', ''connect''), (''peer_disconnected'', ''connect''),
      (''handshake_timeout'', ''bt_handshake''), (''handshake_timeout'', ''extension_handshake''),
      (''metadata_timeout'', ''metadata''), (''session_timeout'', ''session'')]"

lemma stage_failure_named:
  assumes "stage_failure stage x = Peer_failure c stage'"
    and "stage \<in> {''connect'', ''bt_handshake'', ''extension_handshake'', ''metadata''}"
  shows "(c, stage') \<in> set session_failures"
  using assms by (cases x) (auto simp: stage_failure_def session_failures_def exchange_failures_def split: if_splits)

lemma disconnected_stage:
  "(''peer_disconnected'', stage) \<in> set exchange_failures \<Longrightarrow>
     stage \<in> {''connect'', ''bt_handshake'', ''extension_handshake'', ''metadata''}"
  by (auto simp: exchange_failures_def)

lemma stage_failure_simps [simp]:
  "stage_failure stage x = Cancelled_error \<longleftrightarrow> x = Cancellation"
  "stage_failure stage x = Deadline_error \<longleftrightarrow> x = Session_deadline"
  "stage_failure stage x \<noteq> Other_error y"
  by (cases x; simp add: stage_failure_def)+

text \<open>What \<open>_fetch\<close> raises.\<close>

lemma fetch_link_failure:
  assumes "fetch_link cfg pid ih ep l = Inl x"
  shows "case x of
      Peer_failure c stage \<Rightarrow> (c, stage) \<in> set session_failures
    | Cancelled_error \<Rightarrow> connects l = Some Cancellation \<or> breaks l = Cancellation
    | Deadline_error \<Rightarrow> connects l = Some Session_deadline \<or> breaks l = Session_deadline
    | Other_error y \<Rightarrow> parse_ipv4 (fst ep) = None \<or> fetch cfg pid ih (received l) = Inl (Escaped y)"
proof (cases "parse_ipv4 (fst ep) = None")
  case False
  show ?thesis
  proof (cases "connects l")
    case (Some y)
    with False assms have "x = stage_failure ''connect'' y" by (auto simp: fetch_link_def)
    with Some stage_failure_named [of "''connect''" y] show ?thesis by (auto split: session_exn.split)
  next
    case None
    from False None assms fetch_proper [of cfg pid ih "received l"]
    consider stage where "x = stage_failure stage (breaks l)" "stage \<in> {''connect'', ''bt_handshake'', ''extension_handshake'', ''metadata''}"
      | c stage where "x = Peer_failure c stage" "(c, stage) \<in> set exchange_failures"
      | y where "x = Other_error y" "fetch cfg pid ih (received l) = Inl (Escaped y)"
      by (auto simp: fetch_link_def dest: disconnected_stage split: sum.splits peer_exn.splits if_splits)
    then show ?thesis
    proof cases
      case 1
      with stage_failure_named [of _ "breaks l"] show ?thesis by (auto split: session_exn.split)
    qed (simp_all add: session_failures_def)
  qed
qed (use assms in \<open>auto simp: fetch_link_def\<close>)


definition example_env :: session_env where
  "example_env = \<lparr>ss_session = ''s'', ss_link = \<lparr>connects = None, received = example_session, breaks = End_of_stream\<rparr>,
     ss_detail = (\<lambda>x. []), ss_connect_ms = 1, ss_transfer_ms = 1\<rparr>"


end
