(* ===== verification/Search.thy ===== *)
theory Search
  imports Storage
begin

text \<open>
  \<open>DatabaseWorker.search\<close> of \<open>includes/storage.py\<close>: the torrents whose name or a path of which is
  \<open>LIKE\<close> the text, most recently seen first. The lemmas: a text without wildcards is found exactly
  where it occurs, up to the case of ASCII letters, and the answer is a bounded, ordered
  selection of the matching torrents.
\<close>

section \<open>LIKE\<close>

definition fold_ascii :: "nat \<Rightarrow> nat" where
  "fold_ascii c = (if 65 \<le> c \<and> c \<le> 90 then c + 32 else c)"

text \<open>SQLite's \<open>LIKE\<close>, on texts without NUL: \<open>%\<close> (37) is any text, \<open>_\<close> (95) any character.\<close>

fun like :: "ustr \<Rightarrow> ustr \<Rightarrow> bool" where
  "like [] t \<longleftrightarrow> t = []"
| "like (p # ps) t \<longleftrightarrow>
     (if p = 37 then list_ex (like ps) (suffixes t)
      else (case t of [] \<Rightarrow> False | c # cs \<Rightarrow> (p = 95 \<or> fold_ascii p = fold_ascii c) \<and> like ps cs))"

section \<open>The search\<close>

record found_torrent =
  ft_uid :: string
  ft_name :: "ustr option"
  ft_total_size :: int
  ft_file_count :: int
  ft_last_seen :: int

definition found_row :: "string \<times> torrent_row \<Rightarrow> found_torrent" where
  "found_row r =
     (case r of (uid, t) \<Rightarrow>
        \<lparr>ft_uid = uid, ft_name = tr_name t, ft_total_size = tr_total_size t, ft_file_count = tr_file_count t,
         ft_last_seen = tr_last_seen t\<rparr>)"

text \<open>The \<open>LEFT JOIN\<close>: the torrent's row matches by its name, or by one of its files; \<open>DISTINCT\<close> keeps
  one copy of each torrent, since its key is selected.\<close>

definition row_matches :: "ustr \<Rightarrow> database \<Rightarrow> string \<times> torrent_row \<Rightarrow> bool" where
  "row_matches pat db r \<longleftrightarrow>
     (case tr_name (snd r) of None \<Rightarrow> False | Some t \<Rightarrow> like pat t)
     \<or> list_ex (\<lambda>((uid, i), path, sz). uid = fst r \<and> like pat path) (file_rows db)"

text \<open>Rows seen at the same time stay in table order; a negative limit is none.\<close>

definition search :: "config \<Rightarrow> ustr \<Rightarrow> int option \<Rightarrow> database \<Rightarrow> found_torrent list" where
  "search cfg txt limit db =
     (let n = (case limit of None \<Rightarrow> SEARCH_RESULT_LIMIT cfg | Some l \<Rightarrow> l);
          rows = sort_key (\<lambda>r. - tr_last_seen (snd r)) (filter (row_matches ([37] @ txt @ [37]) db) (torrent_rows db))
      in map found_row (if n < 0 then rows else take (nat n) rows))"

section \<open>What is found\<close>

lemma like_any_end: "like [37] t"
  by (induction t) simp_all

lemma like_literal_prefix:
  assumes "\<forall>c \<in> set s. c \<noteq> 37 \<and> c \<noteq> 95"
  shows "like (s @ [37]) t \<longleftrightarrow> (\<exists>a b. t = a @ b \<and> map fold_ascii a = map fold_ascii s)"
  using assms
proof (induction s arbitrary: t)
  case Nil
  then show ?case using like_any_end [of t] by auto
next
  case (Cons c s)
  then have IH: "like (s @ [37]) u \<longleftrightarrow> (\<exists>a b. u = a @ b \<and> map fold_ascii a = map fold_ascii s)" for u by simp
  show ?case
  proof (cases t)
    case (Cons d u)
    have "(\<exists>a b. d # u = a @ b \<and> map fold_ascii a = fold_ascii c # map fold_ascii s)
        \<longleftrightarrow> fold_ascii c = fold_ascii d \<and> (\<exists>a b. u = a @ b \<and> map fold_ascii a = map fold_ascii s)"
      by (intro iffI; clarsimp simp: Cons_eq_append_conv map_eq_Cons_conv; metis list.simps(9))
    with Cons Cons.prems IH [of u] show ?thesis by auto
  qed (use Cons.prems in auto)
qed

text \<open>A text without wildcards matches where it occurs.\<close>

lemma like_occurs:
  assumes "\<forall>c \<in> set s. c \<noteq> 37 \<and> c \<noteq> 95"
  shows "like ([37] @ s @ [37]) t \<longleftrightarrow> (\<exists>a b c. t = a @ b @ c \<and> map fold_ascii b = map fold_ascii s)"
proof -
  have "like ([37] @ s @ [37]) t \<longleftrightarrow> (\<exists>u a. t = a @ u \<and> like (s @ [37]) u)"
    by (auto simp: list_ex_iff suffix_def)
  then show ?thesis by (auto simp: like_literal_prefix [OF assms])
qed

lemma search_sound:
  assumes "f \<in> set (search cfg txt limit db)"
  shows "\<exists>r \<in> set (torrent_rows db). f = found_row r \<and> row_matches ([37] @ txt @ [37]) db r"
  using assms unfolding search_def Let_def by (auto split: if_splits dest!: in_set_takeD)

lemma search_bounded:
  "0 \<le> n \<Longrightarrow> int (length (search cfg txt (Some n) db)) \<le> n"
  by (simp add: search_def Let_def)

lemma search_recent_first:
  "sorted_wrt (\<lambda>x y. ft_last_seen y \<le> ft_last_seen x) (search cfg txt limit db)"
proof -
  let ?rows = "sort_key (\<lambda>r. - tr_last_seen (snd r)) (filter (row_matches ([37] @ txt @ [37]) db) (torrent_rows db))"
  have "sorted_wrt (\<lambda>x y. ft_last_seen y \<le> ft_last_seen x) (map found_row ?rows)"
    using sorted_sort_key [of "\<lambda>r. - tr_last_seen (snd r)" "filter (row_matches ([37] @ txt @ [37]) db) (torrent_rows db)"]
    by (simp add: sorted_wrt_map found_row_def case_prod_beta)
  then show ?thesis
    by (auto simp: search_def Let_def take_map [symmetric] intro: sorted_wrt_take)
qed

end
