(* ===== verification/Process.thy ===== *)
theory Process
  imports Prelude "HOL-Library.Sublist"
begin

text \<open>
  The process of \<open>main.py\<close>: the loops of the tasks around their iterations, the start-up and
  the shutdown of \<open>async_main\<close>, and the exit status. What raises, hangs or finishes is an
  argument, so the definitions show the order of things and which exception ends what. The
  theorem: whatever fails, what was started is stopped, in the order of the shutdown plan.
\<close>

section \<open>The loops\<close>

text \<open>How an iteration ends: normally, or with a time-out, a cancellation or another exception; and
  how the wait for the next one ends (\<open>Elapsed\<close> is its time-out).\<close>

datatype iteration_end = Iterated | Iteration_timeout | Iteration_cancelled | Iteration_raised

datatype wait_end = Elapsed | Stop_seen | Wait_cancelled

record tick =
  stop_set :: bool
  iteration :: iteration_end
  wait :: wait_end

datatype loop_end = Running nat | Returned nat | Died nat

text \<open>The four schedulers; \<open>guarded\<close> are \<open>maintenance_scheduler\<close> and \<open>bep51_scheduler\<close>, which log other
  exceptions. The number counts the iterations begun.\<close>

fun run_scheduler :: "bool \<Rightarrow> nat \<Rightarrow> tick list \<Rightarrow> loop_end" where
  "run_scheduler guarded n [] = Running n"
| "run_scheduler guarded n (t # ts) =
     (if stop_set t then Returned n
      else
        (case iteration t of
           Iterated \<Rightarrow>
             (case wait t of
                Wait_cancelled \<Rightarrow> Returned (n + 1)
              | _ \<Rightarrow> run_scheduler guarded (n + 1) ts)
         | Iteration_timeout \<Rightarrow> run_scheduler guarded (n + 1) ts
         | Iteration_cancelled \<Rightarrow> Returned (n + 1)
         | Iteration_raised \<Rightarrow> if guarded then run_scheduler guarded (n + 1) ts else Died (n + 1)))"

text \<open>\<open>torrent_worker\<close>: an item of the queue, or the cancellation while waiting for it. It returns the
  number of \<open>task_done\<close> calls; a cancellation during the work is raised.\<close>

datatype work = No_item | Item iteration_end

fun run_worker :: "nat \<Rightarrow> (bool \<times> work) list \<Rightarrow> loop_end" where
  "run_worker n [] = Running n"
| "run_worker n ((stop, w) # ws) =
     (if stop then Returned n
      else
        (case w of
           No_item \<Rightarrow> Returned n
         | Item Iteration_cancelled \<Rightarrow> Died (n + 1)
         | Item x \<Rightarrow> run_worker (n + 1) ws))"

text \<open>\<open>fatal_monitor\<close> on its polls of \<open>stopping\<close> and the two fatal errors; the result says whether it
  set \<open>stopping\<close>, and \<open>None\<close> that it is still polling.\<close>

fun fatal_monitor :: "(bool \<times> bool \<times> bool) list \<Rightarrow> bool option" where
  "fatal_monitor [] = None"
| "fatal_monitor ((stop, db_fatal, log_fatal) # polls) =
     (if stop then Some False
      else if db_fatal \<or> log_fatal then Some True
      else fatal_monitor polls)"

section \<open>Start-up\<close>

datatype main_exn = Configuration_error | Storage_error | Os_error | Keyboard_interrupt | Other_exception

datatype start_stage = Initialize_logging | Validate_config | Ensure_paths
  | Start_db | Start_log | Load_snapshot | Build_node | Restore_contacts | Resolve_bootstrap | Prepare_telegram
  | Bind_udp | Bootstrap | Start_workers | Start_schedulers | Await_stop

definition early_stages :: "start_stage list" where
  "early_stages = [Initialize_logging, Validate_config, Ensure_paths]"

definition startup_stages :: "start_stage list" where
  "startup_stages =
     [Start_db, Start_log, Load_snapshot, Build_node, Restore_contacts, Resolve_bootstrap, Prepare_telegram,
      Bind_udp, Bootstrap, Start_workers, Start_schedulers, Await_stop]"

datatype task = Torrent_worker nat | Retry_task | Notification_task | Maintenance_task | Bep51_task | Monitor_task

record process =
  db_started :: bool
  log_started :: bool
  node_built :: bool
  udp_bound :: bool
  worker_tasks :: "task list"
  scheduler_tasks :: "task list"

definition new_process :: process where
  "new_process = \<lparr>db_started = False, log_started = False, node_built = False, udp_bound = False, worker_tasks = [], scheduler_tasks = []\<rparr>"

text \<open>What a stage leaves behind, for \<open>MAX_ACTIVE_TORRENTS\<close> workers and \<open>DHT_BEP51_ENABLED\<close>.\<close>

definition perform :: "nat \<Rightarrow> bool \<Rightarrow> start_stage \<Rightarrow> process \<Rightarrow> process" where
  "perform workers bep51 st p =
     (case st of
        Start_db \<Rightarrow> p\<lparr>db_started := True\<rparr>
      | Start_log \<Rightarrow> p\<lparr>log_started := True\<rparr>
      | Build_node \<Rightarrow> p\<lparr>node_built := True\<rparr>
      | Bind_udp \<Rightarrow> p\<lparr>udp_bound := True\<rparr>
      | Start_workers \<Rightarrow> p\<lparr>worker_tasks := map Torrent_worker [0..<workers]\<rparr>
      | Start_schedulers \<Rightarrow>
          p\<lparr>scheduler_tasks := [Retry_task, Notification_task, Maintenance_task]
             @ (if bep51 then [Bep51_task] else []) @ [Monitor_task]\<rparr>
      | _ \<Rightarrow> p)"

fun run_stages :: "nat \<Rightarrow> bool \<Rightarrow> (start_stage \<Rightarrow> main_exn option) \<Rightarrow> start_stage list \<Rightarrow> process \<Rightarrow> process \<times> main_exn option" where
  "run_stages workers bep51 fails [] p = (p, None)"
| "run_stages workers bep51 fails (st # sts) p =
     (case fails st of
        Some x \<Rightarrow> (p, Some x)
      | None \<Rightarrow> run_stages workers bep51 fails sts (perform workers bep51 st p))"

section \<open>Shutdown\<close>

datatype step = Cancel_schedulers "task list" | Close_ingress | Cancel_workers "task list"
  | Write_routing_snapshot | Flush_log | Close_db | Close_log

text \<open>The steps of the \<open>finally\<close> block that apply to what was started.\<close>

definition shutdown_steps :: "process \<Rightarrow> step list" where
  "shutdown_steps p =
     (if scheduler_tasks p \<noteq> [] then [Cancel_schedulers (scheduler_tasks p)] else [])
     @ (if udp_bound p \<and> node_built p then [Close_ingress] else [])
     @ (if worker_tasks p \<noteq> [] then [Cancel_workers (worker_tasks p)] else [])
     @ (if log_started p \<and> node_built p then [Write_routing_snapshot] else [])
     @ (if log_started p then [Flush_log] else [])
     @ (if db_started p then [Close_db] else [])
     @ (if log_started p then [Close_log] else [])"

text \<open>How a step ends; \<open>Escapes\<close> is an exception that is no \<open>Exception\<close> (a cancellation), which the
  handlers of the last four steps do not catch.\<close>

datatype step_end = Step_done | Step_raises main_exn | Escapes main_exn | Hangs

definition handled_step :: "step \<Rightarrow> bool" where
  "handled_step st \<longleftrightarrow> st \<in> {Write_routing_snapshot, Flush_log, Close_db, Close_log}"

datatype shutdown_end = Complete | Raised main_exn | Hung

fun run_shutdown :: "(step \<Rightarrow> step_end) \<Rightarrow> step list \<Rightarrow> step list \<times> shutdown_end" where
  "run_shutdown ends [] = ([], Complete)"
| "run_shutdown ends (st # sts) =
     (let go = (case run_shutdown ends sts of (begun, r) \<Rightarrow> (st # begun, r)) in
      case ends st of
        Step_done \<Rightarrow> go
      | Step_raises x \<Rightarrow> if handled_step st then go else ([st], Raised x)
      | Escapes x \<Rightarrow> ([st], Raised x)
      | Hangs \<Rightarrow> ([st], Hung))"

section \<open>The process\<close>

record process_env =
  pe_fails :: "start_stage \<Rightarrow> main_exn option"
  pe_ends :: "step \<Rightarrow> step_end"
  pe_db_fatal :: bool
  pe_log_fatal :: bool

datatype exit_outcome = Exit nat | Uncaught main_exn | Never

text \<open>\<open>async_main\<close>: the shutdown steps that were begun, and how it ends. An exception of the
  shutdown replaces that of the start-up.\<close>

definition async_main :: "nat \<Rightarrow> bool \<Rightarrow> process_env \<Rightarrow> step list \<times> exit_outcome" where
  "async_main workers bep51 e =
     (case run_stages workers bep51 (pe_fails e) early_stages new_process of
        (p, Some x) \<Rightarrow> ([], Uncaught x)
      | (p, None) \<Rightarrow>
          (case run_stages workers bep51 (pe_fails e) startup_stages p of
             (p', failed) \<Rightarrow>
               (case run_shutdown (pe_ends e) (shutdown_steps p') of
                  (begun, Hung) \<Rightarrow> (begun, Never)
                | (begun, Raised y) \<Rightarrow> (begun, Uncaught y)
                | (begun, Complete) \<Rightarrow>
                    (begun,
                     case failed of
                       Some x \<Rightarrow> Uncaught x
                     | None \<Rightarrow> Exit (if \<not> pe_db_fatal e \<and> \<not> pe_log_fatal e then 0 else 1)))))"

definition main :: "nat \<Rightarrow> bool \<Rightarrow> process_env \<Rightarrow> exit_outcome" where
  "main workers bep51 e =
     (case snd (async_main workers bep51 e) of
        Uncaught x \<Rightarrow>
          if x \<in> {Configuration_error, Storage_error, Os_error} then Exit 1
          else if x = Keyboard_interrupt then Exit 130
          else Uncaught x
      | r \<Rightarrow> r)"

section \<open>What the loops survive\<close>

lemma guarded_never_dies: "run_scheduler True n ts \<noteq> Died m"
  by (induction ts arbitrary: n) (auto split: iteration_end.splits wait_end.splits)

text \<open>The others end with the first exception that is neither a time-out nor a cancellation.\<close>

lemma unguarded_dies:
  "run_scheduler False n ts = Died m \<Longrightarrow> \<exists>t \<in> set ts. iteration t = Iteration_raised \<and> \<not> stop_set t"
  by (induction ts arbitrary: n) (auto split: if_splits iteration_end.splits wait_end.splits)

lemma worker_done_calls:
  "(case run_worker n ws of Running k \<Rightarrow> k | Returned k \<Rightarrow> k | Died k \<Rightarrow> k) \<le> n + length ws"
proof (induction n ws rule: run_worker.induct)
  case (2 n stop w ws)
  then show ?case by (cases w) (auto split: iteration_end.split loop_end.splits)
qed simp

section \<open>What was started is stopped\<close>

text \<open>The stages that were performed.\<close>

definition reached :: "process_env \<Rightarrow> start_stage list" where
  "reached e = takeWhile (\<lambda>st. pe_fails e st = None) (early_stages @ startup_stages)"

lemma run_stages_state:
  "fst (run_stages workers bep51 fails sts p) = fold (perform workers bep51) (takeWhile (\<lambda>st. fails st = None) sts) p"
  by (induction sts arbitrary: p) (auto split: option.split)

lemma run_stages_passed:
  "snd (run_stages workers bep51 fails sts p) = None \<longleftrightarrow> (\<forall>st \<in> set sts. fails st = None)"
  by (induction sts arbitrary: p) (auto split: option.split)

definition scheduler_list :: "bool \<Rightarrow> task list" where
  "scheduler_list bep51 =
     [Retry_task, Notification_task, Maintenance_task] @ (if bep51 then [Bep51_task] else []) @ [Monitor_task]"

lemma performed:
  "db_started (fold (perform workers bep51) sts p) = (Start_db \<in> set sts \<or> db_started p)"
  "log_started (fold (perform workers bep51) sts p) = (Start_log \<in> set sts \<or> log_started p)"
  "node_built (fold (perform workers bep51) sts p) = (Build_node \<in> set sts \<or> node_built p)"
  "udp_bound (fold (perform workers bep51) sts p) = (Bind_udp \<in> set sts \<or> udp_bound p)"
  "worker_tasks (fold (perform workers bep51) sts p) =
     (if Start_workers \<in> set sts then map Torrent_worker [0..<workers] else worker_tasks p)"
  "scheduler_tasks (fold (perform workers bep51) sts p) =
     (if Start_schedulers \<in> set sts then scheduler_list bep51 else scheduler_tasks p)"
  by (induction sts arbitrary: p; simp add: perform_def scheduler_list_def split: start_stage.split)+

text \<open>The shutdown plan for the stages that were performed.\<close>

definition shutdown_plan :: "nat \<Rightarrow> bool \<Rightarrow> start_stage list \<Rightarrow> step list" where
  "shutdown_plan workers bep51 sts =
     (if Start_schedulers \<in> set sts then [Cancel_schedulers (scheduler_list bep51)] else [])
     @ (if Bind_udp \<in> set sts then [Close_ingress] else [])
     @ (if Start_workers \<in> set sts \<and> 0 < workers then [Cancel_workers (map Torrent_worker [0..<workers])] else [])
     @ (if Build_node \<in> set sts then [Write_routing_snapshot] else [])
     @ (if Start_log \<in> set sts then [Flush_log] else [])
     @ (if Start_db \<in> set sts then [Close_db] else [])
     @ (if Start_log \<in> set sts then [Close_log] else [])"

lemma reached_order:
  "Bind_udp \<in> set (reached e) \<Longrightarrow> Build_node \<in> set (reached e)"
  "Build_node \<in> set (reached e) \<Longrightarrow> Start_log \<in> set (reached e)"
  by (auto simp: reached_def early_stages_def startup_stages_def split: if_splits)

lemma steps_planned:
  "shutdown_steps (fold (perform workers bep51) (reached e) new_process) = shutdown_plan workers bep51 (reached e)"
  using reached_order [of e]
  by (auto simp: shutdown_steps_def shutdown_plan_def performed new_process_def scheduler_list_def)

text \<open>A step after which the shutdown goes on.\<close>

definition passes :: "(step \<Rightarrow> step_end) \<Rightarrow> step \<Rightarrow> bool" where
  "passes ends st \<longleftrightarrow> (case ends st of Step_done \<Rightarrow> True | Step_raises x \<Rightarrow> handled_step st | _ \<Rightarrow> False)"

lemma run_shutdown_begun:
  "run_shutdown ends sts = (begun, r) \<Longrightarrow>
     prefix begun sts \<and> (r = Complete \<longleftrightarrow> (\<forall>st \<in> set sts. passes ends st)) \<and> (r = Complete \<longrightarrow> begun = sts)"
  by (induction sts arbitrary: begun r)
    (auto simp: passes_def Let_def split: step_end.splits if_splits prod.splits)

text \<open>Whatever stage raises and whatever step of the shutdown fails: the steps begun are the first ones
  of the plan for the stages that were performed, and all of them unless a step hangs or is
  left by an exception its handler does not catch; the exit status is one of a finished run exactly when
  the process came to wait for the stop and every step passed.\<close>

theorem shutdown_complete:
  assumes "async_main workers bep51 e = (begun, r)"
  shows "prefix begun (shutdown_plan workers bep51 (reached e))
    \<and> ((\<forall>st \<in> set (shutdown_plan workers bep51 (reached e)). passes (pe_ends e) st) \<longrightarrow>
         begun = shutdown_plan workers bep51 (reached e))
    \<and> (r \<in> {Exit 0, Exit 1} \<longleftrightarrow> Await_stop \<in> set (reached e)
         \<and> (\<forall>st \<in> set (shutdown_plan workers bep51 (reached e)). passes (pe_ends e) st))"
proof -
  let ?ok = "\<lambda>st. pe_fails e st = None"
  let ?run = "run_stages workers bep51 (pe_fails e)"
  let ?early = "?run early_stages new_process"
  show ?thesis
  proof (cases "snd ?early")
    case (Some x)
    then have "\<not> (\<forall>st \<in> set early_stages. ?ok st)" using run_stages_passed [of workers bep51 "pe_fails e" early_stages new_process] by simp
    then have "reached e = takeWhile ?ok early_stages" by (auto simp: reached_def takeWhile_append)
    then have "set (reached e) \<subseteq> set early_stages" by (metis set_takeWhileD subsetI)
    then have "shutdown_plan workers bep51 (reached e) = []" "Await_stop \<notin> set (reached e)"
      by (auto simp: shutdown_plan_def early_stages_def)
    moreover have "begun = []" "r = Uncaught x" using assms Some by (auto simp: async_main_def split: prod.splits)
    ultimately show ?thesis by simp
  next
    case None
    then have ok: "\<forall>st \<in> set early_stages. ?ok st" by (simp add: run_stages_passed)
    let ?later = "?run startup_stages (fst ?early)"
    have reached: "reached e = early_stages @ takeWhile ?ok startup_stages" using ok by (auto simp: reached_def takeWhile_append2)
    have state: "fst ?later = fold (perform workers bep51) (reached e) new_process"
      using ok by (simp add: run_stages_state reached takeWhile_eq_all_conv [THEN iffD2])
    have "snd ?later = None \<longleftrightarrow> Await_stop \<in> set (reached e)"
      unfolding run_stages_passed reached by (auto simp: startup_stages_def early_stages_def)
    moreover obtain begun' r' where stop: "run_shutdown (pe_ends e) (shutdown_plan workers bep51 (reached e)) = (begun', r')" by fastforce
    moreover have "(begun, r) = (case r' of Hung \<Rightarrow> (begun', Never) | Raised y \<Rightarrow> (begun', Uncaught y)
        | Complete \<Rightarrow> (begun', case snd ?later of Some x \<Rightarrow> Uncaught x
            | None \<Rightarrow> Exit (if \<not> pe_db_fatal e \<and> \<not> pe_log_fatal e then 0 else 1)))"
      using assms None stop state steps_planned [of workers bep51 e]
      by (auto simp: async_main_def split: prod.splits shutdown_end.splits)
    ultimately show ?thesis using run_shutdown_begun [OF stop] by (auto split: shutdown_end.splits option.splits)
  qed
qed

end
