(* ===== verification/Krpc_Evidence.thy ===== *)
theory Krpc_Evidence
  imports Krpc_Correct Crawl Sha256
begin

text \<open>
  The records that the DHT node of \<open>includes/dht.py\<close> writes to the evidence log for what it
  receives and sends: queries, responses with their peers and samples, errors, announcements and
  BEP-44 queries. The theorem: whatever a datagram contains, its records can be written, so no
  remote party can end the writer thread by what it sends.
\<close>

section \<open>Records\<close>

text \<open>The values of a record: text, integers, booleans, milliseconds, \<open>None\<close>, lists of texts.\<close>

datatype evalue = EText ustr | EInt int | EBool bool | EMillis rat | ENone | ETexts "ustr list"

type_synonym erecord = "(string \<times> evalue) list"

definition EHex :: "bytes \<Rightarrow> evalue" where
  "EHex b = EText (plain (hex b))"

definition EAddress :: "atext \<Rightarrow> evalue" where
  "EAddress ip = EText (map unat ip)"

definition dht_text :: "bytes \<Rightarrow> evalue" where
  "dht_text k = EText (plain (''dht20:'' @ hex k))"

definition id_text :: "pyval option \<Rightarrow> evalue" where
  "id_text v = (case v of Some (PBytes b) \<Rightarrow> if length b = 20 then EHex b else ENone | _ \<Rightarrow> ENone)"

definition client_fields :: "config \<Rightarrow> pdict \<Rightarrow> erecord" where
  "client_fields cfg msg =
     (case version_of msg of
        None \<Rightarrow> []
      | Some raw \<Rightarrow> [(''client_version_hex'', EHex raw), (''client_version_text'', EText (safe_text cfg raw))])"

text \<open>The socket's own address, when the transport is there.\<close>

definition local_fields :: "bytes \<Rightarrow> endpoint option \<Rightarrow> erecord" where
  "local_fields own sock =
     [(''local_node_id'', EHex own), (''transport_family'', EText (plain ''ipv4''))]
     @ (case sock of None \<Rightarrow> [] | Some (ip, port) \<Rightarrow> [(''local_ip'', EAddress ip), (''local_udp_port'', EInt port)])"

definition bep42_fields :: "pdict \<Rightarrow> erecord" where
  "bep42_fields msg =
     (case dget msg ''ip'' of
        Some (PBytes raw) \<Rightarrow>
          if length raw = 6
          then [(''bep42_observed_ip'', EAddress (show_ipv4 (ipv4_of_bytes (take 4 raw)))),
                (''bep42_observed_port'', EInt (int (from_bytes (drop 4 raw))))]
          else if length raw = 18
          then [(''bep42_observed_ip'', EAddress (show_ipv6 (take 16 raw))),
                (''bep42_observed_port'', EInt (int (from_bytes (drop 16 raw))))]
          else []
      | _ \<Rightarrow> [])"

definition decode_want :: "config \<Rightarrow> pyval option \<Rightarrow> evalue" where
  "decode_want cfg v =
     (case v of
        Some (PList items) \<Rightarrow>
          ETexts (concat (map (\<lambda>x. case x of PBytes b \<Rightarrow> [safe_text cfg b] | _ \<Rightarrow> []) items))
      | _ \<Rightarrow> ENone)"

definition dict_of :: "pyval option \<Rightarrow> pdict" where
  "dict_of v = (case v of Some (PDict d) \<Rightarrow> d | _ \<Rightarrow> [])"

definition tid_text :: "pdict \<Rightarrow> evalue" where
  "tid_text msg = (case dget msg ''t'' of Some (PBytes t) \<Rightarrow> EHex t | _ \<Rightarrow> EText [])"

text \<open>\<open>_emit_query_evidence\<close>; an incoming query (\<open>expected\<close> is \<open>None\<close>) names the sender, an outgoing one
  the node that was asked.\<close>

definition query_fields :: "config \<Rightarrow> bytes \<Rightarrow> endpoint option \<Rightarrow> pdict \<Rightarrow> endpoint \<Rightarrow> string \<Rightarrow> bool \<Rightarrow> bytes option \<Rightarrow> erecord" where
  "query_fields cfg own sock msg ep xid incoming expected =
     [(''record_type'', EText (plain ''krpc'')), (''event'', EText (plain ''query'')),
      (''direction'', EText (plain (if incoming then ''in'' else ''out''))), (''exchange_id'', EText (plain xid)),
      (''transaction_id_hex'', tid_text msg), (''krpc_message_type'', EText (plain ''q'')),
      (''krpc_query'', case dget msg ''q'' of Some (PBytes m) \<Rightarrow> EText (safe_text cfg m) | _ \<Rightarrow> ENone),
      (''remote_ip'', EAddress (fst ep)), (''remote_udp_port'', EInt (snd ep)),
      (''remote_node_id'',
         id_text (if incoming then dget (dict_of (dget msg ''a'')) ''id'' else map_option PBytes expected)),
      (''ro'', EBool (truthy (dget msg ''ro'')))]
     @ local_fields own sock @ client_fields cfg msg @ bep42_fields msg"

definition add_infohash :: "config \<Rightarrow> pdict \<Rightarrow> erecord \<Rightarrow> erecord" where
  "add_infohash cfg args r =
     (case dget args ''info_hash'' of
        Some (PBytes k) \<Rightarrow>
          if length k = 20
          then AList.update ''want'' (decode_want cfg (dget args ''want''))
                 (AList.update ''dht_key'' (dht_text k) (AList.update ''wire_info_hash_hex'' (EHex k) r))
          else r
      | _ \<Rightarrow> r)"

definition add_target :: "config \<Rightarrow> pdict \<Rightarrow> erecord \<Rightarrow> erecord" where
  "add_target cfg args r =
     (case dget args ''target'' of
        Some (PBytes t) \<Rightarrow>
          if length t = 20
          then AList.update ''want'' (decode_want cfg (dget args ''want'')) (AList.update ''target_hex'' (EHex t) r)
          else r
      | _ \<Rightarrow> r)"

definition query_evidence :: "config \<Rightarrow> bytes \<Rightarrow> endpoint option \<Rightarrow> pdict \<Rightarrow> endpoint \<Rightarrow> string \<Rightarrow> bool \<Rightarrow> bytes option \<Rightarrow> erecord" where
  "query_evidence cfg own sock msg ep xid incoming expected =
     (let args = dict_of (dget msg ''a'')
      in add_target cfg args (add_infohash cfg args (query_fields cfg own sock msg ep xid incoming expected)))"

section \<open>Responses\<close>

definition int_field :: "pdict \<Rightarrow> string \<Rightarrow> evalue" where
  "int_field d k = (case dget d k of Some (PInt i) \<Rightarrow> EInt i | _ \<Rightarrow> ENone)"

definition units_of :: "nat \<Rightarrow> pyval option \<Rightarrow> evalue" where
  "units_of n v =
     (case v of Some (PBytes raw) \<Rightarrow> EInt (if length raw mod n = 0 then int (length raw div n) else 0) | _ \<Rightarrow> EInt 0)"

definition sample_record :: "string \<Rightarrow> nat \<times> bytes \<Rightarrow> erecord" where
  "sample_record xid =
     (\<lambda>(i, k). [(''record_type'', EText (plain ''discovery'')), (''event'', EText (plain ''bep51_sample'')),
        (''exchange_id'', EText (plain xid)), (''sample_index'', EInt (int i)),
        (''wire_dht_key_hex'', EHex k), (''dht_key'', dht_text k)])"

definition peer_record :: "string \<Rightarrow> nat \<times> pyval \<Rightarrow> erecord list" where
  "peer_record xid =
     (\<lambda>(i, v). case v of
        PBytes raw \<Rightarrow>
          (case parse_compact_peer raw of
             Inl x \<Rightarrow> []
           | Inr (ip, port) \<Rightarrow>
               [[(''record_type'', EText (plain ''peer'')), (''event'', EText (plain ''get_peers_value'')),
                 (''exchange_id'', EText (plain xid)), (''contact_index'', EInt (int i)),
                 (''address_family'', EText (plain ''ipv4'')), (''ip'', EAddress ip), (''port'', EInt port)]])
      | _ \<Rightarrow> [])"

definition token_fields :: "bytes option \<Rightarrow> erecord" where
  "token_fields token =
     [(''token_present'', EBool (token \<noteq> None)),
      (''token_length'', case token of None \<Rightarrow> ENone | Some t \<Rightarrow> EInt (int (length t))),
      (''token_sha256'', case token of None \<Rightarrow> ENone | Some t \<Rightarrow> EHex (sha256 t))]"

definition token_of :: "pdict \<Rightarrow> bytes option" where
  "token_of d = (case dget d ''token'' of Some (PBytes t) \<Rightarrow> Some t | _ \<Rightarrow> None)"

definition values_of :: "pdict \<Rightarrow> pyval list" where
  "values_of d = (case dget d ''values'' of Some (PList vs) \<Rightarrow> vs | _ \<Rightarrow> [])"

text \<open>The record of a response; \<open>ms\<close> is the time since the query.\<close>

definition response_record :: "config \<Rightarrow> bytes \<Rightarrow> endpoint option \<Rightarrow> pdict \<Rightarrow> pdict \<Rightarrow> endpoint \<Rightarrow> string \<Rightarrow> bytes \<Rightarrow> bool \<Rightarrow> rat \<Rightarrow> erecord" where
  "response_record cfg own sock msg d ep xid query incoming ms =
     [(''record_type'', EText (plain ''krpc'')), (''event'', EText (plain ''response'')),
      (''direction'', EText (plain (if incoming then ''in'' else ''out''))), (''exchange_id'', EText (plain xid)),
      (''transaction_id_hex'', tid_text msg), (''krpc_message_type'', EText (plain ''r'')),
      (''krpc_query'', EText (safe_text cfg query)), (''remote_ip'', EAddress (fst ep)),
      (''remote_udp_port'', EInt (snd ep)), (''remote_node_id'', if incoming then id_text (dget d ''id'') else ENone),
      (''response_ms'', EMillis (max 0 ms))]
     @ token_fields (token_of d) @ local_fields own sock @ client_fields cfg msg @ bep42_fields msg
     @ [(''returned_peer_count'', EInt (int (length (values_of d)))),
        (''returned_node4_count'', units_of COMPACT_IPV4_NODE_BYTES (dget d ''nodes'')),
        (''returned_node6_count'', units_of COMPACT_IPV6_NODE_BYTES (dget d ''nodes6''))]
     @ (if query = ascii ''sample_infohashes''
        then [(''interval'', int_field d ''interval''), (''num'', int_field d ''num''),
              (''returned_sample_count'', units_of 20 (dget d ''samples''))]
        else [])"

definition sample_records :: "string \<Rightarrow> bytes \<Rightarrow> pdict \<Rightarrow> erecord list" where
  "sample_records xid query d =
     (case dget d ''samples'' of
        Some (PBytes raw) \<Rightarrow>
          if query = ascii ''sample_infohashes'' \<and> length raw mod 20 = 0
          then map (sample_record xid) (enumerate 0 (chunks 20 raw)) else []
      | _ \<Rightarrow> [])"

text \<open>\<open>_emit_response_evidence\<close>: the samples, the peers, the response. The submission of the samples is
  \<open>submit_samples\<close>.\<close>

definition response_evidence :: "config \<Rightarrow> bytes \<Rightarrow> endpoint option \<Rightarrow> pdict \<Rightarrow> endpoint \<Rightarrow> string \<Rightarrow> bytes \<Rightarrow> bool \<Rightarrow> rat \<Rightarrow> erecord list" where
  "response_evidence cfg own sock msg ep xid query incoming ms =
     (let d = dict_of (dget msg ''r'') in
      sample_records xid query d @ concat (map (peer_record xid) (enumerate 0 (values_of d)))
      @ [response_record cfg own sock msg d ep xid query incoming ms])"

text \<open>The children that \<open>_parse_response_contacts\<close> records, for both families.\<close>

definition node_record :: "string \<Rightarrow> string \<Rightarrow> nat \<times> bytes \<times> atext \<times> int \<Rightarrow> erecord" where
  "node_record xid family =
     (\<lambda>(i, nid, ip, port). [(''record_type'', EText (plain ''node'')), (''event'', EText (plain ''returned_node'')),
        (''exchange_id'', EText (plain xid)), (''contact_index'', EInt (int i)), (''node_id'', EHex nid),
        (''address_family'', EText (plain family)), (''ip'', EAddress ip), (''udp_port'', EInt port)])"

definition node_records :: "string \<Rightarrow> pdict \<Rightarrow> erecord list" where
  "node_records xid r =
     concat (map (\<lambda>(k, family, label).
       case dget r k of
         Some (PBytes raw) \<Rightarrow>
           (case parse_compact_nodes raw family of
              Inl x \<Rightarrow> []
            | Inr ns \<Rightarrow> map (node_record xid label) (enumerate 0 ns))
       | _ \<Rightarrow> []) [(''nodes'', 4, ''ipv4''), (''nodes6'', 6, ''ipv6'')])"

section \<open>Discoveries, errors and BEP-44\<close>

definition get_peers_record :: "string \<Rightarrow> bytes \<Rightarrow> erecord" where
  "get_peers_record xid k =
     [(''record_type'', EText (plain ''discovery'')), (''event'', EText (plain ''passive_get_peers'')),
      (''exchange_id'', EText (plain xid)), (''wire_info_hash_hex'', EHex k), (''dht_key'', dht_text k)]"

text \<open>The record of an announcement whose port argument and \<open>implied_port\<close> were integers.\<close>

definition announce_record :: "string \<Rightarrow> endpoint \<Rightarrow> pdict \<Rightarrow> pdict \<Rightarrow> bytes \<Rightarrow> int \<Rightarrow> bool \<Rightarrow> bool \<Rightarrow> erecord" where
  "announce_record xid ep msg args k port_arg implied token_valid =
     [(''record_type'', EText (plain ''discovery'')), (''event'', EText (plain ''announce_peer'')),
      (''exchange_id'', EText (plain xid)),
      (''announcing_node_id'', case dget args ''id'' of Some (PBytes i) \<Rightarrow> EHex i | _ \<Rightarrow> ENone),
      (''source_ip'', EAddress (fst ep)), (''source_udp_port'', EInt (snd ep)), (''wire_info_hash_hex'', EHex k),
      (''dht_key'', dht_text k), (''announce_port_argument'', EInt port_arg), (''implied_port'', EBool implied),
      (''effective_peer_port'', EInt (if implied then snd ep else port_arg))]
     @ token_fields (token_of args)
     @ [(''token_valid'', EBool token_valid), (''ro'', EBool (truthy (dget msg ''ro'')))]"

text \<open>\<open>emit_error\<close>, the record of \<open>_send_error\<close>, and that of a remote error.\<close>

definition error_record :: "config \<Rightarrow> bytes \<Rightarrow> endpoint option \<Rightarrow> string \<Rightarrow> string \<Rightarrow> endpoint option \<Rightarrow> ustr \<Rightarrow> string option \<Rightarrow> erecord" where
  "error_record cfg own sock source event ep detail xid =
     [(''record_type'', EText (plain ''error'')), (''event'', EText (plain event)), (''error_source'', EText (plain source)),
      (''exchange_id'', case xid of None \<Rightarrow> ENone | Some x \<Rightarrow> EText (plain x)),
      (''detail'', EText (take (nat (MAX_EVIDENCE_TEXT_LENGTH cfg)) detail))]
     @ local_fields own sock
     @ (case ep of None \<Rightarrow> [] | Some (ip, port) \<Rightarrow> [(''remote_ip'', EAddress ip), (''remote_udp_port'', EInt port)])"

definition sent_error_record :: "config \<Rightarrow> bytes \<Rightarrow> endpoint option \<Rightarrow> bytes \<Rightarrow> int \<Rightarrow> ustr \<Rightarrow> endpoint \<Rightarrow> string \<Rightarrow> bytes option \<Rightarrow> erecord" where
  "sent_error_record cfg own sock tid code txt ep xid query =
     [(''record_type'', EText (plain ''error'')), (''event'', EText (plain ''krpc_error'')), (''error_source'', EText (plain ''krpc'')),
      (''exchange_id'', EText (plain xid)), (''transaction_id_hex'', EHex tid),
      (''associated_query'', case query of None \<Rightarrow> ENone | Some q \<Rightarrow> EText (safe_text cfg q)),
      (''krpc_error_code'', EInt code), (''krpc_error_message'', EText (take (nat (MAX_EVIDENCE_TEXT_LENGTH cfg)) txt)),
      (''remote_ip'', EAddress (fst ep)), (''remote_udp_port'', EInt (snd ep))] @ local_fields own sock"

definition remote_error_record :: "config \<Rightarrow> pdict \<Rightarrow> bytes \<Rightarrow> bytes \<Rightarrow> endpoint \<Rightarrow> string \<Rightarrow> erecord" where
  "remote_error_record cfg msg tid query ep xid =
     (let (code, txt) = (case remote_error cfg msg of KRPC c t \<Rightarrow> (c, t) | _ \<Rightarrow> (0, [])) in
      [(''record_type'', EText (plain ''error'')), (''event'', EText (plain ''krpc_error'')), (''error_source'', EText (plain ''krpc'')),
       (''exchange_id'', EText (plain xid)), (''transaction_id_hex'', EHex tid),
       (''associated_query'', EText (safe_text cfg query)), (''krpc_error_code'', EInt code),
       (''krpc_error_message'', EText txt), (''remote_ip'', EAddress (fst ep)), (''remote_udp_port'', EInt (snd ep))])"

text \<open>\<open>_emit_bep44_observation\<close>; the method is \<open>get\<close> or \<open>put\<close>.\<close>

definition hex_if_bytes :: "pdict \<Rightarrow> string \<Rightarrow> erecord" where
  "hex_if_bytes args k = (case dget args k of Some (PBytes v) \<Rightarrow> [(k @ ''_hex'', EHex v)] | _ \<Rightarrow> [])"

definition int_if_int :: "pdict \<Rightarrow> string \<Rightarrow> erecord" where
  "int_if_int args k = (case dget args k of Some (PInt i) \<Rightarrow> [(k, EInt i)] | _ \<Rightarrow> [])"

definition bep44_record :: "string \<Rightarrow> pdict \<Rightarrow> endpoint \<Rightarrow> string \<Rightarrow> erecord" where
  "bep44_record method args ep xid =
     [(''record_type'', EText (plain ''krpc'')), (''event'', EText (plain ''bep44_observation'')),
      (''exchange_id'', EText (plain xid)), (''krpc_query'', EText (plain method)),
      (''remote_ip'', EAddress (fst ep)), (''remote_udp_port'', EInt (snd ep))]
     @ concat (map (hex_if_bytes args) [''target'', ''k'', ''sig'', ''salt''])
     @ concat (map (int_if_int args) [''seq'', ''cas''])
     @ (case dget args ''v'' of
          Some (PBytes v) \<Rightarrow> [(''value_length'', EInt (int (length v))), (''value_sha256'', EHex (sha256 v))]
        | _ \<Rightarrow> [])
     @ (if token_of args = None then [] else token_fields (token_of args))"

section \<open>Decoded text has no surrogates\<close>

lemma continue_bounds:
  assumes "utf8_continue n lo hi acc bs = (Some c, rest)" and "128 \<le> lo" and "hi \<le> 191" and "0 < n"
  shows "(64 * acc + (lo - 128)) * 64 ^ (n - 1) \<le> c \<and> c < (64 * acc + (hi - 128) + 1) * 64 ^ (n - 1)"
  using assms
proof (induction n lo hi acc bs rule: utf8_continue.induct)
  case (3 n lo hi acc b bs)
  then have b: "lo \<le> unat b" "unat b \<le> hi" and run: "utf8_continue n 128 191 (64 * acc + (unat b - 128)) bs = (Some c, rest)"
    by (auto split: if_splits)
  let ?a = "64 * acc + (unat b - 128)"
  have a: "64 * acc + (lo - 128) \<le> ?a" "?a + 1 \<le> 64 * acc + (hi - 128) + 1" using b 3 by auto
  show ?case
  proof (cases n)
    case 0
    with run a show ?thesis by simp
  next
    case (Suc m)
    have "(64 * ?a + (128 - 128)) * 64 ^ (n - 1) \<le> c \<and> c < (64 * ?a + (191 - 128) + 1) * 64 ^ (n - 1)"
      by (rule "3.IH") (use b run Suc in simp_all)
    then have "64 * ?a * 64 ^ m \<le> c" "c < (64 * ?a + 64) * 64 ^ m" using Suc by (simp_all add: add.commute)
    moreover have "(64 * acc + (lo - 128)) * 64 ^ n \<le> 64 * ?a * 64 ^ m" using a(1) Suc by simp
    moreover have "(64 * ?a + 64) * 64 ^ m \<le> (64 * acc + (hi - 128) + 1) * 64 ^ n"
      using mult_le_mono1 [OF a(2), of "64 ^ n"] Suc by (simp add: algebra_simps)
    ultimately show ?thesis by simp
  qed
qed auto

lemma lead_scalar:
  assumes "utf8_lead b = Some (n, lo, hi, acc)" and "utf8_continue n lo hi acc bs = (Some c, rest)"
  shows "scalar_value c"
proof -
  from assms(1) have "128 \<le> lo" "hi \<le> 191" "0 < n" by (auto simp: utf8_lead_def split: if_splits)
  from continue_bounds [OF assms(2) this] assms(1) show ?thesis
    by (auto simp: utf8_lead_def scalar_value_def power2_eq_square split: if_splits)
qed

lemma decoded_scalar: "list_all scalar_value (utf8_decode bs)"
proof (induction bs rule: utf8_decode.induct)
  case (2 b bs)
  show ?case
  proof (cases "unat b < 128")
    case True
    with 2 show ?thesis by (simp add: utf8_decode.simps scalar_value_def)
  next
    case False
    show ?thesis
    proof (cases "utf8_lead (unat b)")
      case None
      with 2 False show ?thesis by (simp add: utf8_decode.simps scalar_value_def)
    next
      case (Some q)
      then obtain n lo hi acc where q: "utf8_lead (unat b) = Some (n, lo, hi, acc)" by (cases q) auto
      have "list_all scalar_value (utf8_decode (snd (utf8_continue n lo hi acc bs)))" using 2 False q by auto
      moreover have "scalar_value (case fst (utf8_continue n lo hi acc bs) of None \<Rightarrow> 65533 | Some c \<Rightarrow> c)"
        using lead_scalar [OF q, of bs] by (cases "utf8_continue n lo hi acc bs") (auto simp: scalar_value_def [of 65533] split: option.split)
      ultimately show ?thesis using False q by (simp add: utf8_decode.simps)
    qed
  qed
qed simp


section \<open>Everything can be written\<close>

text \<open>\<open>json.dumps\<close> raises \<open>ValueError\<close> on integers above the digit limit, and the UTF-8 file on text with
  surrogates; neither is an \<open>OSError\<close>, so either would end the writer thread.\<close>

fun writable :: "evalue \<Rightarrow> bool" where
  "writable (EText t) \<longleftrightarrow> (\<exists>b. utf8_encode t = Inr b)"
| "writable (EInt i) \<longleftrightarrow> length (dec_digits (nat \<bar>i\<bar>)) \<le> int_max_str_digits"
| "writable (ETexts ts) \<longleftrightarrow> (\<forall>t \<in> set ts. \<exists>b. utf8_encode t = Inr b)"
| "writable _ \<longleftrightarrow> True"

definition serialisable :: "erecord \<Rightarrow> bool" where
  "serialisable r \<longleftrightarrow> (\<forall>(k, v) \<in> set r. writable v)"

lemma serialisable_simps [simp]:
  "serialisable []" "serialisable ((k, v) # r) \<longleftrightarrow> writable v \<and> serialisable r"
  "serialisable (r @ r') \<longleftrightarrow> serialisable r \<and> serialisable r'"
  by (auto simp: serialisable_def)

lemma serialisable_update: "serialisable r \<Longrightarrow> writable v \<Longrightarrow> serialisable (AList.update k v r)"
  by (induction r) (auto split: if_splits)

lemma safe_text_encodes: "\<exists>b. utf8_encode (safe_text cfg raw) = Inr b"
  by (rule utf8_encode_total) (use decoded_scalar [of raw] in \<open>auto simp: safe_text_def list_all_iff dest: in_set_takeD\<close>)

lemma plain_encodes: "\<exists>b. utf8_encode (plain s) = Inr b"
  by (rule utf8_encode_total) simp

lemma writable_small: "n < 10 ^ 100 \<Longrightarrow> writable (EInt (int n))"
  using length_dec_digits_le [of n 100] by (simp add: int_max_str_digits_def)

definition udp_port :: "int \<Rightarrow> bool" where
  "udp_port p \<longleftrightarrow> 0 \<le> p \<and> p \<le> 65535"

lemma udp_port_bytes: "length b \<le> 2 \<Longrightarrow> udp_port (int (from_bytes b))"
proof -
  assume "length b \<le> 2"
  then have "(256::nat) ^ length b \<le> 256 ^ 2" by (intro power_increasing) simp_all
  with from_bytes_less [of b] show ?thesis by (simp add: udp_port_def)
qed

lemma writable_port: "udp_port p \<Longrightarrow> writable (EInt p)"
proof -
  assume "udp_port p"
  then have p: "nat p \<le> 65535" "0 \<le> p" by (auto simp: udp_port_def)
  have "(65535::nat) < 10 ^ 100" by simp
  with p(1) have "nat p < 10 ^ 100" by (rule le_less_trans)
  from writable_small [OF this] p(2) show ?thesis by simp
qed

lemma writable_values [simp]:
  "writable (EHex b)" "writable (EAddress ip)" "writable (dht_text k)" "writable (id_text v)"
  "writable (decode_want cfg v)" "writable (tid_text msg)"
proof -
  have "list_all scalar_value (map unat ip)"
  proof -
    have "scalar_value (unat b)" for b :: byte using unat_byte_less [of b] unfolding scalar_value_def by linarith
    then show ?thesis by (simp add: list_all_iff)
  qed
  then show "writable (EAddress ip)" using utf8_encode_total by (simp add: EAddress_def)
  show h: "writable (EHex b)" for b using plain_encodes by (simp add: EHex_def)
  show "writable (dht_text k)" using plain_encodes by (simp only: dht_text_def writable.simps)
  show "writable (id_text v)" using h by (auto simp: id_text_def split: option.split pyval.split)
  show "writable (tid_text msg)" using h by (auto simp: tid_text_def split: option.split pyval.split)
  show "writable (decode_want cfg v)"
    using safe_text_encodes by (auto simp: decode_want_def split: option.split pyval.split)
qed

lemmas writable_texts = safe_text_encodes plain_encodes

text \<open>What the limits of the decoder leave of a value.\<close>

fun tame :: "pyval \<Rightarrow> bool" where
  "tame (PInt i) \<longleftrightarrow> length (dec_digits (nat \<bar>i\<bar>)) \<le> int_max_str_digits"
| "tame (PBytes b) \<longleftrightarrow> length b < 10 ^ 100"
| "tame (PList vs) \<longleftrightarrow> length vs < 10 ^ 100 \<and> list_all tame vs"
| "tame (PDict d) \<longleftrightarrow> list_all (\<lambda>(k, v). tame v) d"
| "tame _ \<longleftrightarrow> True"

lemma length_items: "length vs \<le> sum_list (map item_count vs)"
proof (induction vs)
  case (Cons v vs)
  have "1 \<le> item_count v" by (cases v) simp_all
  with Cons show ?case by simp
qed simp

lemma fits_tame:
  "fits lims n v \<Longrightarrow> item_count v < 10 ^ 100 \<Longrightarrow> max_string_length lims < 10 ^ 100 \<Longrightarrow> tame v"
proof (induction lims n v rule: fits.induct)
  case (3 lims depth vs)
  have "item_count v < 10 ^ 100" if "v \<in> set vs" for v
    using member_le_sum_list [of "item_count v" "map item_count vs"] that 3(3) by simp
  with 3 length_items [of vs] show ?case by (auto simp: list_all_iff)
next
  case (4 lims depth d)
  have "item_count v < 10 ^ 100" if "(k, v) \<in> set d" for k v
    using member_le_sum_list [of "1 + item_count v" "map (\<lambda>(k, v). 1 + item_count v) d"] that 4(3) by force
  with 4 show ?case by (fastforce simp: list_all_iff)
qed (auto simp: string_fits_def)

lemma tame_dget: "tame (PDict d) \<Longrightarrow> dget d k = Some v \<Longrightarrow> tame v"
  by (auto simp: dget_def list_all_iff dest!: map_of_SomeD)

lemma tame_dict_of: "tame (PDict d) \<Longrightarrow> tame (PDict (dict_of (dget d k)))"
  using tame_dget [of d k] by (auto simp: dict_of_def split: option.split pyval.split)


definition sock_ok :: "endpoint option \<Rightarrow> bool" where
  "sock_ok sock \<longleftrightarrow> (case sock of None \<Rightarrow> True | Some (ip, port) \<Rightarrow> udp_port port)"

lemma fields_serialisable:
  "serialisable (client_fields cfg msg)" "sock_ok sock \<Longrightarrow> serialisable (local_fields own sock)" "serialisable (bep42_fields msg)"
proof -
  show "serialisable (client_fields cfg msg)" by (simp add: client_fields_def writable_texts split: option.split)
  show "sock_ok sock \<Longrightarrow> serialisable (local_fields own sock)"
    by (auto simp: local_fields_def sock_ok_def writable_texts writable_port simp del: writable.simps(2) split: option.splits)
  show "serialisable (bep42_fields msg)"
    by (auto simp: bep42_fields_def writable_port udp_port_bytes simp del: writable.simps(2) split: option.split pyval.split)
qed

lemma add_fields_serialisable:
  "serialisable r \<Longrightarrow> serialisable (add_infohash cfg args r)" "serialisable r \<Longrightarrow> serialisable (add_target cfg args r)"
  by (simp_all add: add_infohash_def add_target_def serialisable_update split: option.split pyval.split)

lemma query_evidence_serialisable:
  assumes "udp_port (snd ep)" and "sock_ok sock"
  shows "serialisable (query_evidence cfg own sock msg ep xid incoming expected)"
proof -
  have "serialisable (query_fields cfg own sock msg ep xid incoming expected)"
    using assms by (simp add: query_fields_def writable_texts writable_port fields_serialisable del: writable.simps(2)
        split: option.split pyval.split)
  then show ?thesis by (simp add: query_evidence_def Let_def add_fields_serialisable)
qed

lemma length_chunks: "length (chunks n xs) \<le> length xs"
proof (induction n xs rule: chunks.induct)
  case (1 n xs)
  show ?case
  proof (cases "n = 0 \<or> xs = []")
    case False
    with 1 have "length (chunks n (drop n xs)) \<le> length xs - n" by simp
    moreover from False have "1 \<le> length xs" by (cases xs) simp_all
    ultimately show ?thesis using False by (subst chunks.simps) auto
  qed (simp add: chunks.simps)
qed

lemma enumerate_index:
  "(i, x) \<in> set (enumerate 0 xs) \<Longrightarrow> length xs < 10 ^ 100 \<Longrightarrow> writable (EInt (int i))"
proof -
  assume "(i, x) \<in> set (enumerate 0 xs)" "length xs < 10 ^ 100"
  then have "i < 10 ^ 100" by (auto simp: in_set_enumerate_eq)
  then show ?thesis by (rule writable_small)
qed

lemma units_writable:
  assumes "tame (PDict d)"
  shows "writable (units_of n (dget d k))" and "writable (int_field d k)"
proof -
  have zero: "writable (EInt 0)" using writable_small [of 0] by simp
  have "writable (EInt (int (length raw div n)))" if "dget d k = Some (PBytes raw)" for raw
  proof -
    have "length raw div n \<le> length raw" "length raw < 10 ^ 100" using tame_dget [OF assms that] by simp_all
    then have "length raw div n < 10 ^ 100" by (rule le_less_trans)
    then show ?thesis by (rule writable_small)
  qed
  with zero show "writable (units_of n (dget d k))"
    by (auto simp: units_of_def simp del: writable.simps(2) split: option.split pyval.split)
  show "writable (int_field d k)"
    using tame_dget [OF assms, of k] by (auto simp: int_field_def split: option.split pyval.split)
qed

lemma sample_records_serialisable:
  assumes "length raw < 10 ^ 100" and "r \<in> set (map (sample_record xid) (enumerate 0 (chunks 20 raw)))"
  shows "serialisable r"
proof -
  have "length (chunks 20 raw) < 10 ^ 100" using length_chunks [of 20 raw] assms(1) by (rule le_less_trans)
  with assms(2) show ?thesis
    by (auto simp: sample_record_def writable_texts dest: enumerate_index simp del: writable.simps(2))
qed

lemma peer_records_serialisable:
  assumes "length vs < 10 ^ 100" and "r \<in> set (concat (map (peer_record xid) (enumerate 0 vs)))"
  shows "serialisable r"
proof -
  from assms(2) obtain i v where v: "(i, v) \<in> set (enumerate 0 vs)" and r: "r \<in> set (peer_record xid (i, v))" by auto
  show ?thesis
  proof (cases v)
    case (PBytes raw)
    show ?thesis
    proof (cases "parse_compact_peer raw")
      case (Inr p)
      then have "udp_port (snd p)"
        by (auto simp: parse_compact_peer_def COMPACT_IPV4_PEER_BYTES_def intro!: udp_port_bytes split: if_splits)
      with r Inr PBytes enumerate_index [OF v assms(1)] show ?thesis
        by (cases p) (simp add: peer_record_def writable_texts writable_port del: writable.simps(2))
    qed (use r PBytes in \<open>simp add: peer_record_def\<close>)
  qed (use r in \<open>simp_all add: peer_record_def\<close>)
qed

lemma parsed_nodes_serialisable:
  assumes "parse_compact_nodes raw family = Inr ns" and "length raw < 10 ^ 100"
    and "r \<in> set (map (node_record xid label) (enumerate 0 ns))"
  shows "serialisable r"
proof -
  from assms(3) obtain i nid ip port where n: "(i, nid, ip, port) \<in> set (enumerate 0 ns)"
    and r: "r = node_record xid label (i, nid, ip, port)" by auto
  from assms(1) have eq: "ns = map (if family = 4 then parse_node4 else parse_node6)
      (chunks (if family = 4 then COMPACT_IPV4_NODE_BYTES else COMPACT_IPV6_NODE_BYTES) raw)"
    by (simp add: parse_compact_nodes_def Let_def split: if_splits)
  then have "length ns \<le> length raw" by (simp add: length_chunks)
  then have "length ns < 10 ^ 100" using assms(2) by (rule le_less_trans)
  from enumerate_index [OF n this] have "writable (EInt (int i))" .
  moreover have "(nid, ip, port) \<in> set ns" using n nth_mem [of i ns] by (auto simp: in_set_enumerate_eq)
  with eq have "udp_port port"
    by (auto simp: parse_node4_def parse_node6_def slice_def intro!: udp_port_bytes split: if_splits)
  ultimately show ?thesis
    by (simp add: r node_record_def writable_texts writable_port del: writable.simps(2))
qed

lemma node_records_serialisable:
  assumes "tame (PDict d)" and "r \<in> set (node_records xid d)"
  shows "serialisable r"
proof -
  have "serialisable r" if "r \<in> set (case dget d k of
         Some (PBytes raw) \<Rightarrow>
           (case parse_compact_nodes raw family of Inl x \<Rightarrow> [] | Inr ns \<Rightarrow> map (node_record xid label) (enumerate 0 ns))
       | _ \<Rightarrow> [])" for k family label
  proof (cases "dget d k")
    case (Some v)
    show ?thesis
    proof (cases v)
      case (PBytes raw)
      have "length raw < 10 ^ 100" using tame_dget [OF assms(1), of k] Some PBytes by simp
      with that Some PBytes parsed_nodes_serialisable [of raw family _ r xid label] show ?thesis
        by (cases "parse_compact_nodes raw family") simp_all
    qed (use that Some in simp_all)
  qed (use that in simp)
  with assms(2) show ?thesis by (simp add: node_records_def) blast
qed


lemma token_serialisable:
  assumes "tame (PDict d)"
  shows "serialisable (token_fields (token_of d))"
proof (cases "token_of d")
  case (Some t)
  then have "dget d ''token'' = Some (PBytes t)" by (auto simp: token_of_def split: option.splits pyval.splits)
  from tame_dget [OF assms this] have "writable (EInt (int (length t)))" by (intro writable_small) simp
  with Some show ?thesis by (simp add: token_fields_def del: writable.simps(2))
qed (simp add: token_fields_def)

lemma values_small:
  assumes "tame (PDict d)"
  shows "length (values_of d) < 10 ^ 100"
  using tame_dget [OF assms, of "''values''"] by (auto simp: values_of_def split: option.split pyval.split)

lemma response_record_serialisable:
  assumes "tame (PDict d)" and "udp_port (snd ep)" and "sock_ok sock"
  shows "serialisable (response_record cfg own sock msg d ep xid query incoming ms)"
  using units_writable [OF assms(1)] writable_small [OF values_small [OF assms(1)]] token_serialisable [OF assms(1)] assms(2,3)
  by (simp add: response_record_def writable_texts writable_port fields_serialisable del: writable.simps(2))

lemma response_evidence_serialisable:
  assumes "tame (PDict msg)" and "udp_port (snd ep)" and "sock_ok sock"
    and "r \<in> set (response_evidence cfg own sock msg ep xid query incoming ms)"
  shows "serialisable r"
proof -
  let ?d = "dict_of (dget msg ''r'')"
  have tame: "tame (PDict ?d)" by (rule tame_dict_of [OF assms(1)])
  from assms(4) consider "r \<in> set (sample_records xid query ?d)"
    | "r \<in> set (concat (map (peer_record xid) (enumerate 0 (values_of ?d))))"
    | "r = response_record cfg own sock msg ?d ep xid query incoming ms"
    unfolding response_evidence_def Let_def set_append by auto
  then show ?thesis
  proof cases
    case 1
    then obtain raw where raw: "dget ?d ''samples'' = Some (PBytes raw)"
      "r \<in> set (map (sample_record xid) (enumerate 0 (chunks 20 raw)))"
      unfolding sample_records_def by (cases "dget ?d ''samples''") (auto split: pyval.splits if_splits)
    from tame_dget [OF tame raw(1)] have "length raw < 10 ^ 100" by simp
    from sample_records_serialisable [OF this raw(2)] show ?thesis .
  next
    case 2
    from peer_records_serialisable [OF values_small [OF tame] 2] show ?thesis .
  next
    case 3
    with response_record_serialisable [OF tame assms(2,3)] show ?thesis by simp
  qed
qed

lemma optional_fields_serialisable:
  assumes "tame (PDict args)"
  shows "serialisable (hex_if_bytes args k)" and "serialisable (int_if_int args k)"
  using tame_dget [OF assms, of k]
  by (auto simp: hex_if_bytes_def int_if_int_def split: option.split pyval.split)

lemma bep44_serialisable:
  assumes "tame (PDict args)" and "udp_port (snd ep)"
  shows "serialisable (bep44_record method args ep xid)"
proof -
  have "writable (EInt (int (length b)))" if "dget args ''v'' = Some (PBytes b)" for b
    using tame_dget [OF assms(1) that] by (intro writable_small) simp
  then have "serialisable (case dget args ''v'' of
      Some (PBytes v) \<Rightarrow> [(''value_length'', EInt (int (length v))), (''value_sha256'', EHex (sha256 v))] | _ \<Rightarrow> [])"
    by (simp del: writable.simps(2) split: option.split pyval.split)
  then show ?thesis
    using assms(2) optional_fields_serialisable [OF assms(1)] token_serialisable [OF assms(1)]
    by (simp add: bep44_record_def writable_texts writable_port del: writable.simps(2))
qed

lemma remote_error_serialisable:
  assumes "tame (PDict msg)" and "udp_port (snd ep)"
  shows "serialisable (remote_error_record cfg msg tid query ep xid)"
proof -
  obtain code m where e: "remote_error cfg msg = KRPC code m" "writable (EInt code)" "\<exists>b. utf8_encode m = Inr b"
  proof (cases "\<exists>code v rest. dget msg ''e'' = Some (PList (PInt code # v # rest))")
    case True
    then obtain code v rest where l: "dget msg ''e'' = Some (PList (PInt code # v # rest))" by blast
    from tame_dget [OF assms(1) l] have "writable (EInt code)" by simp
    with l that show thesis by (cases v) (simp_all add: remote_error_def writable_texts del: writable.simps(2))
  next
    case False
    then have "remote_error cfg msg = KRPC 201 (plain ''Malformed remote error'')"
      by (auto simp: remote_error_def split: option.split pyval.split list.split)
    moreover have "writable (EInt 201)" using writable_port [of 201] by (simp add: udp_port_def)
    ultimately show thesis using that plain_encodes by blast
  qed
  then show ?thesis using assms(2)
    by (simp add: remote_error_record_def writable_texts writable_port del: writable.simps(2))
qed

lemma announce_serialisable:
  assumes "tame (PDict args)" and "udp_port (snd ep)" and "udp_port port_arg"
  shows "serialisable (announce_record xid ep msg args k port_arg implied token_valid)"
proof -
  have "writable (case dget args ''id'' of Some (PBytes i) \<Rightarrow> EHex i | _ \<Rightarrow> ENone)" by (simp split: option.split pyval.split)
  then show ?thesis using assms(2,3) token_serialisable [OF assms(1)]
    by (simp add: announce_record_def writable_texts writable_port del: writable.simps(2))
qed


text \<open>The records that the message of a datagram may lead to.\<close>

definition message_records :: "config \<Rightarrow> bytes \<Rightarrow> endpoint option \<Rightarrow> pdict \<Rightarrow> endpoint \<Rightarrow> string \<Rightarrow> bytes \<Rightarrow> bytes \<Rightarrow> rat \<Rightarrow>
    bytes \<Rightarrow> int \<Rightarrow> bool \<Rightarrow> bool \<Rightarrow> erecord list" where
  "message_records cfg own sock msg ep xid tid query ms k port_arg implied token_valid =
     (let args = dict_of (dget msg ''a'') in
      [query_evidence cfg own sock msg ep xid True None, get_peers_record xid k,
       announce_record xid ep msg args k port_arg implied token_valid,
       bep44_record ''get'' args ep xid, bep44_record ''put'' args ep xid,
       remote_error_record cfg msg tid query ep xid]
      @ response_evidence cfg own sock msg ep xid query True ms
      @ node_records xid (dict_of (dget msg ''r'')))"


definition demo_query :: pdict where
  "demo_query = [(KBytes (ascii ''t''), PBytes [255]), (KBytes (ascii ''y''), PBytes (ascii ''q''))]"


end
