(* ===== verification/Spec2Isabelle.thy ===== *)
theory Spec2Isabelle
  imports Bencode_Correct Routing_Correct Tokens Peer_Store Candidates Token_Bucket Utf8 Peer_Wire_Correct Indexer
    Monitoring Krpc_Correct Lookup Lifecycle Startup Snapshot Notifications
    Sampling Maintenance Evidence Db_Worker Session Search Process Krpc_Evidence
begin

text \<open>
  A verification library for pyDHT, a crawler of the BitTorrent Mainline DHT.

  The program (\<open>src/\<close>). \<open>includes/dht.py\<close> is a DHT node: it answers and sends KRPC messages, keeps
  a routing table, a store of announced peers and rotating announce tokens, and hands every
  infohash it meets to a candidate queue. \<open>main.py\<close> runs workers on that queue: each looks up
  peers of the infohash, fetches the torrent's metadata from one of them (\<open>includes/peer.py\<close>),
  verifies and indexes it (\<open>includes/indexer.py\<close>, \<open>includes/monitoring.py\<close>) and stores it
  (\<open>includes/storage.py\<close>); failures are retried on a schedule that survives restarts, keyword
  matches are sent to Telegram (\<open>includes/communications.py\<close>), and what the network shows is
  appended to a log. Everything on the wire is bencode (\<open>includes/bencode.py\<close>).

  Conventions. A definition has the name of the code's function where that is free, and follows
  its branches; Python's exceptions are the left of a sum type, per component. Objects are
  records passed and returned; a dictionary whose order matters is an association list
  (\<open>Ordered_Dict\<close>); bytes are 8-bit words, integers are \<open>int\<close>, text from the network is a list of
  code points. A reading of a clock, a random choice, the answer of a remote party, the outcome
  of I/O and what other tasks do during an \<open>await\<close> are arguments: a theorem holds for all of
  them, under the named conditions. \<open>asyncio\<close> runs one task at a time between two awaits, so each
  stretch without an await is one step. State machines are instances of the locale
  \<open>machine_invariant\<close> of \<open>Prelude\<close>; the laws of ordered dictionaries, of the codec and of the other
  interfaces are locales interpreted on the model's own operations.

  Theories and code.
  \<^item> \<open>Prelude\<close>, \<open>Numbers\<close>, \<open>Ordered_Dict\<close>, \<open>Utf8\<close>, \<open>Sha1\<close>, \<open>Sha256\<close>, \<open>Config\<close>: Python's basic operations,
    hashing, and \<open>config.py\<close>; \<open>Startup\<close>: the check of the configuration (\<open>includes/debug.py\<close>).
  \<^item> \<open>Bencode\<close>, \<open>Bencode_Correct\<close>: \<open>includes/bencode.py\<close>. The decoder accepts exactly the encodings of
    wire values within its limits; encoding and decoding are inverse.
  \<^item> \<open>Net\<close>, \<open>Net_Correct\<close>, \<open>Routing\<close>, \<open>Routing_Correct\<close>, \<open>Tokens\<close>, \<open>Peer_Store\<close>, \<open>Candidates\<close>,
    \<open>Token_Bucket\<close>: the classes of \<open>includes/dht.py\<close> and their invariants; the routing table is always a
    partition with bounded buckets and never evicts a live contact; tokens are accepted
    exactly while a secret lives; no infohash is worked on twice at a time; the queries granted are
    bounded in any interval.
  \<^item> \<open>Krpc\<close>, \<open>Krpc_Correct\<close>, \<open>Krpc_Evidence\<close>: \<open>DHTNode\<close>. No datagram raises, replies are bounded and go
    to the sender, responses must match a pending query, peers are stored only for a valid
    token, slots and transaction identifiers are conserved, and every record for the log can be
    written.
  \<^item> \<open>Lookup\<close>, \<open>Maintenance\<close>, \<open>Sampling\<close>: \<open>iterative_get_peers\<close>, \<open>bootstrap\<close> and \<open>maintenance_once\<close>,
    \<open>bep51_once\<close>; they end, raise nothing and stay within their bounds whatever the answers.
  \<^item> \<open>Peer_Wire\<close>, \<open>Peer_Wire_Correct\<close>, \<open>Session\<close>: \<open>includes/peer.py\<close>. Metadata is returned only when its
    digest is the infohash, an honest peer is understood, and every session ends in one of
    a fixed list of ways.
  \<^item> \<open>Indexer\<close>, \<open>Monitoring\<close>: what is indexed and which keywords match.
  \<^item> \<open>Storage\<close>, \<open>Search\<close>, \<open>Db_Worker\<close>: the SQLite tables as lists of rows, each operation as a
    transaction, and the thread that runs them with its retries. \<open>Snapshot\<close>: the routing table
    saved and restored. \<open>Evidence\<close>: the log's queue, its thread, and the rotation of its files.
  \<^item> \<open>Crawl\<close>, \<open>Crawl_Correct\<close>, \<open>Lifecycle\<close>: \<open>_process_candidate\<close> and \<open>retry_scheduler\<close>. A run ends with
    the candidate stored, scheduled or given up and its key released; all workers, failures
    and restarts together refine the life cycle of one candidate.
  \<^item> \<open>Notifications\<close>: the message, the HTTP exchange, the retry schedule. \<open>Process\<close>: the loops of the
    tasks, start-up, shutdown and exit status of \<open>main.py\<close>.

  Fuel and termination. Only the bencode parser has fuel, one more than the length of the input;
  it is proved never to run out. All other loops are total functions: the split loop of the
  routing table by the width of the bucket (at most 158 splits), a lookup by the nodes not yet
  asked, a sampling pass by the responses left and then the nodes not yet visited, readers by the
  bytes left, database operations by the attempts left.

  Not modelled, and why.
  \<^item> Sockets, TLS, timers, name resolution and files: their results are arguments.
  \<^item> The discovery of the local addresses and the binding of the UDP socket, signal handlers,
    logging set-up, the creation of directories: I/O without a decision of the program.
  \<^item> The PRAGMAs and the DDL of the database, beyond the tables they declare.
  \<^item> The evidence records during a peer session (handshake, extension, single messages), and fields
    of the start-up log lines.
  \<^item> Partial writes: a line of the log is written or not; a rotation whose renames fail half-way.
  \<^item> JSON as text: the values it makes of a line or a body are arguments or datatypes. Unicode case
    folding and \<open>zlib\<close> are parameters.
\<close>

end
